(* ===== verification/Prelude.thy ===== *)
theory Prelude
  imports Main "HOL-Library.Word" "HOL-Library.Monad_Syntax" "HOL-Library.AList"
begin

text \<open>
  What the component theories share: the integer widths of the Go code, indexing and
  slicing with Go's run-time bounds checks, big- and little-endian reads and writes, Go
  maps with their zero value, and the lemma collections.

  A Go run-time panic (index or slice bounds out of range) is the value \<open>None\<close> of the
  option type, so a function that may panic returns an option and is written in the option
  monad; a theorem that a function does not panic says that it returns \<open>Some\<close>.
  Slicing up to the capacity beyond the length, which Go allows, counts as a panic here: the
  model is stricter than the language, and the safety theorems show that no slice expression
  of the dissector goes beyond the length.
\<close>

unbundle bit_operations_syntax

named_theorems panic_free "indexing and slicing inside the bounds does not panic"
named_theorems bytes_simps "reading and writing integers as bytes"

type_synonym byte = "8 word"
type_synonym u16 = "16 word"
type_synonym u32 = "32 word"
type_synonym u64 = "64 word"
type_synonym bytes = "byte list"

section \<open>Indexing and slicing\<close>

definition idx :: "'a list \<Rightarrow> nat \<Rightarrow> 'a option" where
  "idx xs i = (if i < length xs then Some (xs ! i) else None)"

definition slice :: "'a list \<Rightarrow> nat \<Rightarrow> nat \<Rightarrow> 'a list option" where
  "slice xs a b = (if a \<le> b \<and> b \<le> length xs then Some (take (b - a) (drop a xs)) else None)"

lemma idx_Some [panic_free]: "i < length xs \<Longrightarrow> idx xs i = Some (xs ! i)"
  by (simp add: idx_def)

lemma idx_None: "idx xs i = None \<longleftrightarrow> length xs \<le> i"
  by (auto simp: idx_def)

lemma slice_Some [panic_free]:
  "a \<le> b \<Longrightarrow> b \<le> length xs \<Longrightarrow> slice xs a b = Some (take (b - a) (drop a xs))"
  by (simp add: slice_def)

lemma slice_None: "slice xs a b = None \<longleftrightarrow> b < a \<or> length xs < b"
  by (auto simp: slice_def)

lemma slice_eq_SomeD: "slice xs a b = Some ys \<Longrightarrow> length ys = b - a \<and> ys = take (b - a) (drop a xs)"
  by (auto simp: slice_def split: if_splits)

lemma slice_append_mid: "slice (pre @ mid @ post) (length pre) (length pre + length mid) = Some mid"
  by (simp add: slice_def)

section \<open>Integers as bytes\<close>

definition be16 :: "byte \<Rightarrow> byte \<Rightarrow> u16" where
  "be16 a b = word_of_nat (unat a * 256 + unat b)"

definition be32 :: "byte \<Rightarrow> byte \<Rightarrow> byte \<Rightarrow> byte \<Rightarrow> u32" where
  "be32 a b c d = word_of_nat (((unat a * 256 + unat b) * 256 + unat c) * 256 + unat d)"

text \<open>\<open>put_be16\<close>, \<open>put_be32\<close>: the bytes \<open>binary.BigEndian.PutUint16/32\<close> store.\<close>

definition put_be16 :: "u16 \<Rightarrow> bytes" where
  "put_be16 w = [word_of_nat (unat w div 256), word_of_nat (unat w mod 256)]"

definition put_be32 :: "u32 \<Rightarrow> bytes" where
  "put_be32 w = [word_of_nat (unat w div 16777216), word_of_nat (unat w div 65536 mod 256),
     word_of_nat (unat w div 256 mod 256), word_of_nat (unat w mod 256)]"

lemma unat_byte_less: "unat (b :: byte) < 256"
  using unsigned_less [of b, where 'a = nat] by simp

lemma unat_u16_less: "unat (w :: u16) < 65536"
  using unsigned_less [of w, where 'a = nat] by simp

lemma unat_u32_less: "unat (w :: u32) < 4294967296"
  using unsigned_less [of w, where 'a = nat] by simp

lemma unat_of_nat_byte: "n < 256 \<Longrightarrow> unat (word_of_nat n :: byte) = n"
  by (simp add: unsigned_of_nat take_bit_nat_eq_self)

lemma unat_of_nat_u16: "n < 65536 \<Longrightarrow> unat (word_of_nat n :: u16) = n"
  by (simp add: unsigned_of_nat take_bit_nat_eq_self)

lemma unat_of_nat_u32: "n < 4294967296 \<Longrightarrow> unat (word_of_nat n :: u32) = n"
  by (simp add: unsigned_of_nat take_bit_nat_eq_self)

lemma unat_be16 [bytes_simps]: "unat (be16 a b) = unat a * 256 + unat b"
  using unat_byte_less [of a] unat_byte_less [of b] unfolding be16_def by (intro unat_of_nat_u16) simp

lemma unat_be32 [bytes_simps]:
  "unat (be32 a b c d) = ((unat a * 256 + unat b) * 256 + unat c) * 256 + unat d"
  using unat_byte_less [of a] unat_byte_less [of b] unat_byte_less [of c] unat_byte_less [of d]
  unfolding be32_def by (intro unat_of_nat_u32) simp

lemma length_put_be16 [simp]: "length (put_be16 w) = 2"
  by (simp add: put_be16_def)

lemma length_put_be32 [simp]: "length (put_be32 w) = 4"
  by (simp add: put_be32_def)

lemma be16_put [bytes_simps]: "be16 (put_be16 w ! 0) (put_be16 w ! Suc 0) = w"
proof -
  have "unat (be16 (put_be16 w ! 0) (put_be16 w ! Suc 0)) = unat w"
    using unat_u16_less [of w] by (simp add: unat_be16 put_be16_def unat_of_nat_byte)
  then show ?thesis by (simp add: word_unat_eq_iff)
qed

lemma be32_digits:
  "n < 4294967296 \<Longrightarrow>
   (((n div 16777216) * 256 + n div 65536 mod 256) * 256 + n div 256 mod 256) * 256 + n mod 256 = (n::nat)"
proof -
  have a: "n div 65536 = (n div 16777216) * 256 + n div 65536 mod 256"
    using div_mult_mod_eq [of "n div 65536" 256] by (simp add: div_mult2_eq [symmetric])
  have b: "n div 256 = (n div 65536) * 256 + n div 256 mod 256"
    using div_mult_mod_eq [of "n div 256" 256] by (simp add: div_mult2_eq [symmetric])
  have c: "n = (n div 256) * 256 + n mod 256"
    by simp
  from a b c show ?thesis by simp
qed

lemma be32_put [bytes_simps]:
  "be32 (put_be32 w ! 0) (put_be32 w ! Suc 0) (put_be32 w ! 2) (put_be32 w ! 3) = w"
proof -
  have "unat (be32 (put_be32 w ! 0) (put_be32 w ! Suc 0) (put_be32 w ! 2) (put_be32 w ! 3)) = unat w"
    using unat_u32_less [of w] be32_digits [of "unat w"]
    by (simp add: unat_be32 put_be32_def unat_of_nat_byte less_mult_imp_div_less)
  then show ?thesis by (simp add: word_unat_eq_iff)
qed

text \<open>A property of bytes is checked by going through all of them.\<close>

lemma byte_all: "list_all (\<lambda>n. P (word_of_nat n :: byte)) [0..<256] \<Longrightarrow> P b"
proof -
  assume "list_all (\<lambda>n. P (word_of_nat n :: byte)) [0..<256]"
  then have "\<forall>n < 256. P (word_of_nat n)" by (simp add: list_all_iff atLeast_upt)
  with unat_byte_less [of b] have "P (word_of_nat (unat b))" by blast
  then show "P b" by simp
qed

lemma byte_c0: "(b :: byte) AND 0xC0 = 0xC0 \<longleftrightarrow> 192 \<le> unat b"
  by (rule byte_all [of "\<lambda>b. (b AND 0xC0 = 0xC0) = (192 \<le> unat b)"]) (simp add: upt_rec)

section \<open>Go maps\<close>

text \<open>
  A Go map whose iteration order is never observed is a partial function; \<open>gget\<close> is the
  indexing expression, which yields the zero value of the element type for a missing key.
\<close>

definition gget :: "('k \<rightharpoonup> string) \<Rightarrow> 'k \<Rightarrow> string" where
  "gget m k = (case m k of None \<Rightarrow> [] | Some v \<Rightarrow> v)"

lemma gget_upd [simp]: "gget (m(k \<mapsto> v)) k' = (if k' = k then v else gget m k')"
  by (simp add: gget_def)

lemma gget_empty [simp]: "gget Map.empty k = []"
  by (simp add: gget_def)

section \<open>The option monad\<close>

lemma bind_Some_eq: "x = Some a \<Longrightarrow> Option.bind x f = f a"
  by simp

text \<open>Chaining facts of the form: the step returns, and its result satisfies \<open>Q\<close>.\<close>

lemma bind_total_pair:
  assumes "\<exists>a b. x = Some (a, b) \<and> Q b"
    and "\<And>a b. Q b \<Longrightarrow> \<exists>c d. f (a, b) = Some (c, d) \<and> R d"
  shows "\<exists>c d. Option.bind x f = Some (c, d) \<and> R d"
  using assms by (metis Option.bind.simps(2))

lemma bind_None_iff: "Option.bind x f = None \<longleftrightarrow> x = None \<or> (\<exists>a. x = Some a \<and> f a = None)"
  by (cases x) auto

lemma byte_of_unat: "unat (b :: byte) = k \<Longrightarrow> of_nat k = c \<Longrightarrow> b = c"
  by auto

lemma unat_of_int_u32: "0 \<le> i \<Longrightarrow> i < 4294967296 \<Longrightarrow> int (unat (word_of_int i :: u32)) = i"
  by (simp add: unsigned_of_int take_bit_int_eq_self_iff)

section \<open>Runs\<close>

text \<open>\<open>run_all step xs s\<close>: the steps for \<open>xs\<close> in order, until one of them fails.\<close>

fun run_all :: "('a \<Rightarrow> 's \<Rightarrow> 's option) \<Rightarrow> 'a list \<Rightarrow> 's \<Rightarrow> 's option" where
  "run_all step [] s = Some s"
| "run_all step (x # xs) s = step x s \<bind> run_all step xs"

lemma run_all_append: "run_all step (xs @ ys) s = run_all step xs s \<bind> run_all step ys"
  by (induction xs arbitrary: s) (simp_all split: bind_split)

lemma run_all_invariant:
  assumes "\<And>x s. I s \<Longrightarrow> \<exists>s'. step x s = Some s' \<and> I s'" and "I s"
  shows "\<exists>s'. run_all step xs s = Some s' \<and> I s'"
  using assms(2)
proof (induction xs arbitrary: s)
  case (Cons x xs)
  from assms(1) [OF Cons.prems, of x] Cons.IH show ?case by fastforce
qed simp

end
