(* ===== verification/GoStrings.thy ===== *)
theory GoStrings
  imports Prelude
begin

text \<open>
  The parts of Go's \<open>strings\<close>, \<open>bytes\<close>, \<open>fmt\<close>, \<open>unicode/utf8\<close> and \<open>net\<close> packages that
  FluxTap uses, on strings as byte sequences: a Go string is a list of \<open>char\<close> (8 bits
  each), a \<open>[]byte\<close> is a list of \<open>8 word\<close>. The case table of the \<open>unicode\<close> package is
  the argument \<open>ul\<close> (the lower-case mapping on runes beyond ASCII) of the functions that
  use it.
\<close>

section \<open>Bytes and characters\<close>

definition byte_char :: "byte \<Rightarrow> char" where
  "byte_char b = char_of (unat b)"

definition char_byte :: "char \<Rightarrow> byte" where
  "char_byte c = word_of_nat (of_char c)"

definition str :: "bytes \<Rightarrow> string" where
  "str bs = map byte_char bs"

definition bytes_of :: "string \<Rightarrow> bytes" where
  "bytes_of s = map char_byte s"

lemma byte_char_byte [simp]: "byte_char (char_byte c) = c"
proof -
  have "unat (char_byte c) = of_char c"
    unfolding char_byte_def by (intro unat_of_nat_byte) simp
  then show ?thesis by (simp add: byte_char_def)
qed

lemma char_byte_char [simp]: "char_byte (byte_char b) = b"
  using unat_byte_less [of b] by (simp add: byte_char_def char_byte_def)

lemma str_bytes_of [simp]: "str (bytes_of s) = s"
  by (simp add: str_def bytes_of_def o_def)

lemma bytes_of_str [simp]: "bytes_of (str s) = s"
  by (simp add: str_def bytes_of_def o_def)

lemma length_str [simp]: "length (str bs) = length bs"
  by (simp add: str_def)

lemma length_bytes_of [simp]: "length (bytes_of s) = length s"
  by (simp add: bytes_of_def)

lemma bytes_of_append [simp]: "bytes_of (s @ t) = bytes_of s @ bytes_of t"
  by (simp add: bytes_of_def)

lemma str_append [simp]: "str (s @ t) = str s @ str t"
  by (simp add: str_def)

lemma str_Nil [simp]: "str [] = []"
  by (simp add: str_def)

lemma str_take: "str (take n bs) = take n (str bs)"
  by (simp add: str_def take_map)

lemma str_drop: "str (drop n bs) = drop n (str bs)"
  by (simp add: str_def drop_map)

lemma byte_char_eq: "byte_char b = c \<longleftrightarrow> b = char_byte c"
  by auto

section \<open>Searching, splitting, joining\<close>

definition has_prefix :: "'a list \<Rightarrow> 'a list \<Rightarrow> bool" where
  "has_prefix s p = (take (length p) s = p)"

definition has_suffix :: "'a list \<Rightarrow> 'a list \<Rightarrow> bool" where
  "has_suffix s p = (length p \<le> length s \<and> drop (length s - length p) s = p)"

text \<open>\<open>find_sub\<close> is \<open>Index\<close> (\<open>None\<close> for -1).\<close>

fun find_sub :: "'a list \<Rightarrow> 'a list \<Rightarrow> nat option" where
  "find_sub p [] = (if p = [] then Some 0 else None)"
| "find_sub p (c # cs) =
     (if has_prefix (c # cs) p then Some 0 else map_option Suc (find_sub p cs))"

definition contains_sub :: "'a list \<Rightarrow> 'a list \<Rightarrow> bool" where
  "contains_sub s p = (find_sub p s \<noteq> None)"

text \<open>\<open>splitn n\<close> is \<open>SplitN\<close> for a positive limit and a non-empty separator; \<open>split\<close> is
  \<open>Split\<close>: a string of length \<open>k\<close> has at most \<open>k + 1\<close> parts, so the limit never acts.\<close>

fun splitn :: "nat \<Rightarrow> 'a list \<Rightarrow> 'a list \<Rightarrow> 'a list list" where
  "splitn 0 sep s = []"
| "splitn (Suc n) sep s =
     (if n = 0 then [s]
      else case find_sub sep s of
             None \<Rightarrow> [s]
           | Some i \<Rightarrow> take i s # splitn n sep (drop (i + length sep) s))"

definition split :: "'a list \<Rightarrow> 'a list \<Rightarrow> 'a list list" where
  "split sep s = splitn (Suc (length s)) sep s"

fun join :: "'a list \<Rightarrow> 'a list list \<Rightarrow> 'a list" where
  "join sep [] = []"
| "join sep [x] = x"
| "join sep (x # y # zs) = x @ sep @ join sep (y # zs)"

lemma has_prefix_append [simp]: "has_prefix (p @ s) p"
  by (simp add: has_prefix_def)

lemma has_prefix_iff: "has_prefix s p \<longleftrightarrow> (\<exists>t. s = p @ t)"
  by (metis append_take_drop_id has_prefix_append has_prefix_def)

lemma find_sub_Some: "find_sub p s = Some i \<Longrightarrow> \<exists>t. s = take i s @ p @ t \<and> i + length p \<le> length s"
proof (induction s arbitrary: i)
  case Nil
  then show ?case by (auto split: if_splits)
next
  case (Cons c cs)
  show ?case
  proof (cases "has_prefix (c # cs) p")
    case True
    with Cons.prems have i: "i = 0" by simp
    from True obtain t where t: "c # cs = p @ t" by (auto simp: has_prefix_iff)
    then have "length p \<le> length (c # cs)" by (metis length_append le_add1)
    with t i show ?thesis by auto
  next
    case False
    with Cons.prems obtain j where j: "find_sub p cs = Some j" "i = Suc j" by auto
    from Cons.IH [OF j(1)] j(2) show ?thesis by auto
  qed
qed

lemma find_sub_None: "find_sub p s = None \<Longrightarrow> s \<noteq> u @ p @ v"
proof (induction s arbitrary: u)
  case Nil
  then show ?case by (auto split: if_splits)
next
  case (Cons c cs)
  then show ?case by (cases u) (auto simp: has_prefix_iff split: if_splits)
qed

lemma contains_sub_iff: "contains_sub s p \<longleftrightarrow> (\<exists>u v. s = u @ p @ v)"
proof
  assume "contains_sub s p"
  then obtain i where "find_sub p s = Some i" by (auto simp: contains_sub_def)
  then show "\<exists>u v. s = u @ p @ v" by (blast dest: find_sub_Some)
next
  assume "\<exists>u v. s = u @ p @ v"
  then show "contains_sub s p" by (metis contains_sub_def find_sub_None)
qed

lemma contains_sub_self [simp]: "contains_sub s s"
  by (auto simp: contains_sub_iff intro: exI [of _ "[]"])

text \<open>Evaluation of the searches on literals.\<close>

lemma has_prefix_simps:
  "has_prefix s []" "\<not> has_prefix [] (c # p)"
  "has_prefix (d # s) (c # p) \<longleftrightarrow> d = c \<and> has_prefix s p"
  by (auto simp: has_prefix_def)

lemma contains_sub_simps:
  "contains_sub [] p \<longleftrightarrow> p = []"
  "contains_sub (c # s) p \<longleftrightarrow> has_prefix (c # s) p \<or> contains_sub s p"
  by (auto simp: contains_sub_def)

lemmas sub_eval = contains_sub_simps has_prefix_simps

lemma join_Cons: "join sep (x # xs) = (if xs = [] then x else x @ sep @ join sep xs)"
  by (cases xs) auto

lemma join_append:
  "xs \<noteq> [] \<Longrightarrow> ys \<noteq> [] \<Longrightarrow> join sep (xs @ ys) = join sep xs @ sep @ join sep ys"
  by (induction xs) (auto simp: join_Cons)

lemma join_Nil_iff: "list_all (\<lambda>x. x \<noteq> []) xs \<Longrightarrow> join sep xs = [] \<longleftrightarrow> xs = []"
  by (cases xs) (auto simp: join_Cons)

text \<open>The loops that build a separated list in a string builder.\<close>

lemma join_fold:
  "\<forall>x \<in> set xs. g x \<noteq> [] \<Longrightarrow> list_all (\<lambda>x. x \<noteq> []) ps \<Longrightarrow>
   fold (\<lambda>x b. if P x then (if b \<noteq> [] then b @ sep else b) @ g x else b) xs (join sep ps)
     = join sep (ps @ map g (filter P xs))"
proof (induction xs arbitrary: ps)
  case (Cons x xs)
  have "join sep (ps @ [g x]) = (if join sep ps \<noteq> [] then join sep ps @ sep else join sep ps) @ g x"
    using Cons.prems(2) join_append [of ps "[g x]" sep] by (auto simp: join_Nil_iff)
  with Cons.IH [of "ps @ [g x]"] Cons.IH [of ps] Cons.prems show ?case by simp
qed simp

text \<open>A string without the separator occurs in a joined string only inside one of the parts.\<close>

lemma sub_across:
  assumes "c \<notin> set x" "x \<noteq> []"
  shows "(\<exists>u v. p @ c # r = u @ x @ v) \<longleftrightarrow> (\<exists>u v. p = u @ x @ v) \<or> (\<exists>u v. r = u @ x @ v)"
proof
  assume "\<exists>u v. p @ c # r = u @ x @ v"
  then obtain u v where e: "p @ c # r = u @ x @ v" by blast
  then consider us where "p = u @ us" "us @ c # r = x @ v" | us where "p @ us = u" "c # r = us @ x @ v"
    by (auto simp: append_eq_append_conv2)
  then show "(\<exists>u v. p = u @ x @ v) \<or> (\<exists>u v. r = u @ x @ v)"
  proof cases
    case 1
    from 1(2) consider ws where "us = x @ ws" | ws where "x = us @ ws" "c # r = ws @ v"
      by (auto simp: append_eq_append_conv2)
    then show ?thesis
    proof cases
      case 1
      with \<open>p = u @ us\<close> show ?thesis by blast
    next
      case (2 ws)
      then show ?thesis
      proof (cases ws)
        case Nil
        with 2 \<open>p = u @ us\<close> show ?thesis by (metis append_Nil2)
      next
        case (Cons d ds)
        with 2 assms show ?thesis by auto
      qed
    qed
  next
    case 2
    show ?thesis
    proof (cases us)
      case Nil
      with 2 assms show ?thesis by (cases x) auto
    next
      case (Cons d ds)
      with 2 show ?thesis by auto
    qed
  qed
next
  assume "(\<exists>u v. p = u @ x @ v) \<or> (\<exists>u v. r = u @ x @ v)"
  then show "\<exists>u v. p @ c # r = u @ x @ v"
    by (metis append.assoc append_Cons)
qed

lemma contains_sub_join:
  assumes "c \<notin> set x" "x \<noteq> []"
  shows "contains_sub (join [c] ps) x \<longleftrightarrow> (\<exists>p \<in> set ps. contains_sub p x)"
proof (induction ps)
  case Nil
  with assms show ?case by (simp add: contains_sub_iff)
next
  case (Cons p ps)
  with sub_across [OF assms, of p "join [c] ps"] show ?case
    by (cases "ps = []") (auto simp: join_Cons contains_sub_iff)
qed

lemma splitn_not_Nil [simp]: "splitn (Suc n) sep s \<noteq> []"
  by (simp split: option.split)

lemma split_not_Nil [simp]: "split sep s \<noteq> []"
  by (simp add: split_def del: splitn.simps)

text \<open>Splitting and joining with the same separator is the identity.\<close>

lemma join_splitn: "0 < n \<Longrightarrow> join sep (splitn n sep s) = s"
proof (induction n sep s rule: splitn.induct)
  case (2 n sep s)
  show ?case
  proof (cases "n = 0 \<or> find_sub sep s = None")
    case True
    then show ?thesis by auto
  next
    case False
    then obtain i m where i: "find_sub sep s = Some i" and n: "n = Suc m"
      by (cases n) auto
    from i obtain t where t: "s = take i s @ sep @ t" and le: "i + length sep \<le> length s"
      by (blast dest: find_sub_Some)
    from le have len: "length (take i s) = i" by simp
    have d: "drop (i + length sep) s = t"
    proof -
      have "drop (i + length sep) (take i s @ sep @ t) = t" using len by simp
      then show ?thesis using t by simp
    qed
    have ne: "splitn n sep t \<noteq> []" using n by (simp del: splitn.simps)
    have "join sep (splitn n sep t) = t"
      using "2.IH" [of i] i n d by (simp del: splitn.simps)
    with ne i n d have "join sep (splitn (Suc n) sep s) = take i s @ sep @ t"
      by (simp add: join_Cons)
    with t show ?thesis by simp
  qed
qed simp

lemma join_split: "join sep (split sep s) = s"
  unfolding split_def by (rule join_splitn) simp

section \<open>Formatting integers\<close>

definition digit_char :: "nat \<Rightarrow> char" where
  "digit_char d = ''0123456789abcdef'' ! d"

text \<open>\<open>dec\<close> is \<open>%d\<close> of a non-negative integer, \<open>hex\<close> is \<open>%x\<close>, and \<open>hexw w\<close> is
  \<open>%0wx\<close>.\<close>

fun dec :: "nat \<Rightarrow> string" where
  "dec n = (if n < 10 then [digit_char n] else dec (n div 10) @ [digit_char (n mod 10)])"

fun hex :: "nat \<Rightarrow> string" where
  "hex n = (if n < 16 then [digit_char n] else hex (n div 16) @ [digit_char (n mod 16)])"

declare dec.simps [simp del] hex.simps [simp del]

definition hexw :: "nat \<Rightarrow> nat \<Rightarrow> string" where
  "hexw w n = (let h = hex n in replicate (w - length h) (CHR ''0'') @ h)"

text \<open>\<open>hex.EncodeToString\<close>.\<close>

definition hex_bytes :: "bytes \<Rightarrow> string" where
  "hex_bytes bs = concat (map (\<lambda>b. hexw 2 (unat b)) bs)"

lemma dec_not_Nil [simp]: "dec n \<noteq> []"
  by (subst dec.simps) simp

lemma digit_char_cases: "d < 10 \<Longrightarrow> digit_char d \<in> set ''0123456789''"
proof -
  assume "d < 10"
  then have "digit_char d = ''0123456789'' ! d"
    unfolding digit_char_def by (auto simp: less_Suc_eq numeral_eq_Suc)
  with \<open>d < 10\<close> show ?thesis
    using nth_mem [of d "''0123456789''"] by simp
qed

lemma digit_char_less_16: "d < 16 \<Longrightarrow> digit_char d \<in> set ''0123456789abcdef''"
  unfolding digit_char_def by (rule nth_mem) simp

lemma set_dec: "set (dec n) \<subseteq> set ''0123456789''"
proof (induction n rule: dec.induct)
  case (1 n)
  show ?case
  proof (cases "n < 10")
    case True
    then show ?thesis using digit_char_cases [of n] by (subst dec.simps) simp
  next
    case False
    with 1 have "set (dec (n div 10)) \<subseteq> set ''0123456789''" by simp
    with False digit_char_cases [of "n mod 10"] show ?thesis
      by (subst dec.simps) simp
  qed
qed

text \<open>\<open>undec\<close> reads a string of decimal digits back: \<open>dec\<close> loses nothing.\<close>

definition undec :: "string \<Rightarrow> nat" where
  "undec s = foldl (\<lambda>n c. n * 10 + (of_char c - 48)) 0 s"

lemma digit_char_code: "d < 10 \<Longrightarrow> of_char (digit_char d) = 48 + d"
proof -
  assume "d < 10"
  then have "d = 0 \<or> d = 1 \<or> d = 2 \<or> d = 3 \<or> d = 4 \<or> d = 5 \<or> d = 6 \<or> d = 7 \<or> d = 8 \<or> d = 9"
    by arith
  then show ?thesis by (elim disjE) (simp_all add: digit_char_def)
qed

lemma undec_dec [simp]: "undec (dec n) = n"
proof (induction n rule: dec.induct)
  case (1 n)
  show ?case
  proof (cases "n < 10")
    case True
    then show ?thesis by (subst dec.simps) (simp add: undec_def digit_char_code)
  next
    case False
    with 1 have "undec (dec (n div 10)) = n div 10" by simp
    with False show ?thesis
      by (subst dec.simps) (simp add: undec_def digit_char_code)
  qed
qed

lemma dec_inject [simp]: "dec m = dec n \<longleftrightarrow> m = n"
  by (metis undec_dec)

lemma hex_not_Nil [simp]: "hex n \<noteq> []"
  by (subst hex.simps) simp

lemma length_hex_byte: "n < 256 \<Longrightarrow> length (hex n) \<le> 2"
  by (subst hex.simps, subst hex.simps) auto

lemma length_hexw2: "n < 256 \<Longrightarrow> length (hexw 2 n) = 2"
  using length_hex_byte [of n] by (simp add: hexw_def Let_def)

lemma length_hex_bytes: "length (hex_bytes bs) = 2 * length bs"
  by (induction bs) (simp_all add: hex_bytes_def length_hexw2 unat_byte_less)

section \<open>UTF-8 and case mapping\<close>

text \<open>\<open>decode_rune\<close> is \<open>utf8.DecodeRuneInString\<close>: a rune and its width; an invalid byte is
  the replacement rune \<open>0xFFFD\<close> with width 1. The accepted ranges of the second byte are
  those of the Go decoder (no overlong forms, no surrogates, nothing above \<open>0x10FFFF\<close>).\<close>

abbreviation rune_error :: nat where
  "rune_error \<equiv> 0xFFFD"

definition in_range :: "nat \<Rightarrow> nat \<Rightarrow> nat \<Rightarrow> bool" where
  "in_range lo hi n = (lo \<le> n \<and> n \<le> hi)"

definition second_range :: "nat \<Rightarrow> nat \<times> nat" where
  "second_range b0 =
     (if b0 = 0xE0 then (0xA0, 0xBF) else if b0 = 0xED then (0x80, 0x9F)
      else if b0 = 0xF0 then (0x90, 0xBF) else if b0 = 0xF4 then (0x80, 0x8F)
      else (0x80, 0xBF))"

definition rune_width :: "nat \<Rightarrow> nat" where
  "rune_width b0 =
     (if b0 < 0x80 then 1 else if in_range 0xC2 0xDF b0 then 2
      else if in_range 0xE0 0xEF b0 then 3 else if in_range 0xF0 0xF4 b0 then 4 else 0)"

definition decode_rune :: "string \<Rightarrow> nat \<times> nat" where
  "decode_rune s =
     (case map of_char (take 4 s) of
        [] \<Rightarrow> (rune_error, 0)
      | b0 # bs \<Rightarrow>
          (let w = rune_width b0; (lo, hi) = second_range b0 in
           if w = 1 then (b0, 1)
           else if w = 0 \<or> length bs < w - 1 \<or> \<not> in_range lo hi (bs ! 0)
                \<or> \<not> list_all (in_range 0x80 0xBF) (take (w - 2) (drop 1 bs))
           then (rune_error, 1)
           else if w = 2 then ((b0 - 0xC0) * 64 + (bs ! 0 - 0x80), 2)
           else if w = 3 then (((b0 - 0xE0) * 64 + (bs ! 0 - 0x80)) * 64 + (bs ! 1 - 0x80), 3)
           else ((((b0 - 0xF0) * 64 + (bs ! 0 - 0x80)) * 64 + (bs ! 1 - 0x80)) * 64
                 + (bs ! 2 - 0x80), 4)))"

definition encode_rune :: "nat \<Rightarrow> string" where
  "encode_rune r =
     (let r = (if in_range 0xD800 0xDFFF r \<or> 0x10FFFF < r then rune_error else r) in
      if r < 0x80 then [char_of r]
      else if r < 0x800 then [char_of (0xC0 + r div 64), char_of (0x80 + r mod 64)]
      else if r < 0x10000 then
        [char_of (0xE0 + r div 4096), char_of (0x80 + r div 64 mod 64), char_of (0x80 + r mod 64)]
      else [char_of (0xF0 + r div 262144), char_of (0x80 + r div 4096 mod 64),
            char_of (0x80 + r div 64 mod 64), char_of (0x80 + r mod 64)])"

lemma decode_rune_width: "s \<noteq> [] \<Longrightarrow> 1 \<le> snd (decode_rune s)"
  by (cases s) (auto simp: decode_rune_def Let_def split: prod.split)

text \<open>The runes a \<open>range\<close> loop over the string yields.\<close>

function runes :: "string \<Rightarrow> nat list" where
  "runes s = (if s = [] then []
     else fst (decode_rune s) # runes (drop (snd (decode_rune s)) s))"
  by pat_completeness auto
termination
proof (relation "measure length", simp)
  fix s :: string
  assume "s \<noteq> []"
  with decode_rune_width [of s] show "(drop (snd (decode_rune s)) s, s) \<in> measure length"
    by (cases s) auto
qed

declare runes.simps [simp del]

definition lower_rune :: "(nat \<Rightarrow> nat) \<Rightarrow> nat \<Rightarrow> nat" where
  "lower_rune ul r = (if in_range 65 90 r then r + 32 else if r < 0x80 then r else ul r)"

definition to_lower :: "(nat \<Rightarrow> nat) \<Rightarrow> string \<Rightarrow> string" where
  "to_lower ul s = concat (map (\<lambda>r. encode_rune (lower_rune ul r)) (runes s))"

definition ascii :: "string \<Rightarrow> bool" where
  "ascii s = list_all (\<lambda>c. of_char c < (0x80::nat)) s"

definition lower_char :: "char \<Rightarrow> char" where
  "lower_char c = (if in_range 65 90 (of_char c) then char_of (of_char c + (32::nat)) else c)"

lemma ascii_simps [simp]:
  "ascii []"
  "ascii (c # s) \<longleftrightarrow> of_char c < (0x80::nat) \<and> ascii s"
  "ascii (s @ t) \<longleftrightarrow> ascii s \<and> ascii t"
  by (auto simp: ascii_def)

lemma decode_rune_ascii: "of_char c < (0x80::nat) \<Longrightarrow> decode_rune (c # s) = (of_char c, 1)"
  by (simp add: decode_rune_def rune_width_def Let_def split: prod.split)

lemma runes_ascii_Cons: "of_char c < (0x80::nat) \<Longrightarrow> runes (c # s) = of_char c # runes s"
  by (subst runes.simps) (simp add: decode_rune_ascii)

lemma runes_Nil [simp]: "runes [] = []"
  by (simp add: runes.simps)

lemma encode_lower_ascii:
  "of_char c < (0x80::nat) \<Longrightarrow> encode_rune (lower_rune ul (of_char c)) = [lower_char c]"
  by (auto simp: encode_rune_def lower_rune_def lower_char_def in_range_def)

text \<open>On ASCII strings the mapping is bytewise, as Go's fast path computes it.\<close>

lemma to_lower_ascii: "ascii s \<Longrightarrow> to_lower ul s = map lower_char s"
  by (induction s) (simp_all add: to_lower_def runes_ascii_Cons encode_lower_ascii)

section \<open>Where a separator is found\<close>

lemma find_sub_skip:
  "c \<notin> set u \<Longrightarrow> find_sub (c # p) (u @ s) = map_option ((+) (length u)) (find_sub (c # p) s)"
  by (cases "find_sub (c # p) s"; induction u) (auto simp: has_prefix_simps)

lemma find_sub_front: "c \<notin> set u \<Longrightarrow> find_sub (c # p) (u @ (c # p) @ s) = Some (length u)"
proof -
  assume "c \<notin> set u"
  have "has_prefix ((c # p) @ s) (c # p)" by (rule has_prefix_append)
  then have "find_sub (c # p) ((c # p) @ s) = Some 0" by simp
  with find_sub_skip [OF \<open>c \<notin> set u\<close>, of p "(c # p) @ s"] show ?thesis by simp
qed

section \<open>White space\<close>

text \<open>The encodings of the runes \<open>unicode.IsSpace\<close> accepts. Trimming from the right looks for
  an encoding at the end, which is what \<open>utf8.DecodeLastRuneInString\<close> decodes.\<close>

definition space_encodings :: "string list" where
  "space_encodings =
     [''\<newline>'', '' '', [CHR 0x09], [CHR 0x0D], [CHR 0x0B], [CHR 0x0C],
      [CHR 0xC2, CHR 0x85], [CHR 0xC2, CHR 0xA0], [CHR 0xE1, CHR 0x9A, CHR 0x80],
      [CHR 0xE2, CHR 0x80, CHR 0x80], [CHR 0xE2, CHR 0x80, CHR 0x81],
      [CHR 0xE2, CHR 0x80, CHR 0x82], [CHR 0xE2, CHR 0x80, CHR 0x83],
      [CHR 0xE2, CHR 0x80, CHR 0x84], [CHR 0xE2, CHR 0x80, CHR 0x85],
      [CHR 0xE2, CHR 0x80, CHR 0x86], [CHR 0xE2, CHR 0x80, CHR 0x87],
      [CHR 0xE2, CHR 0x80, CHR 0x88], [CHR 0xE2, CHR 0x80, CHR 0x89],
      [CHR 0xE2, CHR 0x80, CHR 0x8A], [CHR 0xE2, CHR 0x80, CHR 0xA8],
      [CHR 0xE2, CHR 0x80, CHR 0xA9], [CHR 0xE2, CHR 0x80, CHR 0xAF],
      [CHR 0xE2, CHR 0x81, CHR 0x9F], [CHR 0xE3, CHR 0x80, CHR 0x80]]"

fun drop_any :: "string list \<Rightarrow> string \<Rightarrow> string" where
  "drop_any [] s = s"
| "drop_any (e # es) s = (if has_prefix s e then drop (length e) s else drop_any es s)"

lemma length_drop_any: "length (drop_any es s) \<le> length s"
  by (induction es) auto

function trim_by :: "string list \<Rightarrow> string \<Rightarrow> string" where
  "trim_by es s =
     (let t = drop_any es s in if length t < length s then trim_by es t else s)"
  by pat_completeness auto
termination
  by (relation "measure (\<lambda>(es, s). length s)") auto

declare trim_by.simps [simp del]

definition trim_space :: "string \<Rightarrow> string" where
  "trim_space s =
     rev (trim_by (map rev space_encodings) (rev (trim_by space_encodings s)))"

lemma length_trim_by: "length (trim_by es s) \<le> length s"
proof (induction es s rule: trim_by.induct)
  case (1 es s)
  then show ?case by (subst trim_by.simps) (auto simp: Let_def)
qed

lemma length_trim_space: "length (trim_space s) \<le> length s"
  using length_trim_by [of space_encodings s]
    length_trim_by [of "map rev space_encodings" "rev (trim_by space_encodings s)"]
  by (simp add: trim_space_def)

section \<open>Textual forms of addresses\<close>

definition ipv4_string :: "bytes \<Rightarrow> string" where
  "ipv4_string b = join ''.'' (map (\<lambda>x. dec (unat x)) b)"

fun groups16 :: "bytes \<Rightarrow> nat list" where
  "groups16 (a # b # r) = (unat a * 256 + unat b) # groups16 r"
| "groups16 _ = []"

text \<open>The longest run of at least two zero groups, the first of equal ones, as
  (start, end); \<open>(255, 255)\<close> when there is none.\<close>

definition zero_run :: "nat list \<Rightarrow> nat \<times> nat" where
  "zero_run gs = fold (\<lambda>i (zs, ze).
     let l = length (takeWhile (\<lambda>g. g = 0) (drop i gs)) in
     if 2 \<le> l \<and> ze - zs < l then (i, i + l) else (zs, ze)) [0..<8] (255, 255)"

definition ipv6_string :: "bytes \<Rightarrow> string" where
  "ipv6_string b =
     (let gs = groups16 b; (zs, ze) = zero_run gs in
      if zs = 255 then join '':'' (map hex gs)
      else join '':'' (map hex (take zs gs)) @ ''::'' @ join '':'' (map hex (drop ze gs)))"

text \<open>\<open>net.IP.String\<close>.\<close>

definition ip_to_string :: "bytes \<Rightarrow> string" where
  "ip_to_string b =
     (if b = [] then ''<nil>''
      else if length b = 4 then ipv4_string b
      else if length b \<noteq> 16 then ''?'' @ hex_bytes b
      else if take 12 b = replicate 10 0 @ [0xFF, 0xFF] then ipv4_string (drop 12 b)
      else ipv6_string b)"

section \<open>Non-ASCII literals of the source\<close>

definition arrow :: string where
  "arrow = [CHR 0xE2, CHR 0x86, CHR 0x92]"

definition ellipsis :: string where
  "ellipsis = [CHR 0xE2, CHR 0x80, CHR 0xA6]"

definition mid_dot :: string where
  "mid_dot = [CHR 0xC2, CHR 0xB7]"

definition em_dash :: string where
  "em_dash = [CHR 0xE2, CHR 0x80, CHR 0x94]"

definition newline :: string where
  "newline = ''\<newline>''"

end
