(* ===== verification/Frame.thy ===== *)
theory Frame
  imports GoStrings "HOL-Library.List_Lexorder" "HOL-Library.Char_ord"
begin

text \<open>
  \<open>internal/decode/frame.go\<close>: the layer and frame types, the helpers every dissector uses
  (bounds-checked reads, slices, previews, addresses), the hex dump, the summary fields and
  the flow key. \<open>Meta\<close> is a partial function (its iteration order is never used); a
  layer's \<open>Fields\<close> is an association list in insertion order, updated in place by
  \<open>AList.update\<close>. A time is its distance from the Unix epoch in nanoseconds. The lemmas:
  the layers of a frame tile a prefix of the packet (\<open>tiles\<close>), every helper keeps inside
  the packet, and the flow key does not depend on the direction of the packet.
\<close>

section \<open>Layers and frames\<close>

type_synonym gotime = int

type_synonym fields = "(string \<times> string) list"

abbreviation fset :: "string \<Rightarrow> string \<Rightarrow> fields \<Rightarrow> fields" where
  "fset \<equiv> AList.update"

abbreviation fget :: "fields \<Rightarrow> string \<Rightarrow> string" where
  "fget fs \<equiv> gget (map_of fs)"

lemma fget_fset [simp]: "fget (fset k v fs) k' = (if k' = k then v else fget fs k')"
  by (simp add: gget_def update_conv')

lemma map_of_fset [simp]: "map_of (fset k v fs) = (map_of fs)(k \<mapsto> v)"
  by (simp add: update_conv')

record layer =
  l_name :: string
  l_summary :: string
  l_fields :: fields
  l_raw :: bytes
  l_offset :: nat
  l_length :: nat
  l_color :: string

record frame =
  f_no :: u64
  f_timestamp :: gotime
  f_cap_len :: u32
  f_orig_len :: u32
  f_length :: nat
  f_src :: string
  f_dst :: string
  f_protocol :: string
  f_info :: string
  f_layers :: "layer list"
  f_hex_dump :: string
  f_meta :: "string \<rightharpoonup> string"
  f_flow_key :: string
  f_severity :: string
  f_tags :: "string list"

text \<open>The frame \<open>Dissect\<close> starts from.\<close>

definition blank_frame :: "u64 \<Rightarrow> gotime \<Rightarrow> u32 \<Rightarrow> u32 \<Rightarrow> bytes \<Rightarrow> frame" where
  "blank_frame no ts cap_len orig_len data =
     \<lparr>f_no = no, f_timestamp = ts, f_cap_len = cap_len, f_orig_len = orig_len,
      f_length = length data, f_src = [], f_dst = [], f_protocol = [], f_info = [],
      f_layers = [], f_hex_dump = [], f_meta = Map.empty, f_flow_key = [], f_severity = [],
      f_tags = []\<rparr>"

abbreviation meta_set :: "string \<Rightarrow> string \<Rightarrow> frame \<Rightarrow> frame" where
  "meta_set k v f \<equiv> f\<lparr>f_meta := (f_meta f)(k \<mapsto> v)\<rparr>"

abbreviation add_tags :: "string list \<Rightarrow> frame \<Rightarrow> frame" where
  "add_tags ts f \<equiv> f\<lparr>f_tags := f_tags f @ ts\<rparr>"

definition add_layer ::
  "string \<Rightarrow> string \<Rightarrow> fields \<Rightarrow> nat \<Rightarrow> nat \<Rightarrow> string \<Rightarrow> frame \<Rightarrow> frame" where
  "add_layer name summary fs off len color f =
     f\<lparr>f_layers := f_layers f @ [\<lparr>l_name = name, l_summary = summary, l_fields = fs,
        l_raw = [], l_offset = off, l_length = len, l_color = color\<rparr>]\<rparr>"

definition set_endpoints :: "string \<Rightarrow> string \<Rightarrow> frame \<Rightarrow> frame" where
  "set_endpoints src dst f = f\<lparr>f_src := src, f_dst := dst\<rparr>"

section \<open>Reading the packet\<close>

definition u16 :: "bytes \<Rightarrow> nat \<Rightarrow> u16" where
  "u16 b off = (if length b < off + 2 then 0 else be16 (b ! off) (b ! (off + 1)))"

definition u32 :: "bytes \<Rightarrow> nat \<Rightarrow> u32" where
  "u32 b off = (if length b < off + 4 then 0
     else be32 (b ! off) (b ! (off + 1)) (b ! (off + 2)) (b ! (off + 3)))"

definition safe_slice :: "bytes \<Rightarrow> nat \<Rightarrow> nat \<Rightarrow> bytes" where
  "safe_slice b s e =
     (if length b < s then []
      else let e = (if length b < e then length b else e) in
           if e < s then [] else take (e - s) (drop s b))"

definition hex_preview :: "bytes \<Rightarrow> nat \<Rightarrow> string" where
  "hex_preview b n =
     (if b = [] then []
      else if n < length b then hex_bytes (take n b) @ ellipsis
      else hex_bytes b)"

definition mac_string :: "bytes \<Rightarrow> string" where
  "mac_string b =
     (if length b < 6 then ''??:??:??:??:??:??''
      else join '':'' (map (\<lambda>x. hexw 2 (unat x)) (take 6 b)))"

definition ip_string :: "bytes \<Rightarrow> string" where
  "ip_string b = ip_to_string b"

section \<open>Hex dump\<close>

definition hex_line :: "nat \<Rightarrow> bytes \<Rightarrow> string" where
  "hex_line off chunk =
     hexw 4 off @ ''  ''
     @ concat (map (\<lambda>j. (if j = 8 then '' '' else [])
          @ (if j < length chunk then hexw 2 (unat (chunk ! j)) @ '' '' else ''   '')) [0..<16])
     @ '' |''
     @ map (\<lambda>c. if 32 \<le> unat c \<and> unat c < 127 then byte_char c else CHR ''.'') chunk
     @ ''|\<newline>''"

function hex_dump :: "bytes \<Rightarrow> nat \<Rightarrow> string" where
  "hex_dump data off =
     (if data = [] then []
      else hex_line off (take 16 data) @ hex_dump (drop 16 data) (off + 16))"
  by pat_completeness auto
termination
  by (relation "measure (\<lambda>(data, off). length data)") auto

declare hex_dump.simps [simp del]

section \<open>Summary fields and the flow key\<close>

definition top_protocol :: "frame \<Rightarrow> string" where
  "top_protocol f = (if f_layers f = [] then ''Unknown'' else l_name (last (f_layers f)))"

definition build_info :: "frame \<Rightarrow> string" where
  "build_info f =
     (let parts = filter (\<lambda>s. s \<noteq> []) (map l_summary (f_layers f)) in
      if parts = [] then f_protocol f else last parts)"

definition flow_key :: "frame \<Rightarrow> string" where
  "flow_key f =
     (let sport = gget (f_meta f) ''sport'';
          dport = gget (f_meta f) ''dport'';
          proto = gget (f_meta f) ''ip_proto'';
          proto = (if proto = [] then f_protocol f else proto);
          (a, b, as, bs) =
            (if f_src f > f_dst f \<or> (f_src f = f_dst f \<and> sport > dport)
             then (f_dst f, f_src f, dport, sport)
             else (f_src f, f_dst f, sport, dport))
      in proto @ ''|'' @ a @ '':'' @ as @ ''-'' @ b @ '':'' @ bs)"

section \<open>Layers tile the packet\<close>

text \<open>\<open>tiles a ls b\<close>: the layers \<open>ls\<close> are named and cover the bytes from \<open>a\<close> to \<open>b\<close>, in
  order, each starting where the one before it ended.\<close>

fun tiles :: "nat \<Rightarrow> layer list \<Rightarrow> nat \<Rightarrow> bool" where
  "tiles a [] b = (a = b)"
| "tiles a (l # ls) b = (l_name l \<noteq> [] \<and> l_offset l = a \<and> tiles (a + l_length l) ls b)"

definition layers_ok :: "nat \<Rightarrow> frame \<Rightarrow> bool" where
  "layers_ok n f = (\<exists>e \<le> n. tiles 0 (f_layers f) e)"

text \<open>\<open>dissected n P x\<close>: the dissector \<open>x\<close> returned a frame whose layers tile a prefix of
  the \<open>n\<close> bytes and an offset inside the packet, or it panicked and \<open>P\<close> holds.\<close>

definition dissected :: "nat \<Rightarrow> bool \<Rightarrow> (frame \<times> nat) option \<Rightarrow> bool" where
  "dissected n P x =
     (case x of None \<Rightarrow> P | Some (f, off) \<Rightarrow> layers_ok n f \<and> off \<le> n)"

lemma tiles_append: "tiles a (xs @ ys) b \<longleftrightarrow> (\<exists>m. tiles a xs m \<and> tiles m ys b)"
  by (induction xs arbitrary: a) auto

lemma tiles_le: "tiles a ls b \<Longrightarrow> a \<le> b"
  by (induction ls arbitrary: a) fastforce+

lemma tiles_bound: "tiles a ls b \<Longrightarrow> l \<in> set ls \<Longrightarrow> l_offset l + l_length l \<le> b"
  by (induction ls arbitrary: a) (auto dest: tiles_le)

lemma tiles_named: "tiles a ls b \<Longrightarrow> l \<in> set ls \<Longrightarrow> l_name l \<noteq> []"
  by (induction ls arbitrary: a) auto

lemma tiles_sorted: "tiles a ls b \<Longrightarrow> sorted_wrt (\<lambda>x y. l_offset x + l_length x \<le> l_offset y) ls"
proof (induction ls arbitrary: a)
  case (Cons l ls)
  have lb: "tiles c xs d \<Longrightarrow> x \<in> set xs \<Longrightarrow> c \<le> l_offset x" for c xs d x
    by (induction xs arbitrary: c) fastforce+
  from Cons show ?case by (auto dest: lb)
qed simp

lemma tiles_add_layer:
  "tiles 0 (f_layers f) off \<Longrightarrow> nm \<noteq> [] \<Longrightarrow>
   tiles 0 (f_layers (add_layer nm sm fs off len c f)) (off + len)"
  by (auto simp: add_layer_def tiles_append)

lemma layers_ok_add:
  "tiles 0 (f_layers f) off \<Longrightarrow> nm \<noteq> [] \<Longrightarrow> off + len \<le> n \<Longrightarrow>
   layers_ok n (add_layer nm sm fs off len c f)"
  using tiles_add_layer [of f off nm sm fs len c] unfolding layers_ok_def by blast

lemma layers_ok_tiles: "tiles 0 (f_layers f) off \<Longrightarrow> off \<le> n \<Longrightarrow> layers_ok n f"
  unfolding layers_ok_def by blast

lemma layers_ok_cong: "f_layers g = f_layers f \<Longrightarrow> layers_ok n g = layers_ok n f"
  by (simp add: layers_ok_def)

text \<open>Updates of the other fields of a frame do not touch its layers.\<close>

lemma layers_ok_upd [simp]:
  "layers_ok n (f\<lparr>f_protocol := x\<rparr>) = layers_ok n f"
  "layers_ok n (f\<lparr>f_info := x\<rparr>) = layers_ok n f"
  "layers_ok n (f\<lparr>f_tags := ts\<rparr>) = layers_ok n f"
  "layers_ok n (f\<lparr>f_severity := x\<rparr>) = layers_ok n f"
  "layers_ok n (f\<lparr>f_meta := m\<rparr>) = layers_ok n f"
  by (simp_all add: layers_ok_def)

lemma add_layer_frame [simp]:
  "f_meta (add_layer nm sm fs off len c f) = f_meta f"
  "f_src (add_layer nm sm fs off len c f) = f_src f"
  "f_dst (add_layer nm sm fs off len c f) = f_dst f"
  "f_protocol (add_layer nm sm fs off len c f) = f_protocol f"
  "f_info (add_layer nm sm fs off len c f) = f_info f"
  "f_tags (add_layer nm sm fs off len c f) = f_tags f"
  "f_severity (add_layer nm sm fs off len c f) = f_severity f"
  by (simp_all add: add_layer_def)

lemma set_endpoints_frame [simp]:
  "f_layers (set_endpoints s d f) = f_layers f"
  "f_meta (set_endpoints s d f) = f_meta f"
  "f_src (set_endpoints s d f) = s"
  "f_dst (set_endpoints s d f) = d"
  "f_protocol (set_endpoints s d f) = f_protocol f"
  by (simp_all add: set_endpoints_def)

text \<open>The forms in which the dissectors end.\<close>

lemma dissected_Some [simp]:
  "dissected n P (Some (f, off)) \<longleftrightarrow> layers_ok n f \<and> off \<le> n"
  by (simp add: dissected_def)

lemma dissected_mono: "dissected n False x \<Longrightarrow> dissected n P x"
  by (auto simp: dissected_def split: option.splits)

lemma dissected_bind:
  "(x = None \<Longrightarrow> P) \<Longrightarrow> (\<And>y. x = Some y \<Longrightarrow> dissected n P (g y)) \<Longrightarrow> dissected n P (x \<bind> g)"
  by (cases x) (simp_all add: dissected_def)

lemma dissected_None: "dissected n P x \<Longrightarrow> x = None \<Longrightarrow> P"
  by (simp add: dissected_def)

section \<open>Facts about the readers\<close>

lemma length_safe_slice: "length (safe_slice b s e) = min e (length b) - s"
  by (auto simp: safe_slice_def Let_def)

lemma safe_slice_to_end: "safe_slice b s (length b) = drop s b"
  by (auto simp: safe_slice_def Let_def)

lemma u16_append: "u16 (a @ b) (length a + i) = u16 b i"
  by (simp add: u16_def nth_append)

lemma u16_put: "i = length a \<Longrightarrow> u16 (a @ put_be16 w @ b) i = w"
  using be16_put [of w] by (simp add: u16_def nth_append)

lemma u32_put: "i = length a \<Longrightarrow> u32 (a @ put_be32 w @ b) i = w"
  using be32_put [of w] by (simp add: u32_def nth_append)

text \<open>The flow key is the same for both directions of a conversation.\<close>

lemma flow_key_swap:
  assumes "f_src g = f_dst f" "f_dst g = f_src f"
    and "gget (f_meta g) ''sport'' = gget (f_meta f) ''dport''"
    and "gget (f_meta g) ''dport'' = gget (f_meta f) ''sport''"
    and "gget (f_meta g) ''ip_proto'' = gget (f_meta f) ''ip_proto''"
    and "f_protocol g = f_protocol f"
  shows "flow_key g = flow_key f"
  using assms by (auto simp: flow_key_def Let_def)

lemma flow_key_not_Nil [simp]: "flow_key f \<noteq> []"
  by (auto simp: flow_key_def Let_def split: prod.split)

end
