(* ===== verification/Dns.thy ===== *)
theory Dns
  imports Frame
begin

text \<open>
  \<open>internal/decode/dns.go\<close>: the DNS, DHCP and QUIC dissectors. Loops with a counter
  (questions, answers, the 64 steps of the name reader) recurse on what is left of the
  counter, so a compression-pointer loop stops after 64 steps as in the code. The lemmas: no
  index or slice leaves the message, every reader returns a position inside it, and the
  length of a name is bounded.
\<close>

section \<open>Names\<close>

text \<open>\<open>rdn data k pos start jumped parts\<close>: the loop of \<open>readDNSName\<close> with \<open>k\<close> of its 64
  iterations left; it returns the parts, the position, the saved start and the jump flag.\<close>

fun rdn :: "bytes \<Rightarrow> nat \<Rightarrow> nat \<Rightarrow> nat \<Rightarrow> bool \<Rightarrow> string list
    \<Rightarrow> (string list \<times> nat \<times> nat \<times> bool) option" where
  "rdn data 0 pos start jumped parts = Some (parts, pos, start, jumped)"
| "rdn data (Suc k) pos start jumped parts =
     (if length data \<le> pos then Some (parts, pos, start, jumped)
      else do {
        b \<leftarrow> idx data pos;
        let l = unat b;
        if l = 0 then Some (parts, pos + 1, start, jumped)
        else if b AND 0xC0 = 0xC0 then
          (if length data \<le> pos + 1 then Some (parts, pos, start, jumped)
           else rdn data k (unat (u16 data pos AND 0x3FFF))
                  (if jumped then start else pos + 2) True parts)
        else if length data < pos + 1 + l then Some (parts, pos + 1, start, jumped)
        else do {
          lab \<leftarrow> slice data (pos + 1) (pos + 1 + l);
          rdn data k (pos + 1 + l) start jumped (parts @ [str lab])
        }
      })"

definition read_dns_name :: "bytes \<Rightarrow> nat \<Rightarrow> (string \<times> nat) option" where
  "read_dns_name data pos = do {
     (parts, p, start, jumped) \<leftarrow> rdn data 64 pos pos False [];
     Some (join ''.'' parts, if jumped then start else p)
   }"

section \<open>Types, codes and record data\<close>

definition dns_types :: "(u16 \<times> string) list" where
  "dns_types =
     [(1, ''A''), (2, ''NS''), (5, ''CNAME''), (6, ''SOA''), (12, ''PTR''), (15, ''MX''),
      (16, ''TXT''), (28, ''AAAA''), (33, ''SRV''), (41, ''OPT''), (43, ''DS''),
      (46, ''RRSIG''), (47, ''NSEC''), (48, ''DNSKEY''), (255, ''ANY''), (65, ''HTTPS''),
      (64, ''SVCB'')]"

definition dns_type_name :: "u16 \<Rightarrow> string" where
  "dns_type_name t =
     (case map_of dns_types t of Some s \<Rightarrow> s | None \<Rightarrow> ''TYPE'' @ dec (unat t))"

definition dns_rcode :: "u16 \<Rightarrow> string" where
  "dns_rcode c =
     (let m = [''NOERROR'', ''FORMERR'', ''SERVFAIL'', ''NXDOMAIN'', ''NOTIMP'', ''REFUSED''] in
      if unat c < length m then m ! unat c else ''RCODE'' @ dec (unat c))"

definition format_dns_rdata :: "bytes \<Rightarrow> nat \<Rightarrow> u16 \<Rightarrow> nat \<Rightarrow> string option" where
  "format_dns_rdata data pos atype rdlen =
     (if atype = 1 \<and> rdlen = 4 then do { b \<leftarrow> slice data pos (pos + 4); Some (ip_string b) }
      else if atype = 28 \<and> rdlen = 16 then do { b \<leftarrow> slice data pos (pos + 16); Some (ip_string b) }
      else if atype = 5 \<or> atype = 2 \<or> atype = 12 then do {
        (n, _) \<leftarrow> read_dns_name data pos;
        Some n
      }
      else if atype = 16 \<and> 0 < rdlen then do {
        b \<leftarrow> idx data pos;
        let l = (if rdlen - 1 < unat b then rdlen - 1 else unat b);
        t \<leftarrow> slice data (pos + 1) (pos + 1 + l);
        Some (str t)
      }
      else if atype = 15 \<and> 3 \<le> rdlen then do {
        let pref = u16 data pos;
        (n, _) \<leftarrow> read_dns_name data (pos + 2);
        Some (dec (unat pref) @ '' '' @ n)
      }
      else do {
        b \<leftarrow> slice data pos (pos + rdlen);
        Some (hex_preview b 16)
      })"

section \<open>The DNS dissector\<close>

fun dns_questions :: "bytes \<Rightarrow> nat \<Rightarrow> nat \<Rightarrow> string list \<Rightarrow> frame
    \<Rightarrow> (nat \<times> string list \<times> frame) option" where
  "dns_questions data 0 pos queries f = Some (pos, queries, f)"
| "dns_questions data (Suc n) pos queries f =
     (if length data \<le> pos then Some (pos, queries, f)
      else do {
        (qname, npos) \<leftarrow> read_dns_name data pos;
        if length data < npos + 4 then Some (pos, queries, f)
        else do {
          let qtype = u16 data npos;
          dns_questions data n (npos + 4) (queries @ [dns_type_name qtype @ '' '' @ qname])
            (meta_set ''dns_qtype'' (dns_type_name qtype) (meta_set ''dns_qry'' qname f))
        }
      })"

text \<open>\<open>n\<close> answers are left; \<open>i\<close> is the loop variable.\<close>

fun dns_answers :: "bytes \<Rightarrow> nat \<Rightarrow> nat \<Rightarrow> nat \<Rightarrow> string list \<Rightarrow> frame
    \<Rightarrow> (nat \<times> string list \<times> frame) option" where
  "dns_answers data 0 i pos answers f = Some (pos, answers, f)"
| "dns_answers data (Suc n) i pos answers f =
     (if length data \<le> pos then Some (pos, answers, f)
      else do {
        (aname, npos) \<leftarrow> read_dns_name data pos;
        if length data < npos + 10 then Some (pos, answers, f)
        else do {
          let atype = u16 data npos;
          let ttl = u32 data (npos + 4);
          let rdlen = unat (u16 data (npos + 8));
          let npos = npos + 10;
          if length data < npos + rdlen then Some (pos, answers, f)
          else do {
            rdata \<leftarrow> format_dns_rdata data npos atype rdlen;
            dns_answers data n (i + 1) (npos + rdlen)
              (answers @ [dns_type_name atype @ '' '' @ aname @ '' '' @ rdata
                          @ '' ttl='' @ dec (unat ttl)])
              (if i = 0 then meta_set ''dns_ans'' rdata f else f)
          }
        }
      })"

definition dissect_dns :: "frame \<Rightarrow> bytes \<Rightarrow> nat \<Rightarrow> bool \<Rightarrow> (frame \<times> nat) option" where
  "dissect_dns f data offset mdns =
     (if length data < 12 then Some (f, offset)
      else do {
        let ident = u16 data 0;
        let flags = u16 data 2;
        let qd = u16 data 4;
        let an = u16 data 6;
        let ns = u16 data 8;
        let ar = u16 data 10;
        let qr = drop_bit 15 flags AND 1;
        let rcode = flags AND 0xF;
        let name = (if mdns then ''mDNS'' else ''DNS'');
        (pos, queries, f) \<leftarrow> dns_questions data (unat qd) 12 [] f;
        (pos, answers, f) \<leftarrow> dns_answers data (unat an) 0 pos [] f;
        let dir = (if qr = 1 then ''response'' else ''query'');
        let summary = dir;
        let summary = (if queries \<noteq> [] then dir @ '' '' @ join '', '' queries else summary);
        let summary = (if answers \<noteq> [] then summary @ '' '' @ arrow @ '' '' @ join ''; '' answers
                       else summary);
        let bad = (rcode \<noteq> 0 \<and> qr = 1);
        let summary = (if bad then summary @ '' ['' @ dns_rcode rcode @ '']'' else summary);
        let f = (if bad then f\<lparr>f_severity := ''warn''\<rparr> else f);
        let f = add_layer name summary
          [(''id'', ''0x'' @ hexw 4 (unat ident)), (''qr'', dir), (''rcode'', dns_rcode rcode),
           (''questions'', dec (unat qd)), (''answers'', dec (unat an)),
           (''authority'', dec (unat ns)), (''additional'', dec (unat ar)),
           (''queries'', join ''; '' queries), (''answers_detail'', join ''; '' answers)]
          offset (length data) ''#f472b6'' f;
        Some (add_tags [''name-resolution''] (f\<lparr>f_protocol := name, f_info := summary\<rparr>),
              offset + length data)
      })"

section \<open>DHCP\<close>

definition dhcp_types :: "(byte \<times> string) list" where
  "dhcp_types = [(1, ''Discover''), (2, ''Offer''), (3, ''Request''), (5, ''ACK''),
     (6, ''NAK''), (7, ''Release'')]"

function dhcp_options :: "bytes \<Rightarrow> nat \<Rightarrow> string \<Rightarrow> string option" where
  "dhcp_options data i msg =
     (if length data \<le> i then Some msg
      else do {
        code \<leftarrow> idx data i;
        if code = 255 then Some msg
        else if code = 0 then dhcp_options data (i + 1) msg
        else if length data \<le> i + 1 then Some msg
        else do {
          lb \<leftarrow> idx data (i + 1);
          let l = unat lb;
          if length data < i + 2 + l then Some msg
          else do {
            msg \<leftarrow> (if code = 53 \<and> l = 1 then do {
                       t \<leftarrow> idx data (i + 2);
                       Some (case map_of dhcp_types t of
                               Some s \<Rightarrow> s
                             | None \<Rightarrow> ''type-'' @ dec (unat t))
                     }
                     else Some msg);
            dhcp_options data (i + 2 + l) msg
          }
        }
      })"
  by pat_completeness auto
termination
  by (relation "measure (\<lambda>(data, i, msg). length data - i)") auto

declare dhcp_options.simps [simp del]

definition dissect_dhcp :: "frame \<Rightarrow> bytes \<Rightarrow> nat \<Rightarrow> (frame \<times> nat) option" where
  "dissect_dhcp f data offset =
     (if length data < 240 then
        Some ((add_layer ''DHCP'' (dec (length data) @ '' bytes'') [] offset (length data)
                 ''#fbbf24'' f)\<lparr>f_protocol := ''DHCP''\<rparr>, offset + length data)
      else do {
        opcode \<leftarrow> idx data 0;
        let xid = u32 data 4;
        ci \<leftarrow> slice data 12 16;
        yi \<leftarrow> slice data 16 20;
        ch \<leftarrow> slice data 28 34;
        let ciaddr = ip_string ci;
        let yiaddr = ip_string yi;
        let chaddr = mac_string ch;
        msg_type \<leftarrow> (if 240 < length data \<and> u32 data 236 = 0x63825363
                     then dhcp_options data 240 ''unknown''
                     else Some ''unknown'');
        let op_name = (if opcode = 2 then ''Boot Reply'' else ''Boot Request'');
        let summary = op_name @ '' '' @ msg_type @ '' yiaddr='' @ yiaddr @ '' chaddr='' @ chaddr;
        let f = add_layer ''DHCP'' summary
          [(''op'', op_name), (''xid'', ''0x'' @ hexw 8 (unat xid)), (''ciaddr'', ciaddr),
           (''yiaddr'', yiaddr), (''chaddr'', chaddr), (''message'', msg_type)]
          offset (length data) ''#fbbf24'' f;
        Some (f\<lparr>f_protocol := ''DHCP'', f_info := summary\<rparr>, offset + length data)
      })"

section \<open>QUIC\<close>

definition dissect_quic :: "frame \<Rightarrow> bytes \<Rightarrow> nat \<Rightarrow> (frame \<times> nat) option" where
  "dissect_quic f data offset = do {
     flags \<leftarrow> idx data 0;
     let long = (flags AND 0x80 \<noteq> 0);
     let ver = u32 data 1;
     let fs = [(''flags'', ''0x'' @ hexw 2 (unat flags))];
     let (fs, summary) =
       (if long \<and> 5 \<le> length data
        then (fset ''version'' (''0x'' @ hexw 8 (unat ver)) fs,
              if ver = 0 then ''QUIC Version Negotiation''
              else ''QUIC long header ver=0x'' @ hexw 8 (unat ver))
        else (fs, ''QUIC short header''));
     let f = add_layer ''QUIC'' summary fs offset (length data) ''#818cf8'' f;
     Some (add_tags [''encrypted'', ''http3''] (f\<lparr>f_protocol := ''QUIC'', f_info := summary\<rparr>),
           offset + length data)
   }"

section \<open>The name reader\<close>

text \<open>What the reader returns: a position inside the message (the saved one after a jump), at
  or after where it started, and at most \<open>k\<close> more labels, each below 192 bytes.\<close>

definition name_result :: "bytes \<Rightarrow> nat \<Rightarrow> nat \<Rightarrow> nat \<Rightarrow> bool \<Rightarrow> string list
    \<Rightarrow> (string list \<times> nat \<times> nat \<times> bool) option \<Rightarrow> bool" where
  "name_result data k pos start jumped parts r =
     (case r of None \<Rightarrow> False
      | Some (ps, p, s, j) \<Rightarrow>
          (let fp = (if j then s else p) in
           fp \<le> length data \<and> (jumped \<longrightarrow> j \<and> s = start) \<and> (\<not> jumped \<longrightarrow> pos \<le> fp) \<and>
           length ps \<le> length parts + k \<and>
           (list_all (\<lambda>x. length x < 192) parts \<longrightarrow> list_all (\<lambda>x. length x < 192) ps)))"

lemma name_result_jump:
  "name_result data k p' (if jumped then start else pos + 2) True parts r \<Longrightarrow>
   (\<not> jumped \<longrightarrow> pos + 2 \<le> length data) \<Longrightarrow> name_result data (Suc k) pos start jumped parts r"
  by (cases r; cases jumped) (auto simp: name_result_def Let_def split: prod.splits if_splits)

lemma name_result_label:
  "name_result data k (pos + 1 + l) start jumped (parts @ [x]) r \<Longrightarrow> length x < 192 \<Longrightarrow>
   name_result data (Suc k) pos start jumped parts r"
  by (cases r; cases jumped) (auto simp: name_result_def Let_def split: prod.splits if_splits)

lemma rdn_result:
  assumes "jumped \<longrightarrow> start \<le> length data" and "\<not> jumped \<longrightarrow> pos \<le> length data"
  shows "name_result data k pos start jumped parts (rdn data k pos start jumped parts)"
  using assms
proof (induction data k pos start jumped parts rule: rdn.induct)
  case (1 data pos start jumped parts)
  then show ?case by (auto simp: name_result_def Let_def)
next
  case (2 data k pos start jumped parts)
  show ?case
  proof (cases "pos < length data")
    case False
    with "2.prems" show ?thesis by (auto simp: name_result_def Let_def)
  next
    case True
    let ?b = "data ! pos"
    let ?l = "unat ?b"
    have b: "idx data pos = Some ?b" using True by (simp add: idx_def)
    consider (stop) "?l = 0 \<or> (?b AND 0xC0 = 0xC0 \<and> length data \<le> pos + 1)
          \<or> (?b AND 0xC0 \<noteq> 0xC0 \<and> length data < pos + 1 + ?l)"
      | (ptr) "?l \<noteq> 0" "?b AND 0xC0 = 0xC0" "pos + 1 < length data"
      | (lab) "?l \<noteq> 0" "?b AND 0xC0 \<noteq> 0xC0" "pos + 1 + ?l \<le> length data" by linarith
    then show ?thesis
    proof cases
      case stop
      with True b "2.prems" show ?thesis by (auto simp: name_result_def Let_def)
    next
      case ptr
      have "name_result data k (unat (u16 data pos AND 0x3FFF))
          (if jumped then start else pos + 2) True parts
          (rdn data k (unat (u16 data pos AND 0x3FFF)) (if jumped then start else pos + 2) True parts)"
        using "2.IH"(1) [of ?b ?l] True b ptr "2.prems" by auto
      then have "name_result data (Suc k) pos start jumped parts
          (rdn data k (unat (u16 data pos AND 0x3FFF)) (if jumped then start else pos + 2) True parts)"
        by (rule name_result_jump) (use ptr in simp)
      with True b ptr show ?thesis by (simp add: Let_def)
    next
      case lab
      let ?x = "take ?l (drop (pos + 1) data)"
      have l192: "?l < 192" using lab by (simp add: byte_c0 not_le)
      have sl: "slice data (pos + 1) (pos + 1 + ?l) = Some ?x"
        using lab by (simp add: slice_def)
      have "name_result data k (pos + 1 + ?l) start jumped (parts @ [str ?x])
          (rdn data k (pos + 1 + ?l) start jumped (parts @ [str ?x]))"
        using "2.IH"(2) [of ?b ?l ?x] True b lab sl "2.prems" by auto
      then have "name_result data (Suc k) pos start jumped parts
          (rdn data k (pos + 1 + ?l) start jumped (parts @ [str ?x]))"
        by (rule name_result_label) (use l192 lab in simp)
      with True b lab sl show ?thesis by (simp add: Let_def)
    qed
  qed
qed

lemma length_join_le:
  "\<forall>x \<in> set xs. length x \<le> m \<Longrightarrow> length sep = 1 \<Longrightarrow> length (join sep xs) \<le> (m + 1) * length xs"
proof (induction xs)
  case (Cons x xs)
  then show ?case by (cases "xs = []") (auto simp: join_Cons)
qed simp

lemma read_dns_name_result:
  assumes "pos \<le> length data"
  shows "\<exists>nm p. read_dns_name data pos = Some (nm, p) \<and> pos \<le> p \<and> p \<le> length data
     \<and> length nm \<le> 12288"
proof -
  have "name_result data 64 pos pos False [] (rdn data 64 pos pos False [])"
    by (rule rdn_result) (use assms in auto)
  then obtain ps p s j where
    r: "rdn data 64 pos pos False [] = Some (ps, p, s, j)"
    and b: "(if j then s else p) \<le> length data"
    and g: "pos \<le> (if j then s else p)"
    and n: "length ps \<le> 64" and l: "\<forall>x \<in> set ps. length x < 192"
    by (auto simp: name_result_def list_all_iff Let_def split: option.splits)
  have "length (join ''.'' ps) \<le> (191 + 1) * length ps"
    by (rule length_join_le) (use l in fastforce, simp)
  also have "\<dots> \<le> 12288" using n by simp
  finally show ?thesis using r b g by (auto simp: read_dns_name_def split: if_splits)
qed

text \<open>A name may start anywhere, also past the end, where it is empty.\<close>

lemma read_dns_name_total: "\<exists>nm p. read_dns_name data pos = Some (nm, p)"
proof (cases "pos \<le> length data")
  case True
  then show ?thesis using read_dns_name_result by blast
next
  case False
  then show ?thesis by (simp add: read_dns_name_def numeral_eq_Suc)
qed

section \<open>No dissector of this theory panics\<close>

lemma format_dns_rdata_total:
  assumes "pos + rdlen \<le> length data"
  shows "\<exists>s. format_dns_rdata data pos t rdlen = Some s"
proof -
  obtain n1 p1 where 1: "read_dns_name data pos = Some (n1, p1)"
    using read_dns_name_total by blast
  obtain n2 p2 where 2: "read_dns_name data (pos + 2) = Some (n2, p2)"
    using read_dns_name_total by blast
  from assms 1 2 show ?thesis
    by (auto simp: format_dns_rdata_def slice_def idx_def Let_def)
qed

lemma dns_questions_total:
  "pos \<le> length data \<Longrightarrow>
   \<exists>p qs g. dns_questions data n pos queries f = Some (p, qs, g) \<and> p \<le> length data
      \<and> f_layers g = f_layers f"
proof (induction data n pos queries f rule: dns_questions.induct)
  case (2 data n pos queries f)
  obtain nm p where r: "read_dns_name data pos = Some (nm, p)" and "p \<le> length data"
    using read_dns_name_result "2.prems" by blast
  show ?case
  proof (cases "length data \<le> pos \<or> length data < p + 4")
    case True
    with r "2.prems" show ?thesis by auto
  next
    case False
    with r "2.IH" [of "(nm, p)" nm p] show ?thesis by (simp add: Let_def)
  qed
qed simp

lemma dns_answers_total:
  "pos \<le> length data \<Longrightarrow>
   \<exists>p ans g. dns_answers data n i pos answers f = Some (p, ans, g) \<and> p \<le> length data
      \<and> f_layers g = f_layers f"
proof (induction data n i pos answers f rule: dns_answers.induct)
  case (2 data n i pos answers f)
  obtain nm p where r: "read_dns_name data pos = Some (nm, p)" and "p \<le> length data"
    using read_dns_name_result "2.prems" by blast
  let ?rd = "unat (u16 data (p + 8))"
  show ?case
  proof (cases "length data \<le> pos \<or> length data < p + 10 + ?rd")
    case True
    with r "2.prems" show ?thesis by (auto simp: Let_def)
  next
    case False
    then obtain s where s: "format_dns_rdata data (p + 10) (u16 data p) ?rd = Some s"
      using format_dns_rdata_total [of "p + 10" ?rd data] by auto
    have "p + 10 + ?rd \<le> length data" using False by simp
    then have "\<exists>q ans g. dns_answers data n (i + 1) (p + 10 + ?rd)
        (answers @ [dns_type_name (u16 data p) @ '' '' @ nm @ '' '' @ s @ '' ttl=''
                    @ dec (unat (u32 data (p + 4)))])
        (if i = 0 then meta_set ''dns_ans'' s f else f) = Some (q, ans, g) \<and> q \<le> length data
        \<and> f_layers g = f_layers (if i = 0 then meta_set ''dns_ans'' s f else f)"
      using "2.IH" [of "(nm, p)" nm p "u16 data p" "u32 data (p + 4)" ?rd "p + 10" s] False r s
      by simp
    with False r s show ?thesis by (auto simp: Let_def split: if_splits)
  qed
qed simp

lemma dissect_dns_safe:
  assumes "tiles 0 (f_layers f) off" "off + length data \<le> n"
  shows "dissected n False (dissect_dns f data off mdns)"
proof (cases "length data < 12")
  case True
  with assms show ?thesis by (auto simp: dissect_dns_def intro: layers_ok_tiles)
next
  case False
  then obtain p qs g where q: "dns_questions data (unat (u16 data 4)) 12 [] f = Some (p, qs, g)"
    and p: "p \<le> length data" and g: "f_layers g = f_layers f"
    using dns_questions_total [of 12 data "unat (u16 data 4)" "[]" f] by auto
  obtain p' ans h where a: "dns_answers data (unat (u16 data 6)) 0 p [] g = Some (p', ans, h)"
    and h: "f_layers h = f_layers g"
    using dns_answers_total [OF p, of "unat (u16 data 6)" 0 "[]" g] by auto
  from assms g h have t: "tiles 0 (f_layers h) off" by simp
  have "tiles 0 (f_layers (if c then h\<lparr>f_severity := x\<rparr> else h)) off" for c x
    using t by simp
  then show ?thesis using False q a assms(2)
    by (cases mdns) (simp_all add: dissect_dns_def Let_def layers_ok_add split del: if_split)
qed

lemma dhcp_options_total: "\<exists>s. dhcp_options data i msg = Some s"
proof (induction data i msg rule: dhcp_options.induct)
  case (1 data i msg)
  show ?case
  proof (cases "i < length data")
    case False
    then show ?thesis by (simp add: dhcp_options.simps)
  next
    case True
    then have b: "idx data i = Some (data ! i)" by (simp add: idx_def)
    show ?thesis
    proof (cases "data ! i = 255 \<or> data ! i = 0")
      case True
      with b "1.IH"(1) [of "data ! i"] \<open>i < length data\<close> show ?thesis
        by (subst dhcp_options.simps) auto
    next
      case False
      show ?thesis
      proof (cases "i + 1 < length data \<and> i + 2 + unat (data ! (i + 1)) \<le> length data")
        case True
        then have b1: "idx data (i + 1) = Some (data ! (i + 1))" by (simp add: idx_def)
        let ?l = "unat (data ! (i + 1))"
        have "\<exists>m. (if data ! i = 53 \<and> ?l = 1 then do {
                 t \<leftarrow> idx data (i + 2);
                 Some (case map_of dhcp_types t of Some s \<Rightarrow> s | None \<Rightarrow> ''type-'' @ dec (unat t))
               } else Some msg) = Some m"
          using True by (auto simp: idx_def)
        then obtain m where m: "(if data ! i = 53 \<and> ?l = 1 then do {
                 t \<leftarrow> idx data (i + 2);
                 Some (case map_of dhcp_types t of Some s \<Rightarrow> s | None \<Rightarrow> ''type-'' @ dec (unat t))
               } else Some msg) = Some m" ..
        with True False b b1 "1.IH"(2) [of "data ! i" "data ! (i + 1)" ?l m] \<open>i < length data\<close>
        show ?thesis by (subst dhcp_options.simps) (simp add: Let_def)
      next
        case out: False
        with False b \<open>i < length data\<close> show ?thesis
          by (subst dhcp_options.simps) (auto simp: idx_def Let_def)
      qed
    qed
  qed
qed

lemma dissect_dhcp_safe:
  assumes "tiles 0 (f_layers f) off" "off + length data \<le> n"
  shows "dissected n False (dissect_dhcp f data off)"
proof -
  obtain m where m: "dhcp_options data 240 ''unknown'' = Some m"
    using dhcp_options_total by blast
  from assms m show ?thesis
    by (auto simp: dissect_dhcp_def Let_def idx_def slice_def add_layer_def layers_ok_def tiles_append)
qed

lemma dissect_quic_safe:
  assumes "tiles 0 (f_layers f) off" "off + length data \<le> n" "data \<noteq> []"
  shows "dissected n False (dissect_quic f data off)"
  using assms
  by (auto simp: dissect_quic_def Let_def idx_def add_layer_def layers_ok_def tiles_append
      split: if_splits)

section \<open>Properties\<close>

text \<open>C35: the name reader never panics on any message, wherever it is started; compression
  pointers cannot make it loop. Started inside the message it stops inside it, not before where
  it started, with a name of at most 12288 bytes.\<close>

theorem read_dns_name_safe:
  "\<exists>name npos. read_dns_name data pos = Some (name, npos) \<and>
     (if pos \<le> length data then pos \<le> npos \<and> npos \<le> length data \<and> length name \<le> 12288
      else npos = pos)"
proof (cases "pos \<le> length data")
  case True
  with read_dns_name_result show ?thesis by auto
next
  case False
  then show ?thesis by (simp add: read_dns_name_def numeral_eq_Suc)
qed

end
