(* ===== verification/Http.thy ===== *)
theory Http
  imports Frame
begin

text \<open>
  \<open>internal/decode/http.go\<close>: the HTTP/1 dissector (start line, headers, body length) and
  the HTTP/2 frame walker with its SETTINGS parser. The header loop is a fold over the lines;
  the frame loop recurses on the number of frames it may still append (16 at most). The
  lemmas: no index leaves the payload and the layer covers the whole payload.
\<close>

section \<open>HTTP/1\<close>

definition crlf :: string where
  "crlf = [CHR 0x0D, CHR 0x0A]"

type_synonym http_state = "fields \<times> string \<times> string \<times> frame"

text \<open>One header line: \<open>(fields, host, contentType, frame)\<close>.\<close>

definition http_header :: "(nat \<Rightarrow> nat) \<Rightarrow> string \<Rightarrow> http_state \<Rightarrow> http_state" where
  "http_header ul line st =
     (case st of (fs, host, ctype, f) \<Rightarrow>
       if line = [] then st
       else case splitn 2 '':'' line of
         [k0, v0] \<Rightarrow>
           (let k = trim_space k0; v = trim_space v0; lk = to_lower ul k;
                fs = fset (''hdr_'' @ lk) v fs in
            if lk = ''host'' then (fs, v, ctype, meta_set ''http_host'' v f)
            else if lk = ''content-type'' then (fs, host, v, f)
            else if lk = ''user-agent'' then (fs, host, ctype, meta_set ''http_ua'' v f)
            else (fs, host, ctype, f))
       | _ \<Rightarrow> st)"

definition http_headers :: "(nat \<Rightarrow> nat) \<Rightarrow> string list \<Rightarrow> http_state \<Rightarrow> http_state" where
  "http_headers ul lines st = fold (http_header ul) lines st"

text \<open>The start line: \<open>(isReq, method, path, status, fields)\<close>.\<close>

definition http_start :: "string \<Rightarrow> bool \<times> string \<times> string \<times> string \<times> fields" where
  "http_start req_line =
     (let fs = [(''start_line'', req_line)]; parts = splitn 3 '' '' req_line in
      if has_prefix req_line ''HTTP/'' then
        (if 2 \<le> length parts then
           let fs = fset ''version'' (parts ! 0) (fset ''status'' (parts ! 1) fs);
               fs = (if 3 \<le> length parts then fset ''reason'' (parts ! 2) fs else fs)
           in (False, [], [], parts ! 1, fs)
         else (False, [], [], [], fs))
      else
        (if 2 \<le> length parts then
           let fs = fset ''path'' (parts ! 1) (fset ''method'' (parts ! 0) fs);
               fs = (if 3 \<le> length parts then fset ''version'' (parts ! 2) fs else fs)
           in (True, parts ! 0, parts ! 1, [], fs)
         else (True, [], [], [], fs)))"

text \<open>Everything before the blank line, and the number of bytes after it.\<close>

definition http_split :: "bytes \<Rightarrow> string \<times> nat" where
  "http_split data =
     (let text = str data in
      case find_sub (crlf @ crlf) text of
        Some e \<Rightarrow> (take e text, length data - (e + 4))
      | None \<Rightarrow> (text, 0))"

definition http_summary :: "bool \<Rightarrow> string \<Rightarrow> string \<Rightarrow> string \<Rightarrow> string \<Rightarrow> string \<Rightarrow> nat \<Rightarrow> string" where
  "http_summary is_req meth path status host ctype body_len =
     (let summary =
        (if is_req then meth @ '' '' @ path @ (if host \<noteq> [] then '' host='' @ host else [])
         else ''HTTP '' @ status @ (if ctype \<noteq> [] then '' '' @ ctype else []))
      in if 0 < body_len then summary @ '' (+'' @ dec body_len @ ''B body)'' else summary)"

definition http_layer ::
  "(nat \<Rightarrow> nat) \<Rightarrow> frame \<Rightarrow> nat \<Rightarrow> nat \<Rightarrow> string \<Rightarrow> string list \<Rightarrow> nat \<Rightarrow> frame" where
  "http_layer ul f offset len req_line header_lines body_len =
     (case http_start req_line of (is_req, meth, path, status, fs) \<Rightarrow>
      case http_headers ul header_lines (fs, [], [], f) of (fs, host, ctype, f) \<Rightarrow>
       let f = (if is_req then meta_set ''http_path'' path (meta_set ''http_method'' meth f)
                else meta_set ''http_status'' status f);
           fs = (if 0 < body_len then fset ''body_len'' (dec body_len) fs else fs);
           summary = http_summary is_req meth path status host ctype body_len;
           f = add_layer ''HTTP'' summary fs offset len ''#38bdf8'' f
       in add_tags [''web''] (f\<lparr>f_protocol := ''HTTP'', f_info := summary\<rparr>))"

definition dissect_http ::
  "(nat \<Rightarrow> nat) \<Rightarrow> frame \<Rightarrow> bytes \<Rightarrow> nat \<Rightarrow> (frame \<times> nat) option" where
  "dissect_http ul f data offset =
     (case http_split data of (header_part, body_len) \<Rightarrow>
       let lines = split crlf header_part in
       if lines = [] then Some (f, offset)
       else Some (http_layer ul f offset (length data) (hd lines) (tl lines) body_len,
                  offset + length data))"

definition http_methods :: "string list" where
  "http_methods = [''GET '', ''POST '', ''PUT '', ''HEAD '', ''DELETE '', ''OPTIONS '',
     ''PATCH '', ''CONNECT '', ''HTTP/1.'']"

definition looks_like_http :: "bytes \<Rightarrow> bool" where
  "looks_like_http b =
     (let s = str b; s = (if 8 < length s then take (min 64 (length s)) s else s) in
      list_ex (has_prefix s) http_methods)"

section \<open>HTTP/2\<close>

definition http2_frame_types :: "(byte \<times> string) list" where
  "http2_frame_types =
     [(0, ''DATA''), (1, ''HEADERS''), (2, ''PRIORITY''), (3, ''RST_STREAM''),
      (4, ''SETTINGS''), (5, ''PUSH_PROMISE''), (6, ''PING''), (7, ''GOAWAY''),
      (8, ''WINDOW_UPDATE''), (9, ''CONTINUATION'')]"

definition http2_setting_ids :: "(u16 \<times> string) list" where
  "http2_setting_ids =
     [(1, ''HEADER_TABLE_SIZE''), (2, ''ENABLE_PUSH''), (3, ''MAX_CONCURRENT_STREAMS''),
      (4, ''INITIAL_WINDOW_SIZE''), (5, ''MAX_FRAME_SIZE''), (6, ''MAX_HEADER_LIST_SIZE'')]"

function http2_settings_loop ::
  "(nat \<Rightarrow> nat) \<Rightarrow> bytes \<Rightarrow> nat \<Rightarrow> nat \<Rightarrow> fields \<Rightarrow> fields" where
  "http2_settings_loop ul data off e fs =
     (if off + 6 \<le> e then
        let ident = u16 data off; val = u32 data (off + 2);
            name = (case map_of http2_setting_ids ident of
                      Some s \<Rightarrow> s | None \<Rightarrow> ''ID_'' @ dec (unat ident))
        in http2_settings_loop ul data (off + 6) e
             (fset (''setting_'' @ to_lower ul name) (dec (unat val)) fs)
      else fs)"
  by pat_completeness auto
termination
  by (relation "measure (\<lambda>(ul, data, off, e, fs). e - off)") auto

declare http2_settings_loop.simps [simp del]

definition parse_http2_settings ::
  "(nat \<Rightarrow> nat) \<Rightarrow> bytes \<Rightarrow> nat \<Rightarrow> nat \<Rightarrow> fields \<Rightarrow> fields" where
  "parse_http2_settings ul data off len fs =
     http2_settings_loop ul data off (min (off + len) (length data)) fs"

definition http2_preface :: bytes where
  "http2_preface = bytes_of (''PRI * HTTP/2.0'' @ crlf @ crlf @ ''SM'' @ crlf @ crlf)"

definition len24 :: "byte \<Rightarrow> byte \<Rightarrow> byte \<Rightarrow> nat" where
  "len24 a b c = unat a * 65536 + unat b * 256 + unat c"

text \<open>The text of one frame and the layer fields after it.\<close>

definition http2_frame :: "(nat \<Rightarrow> nat) \<Rightarrow> bytes \<Rightarrow> nat \<Rightarrow> nat \<Rightarrow> byte \<Rightarrow> byte \<Rightarrow> fields
    \<Rightarrow> string \<times> fields" where
  "http2_frame ul data pos len ftype flags fs =
     (let stream = u32 data (pos + 5) AND 0x7FFFFFFF;
          type_name = (case map_of http2_frame_types ftype of
             Some s \<Rightarrow> s | None \<Rightarrow> ''TYPE_'' @ dec (unat ftype));
          detail = type_name @ '' stream='' @ dec (unat stream) @ '' len='' @ dec len
             @ '' flags=0x'' @ hexw 2 (unat flags);
          detail = (if ftype = 4 then detail @ '' settings='' @ dec (len div 6) else detail);
          fs = (if ftype = 4 then parse_http2_settings ul data (pos + 9) len fs else fs);
          fs = (if ftype = 1 then fset ''headers_stream'' (dec (unat stream)) fs else fs);
          detail = (if ftype = 1 \<and> flags AND 4 \<noteq> 0 then detail @ '' END_HEADERS'' else detail);
          detail = (if ftype = 1 \<and> flags AND 1 \<noteq> 0 then detail @ '' END_STREAM'' else detail);
          detail = (if ftype = 0 \<and> flags AND 1 \<noteq> 0 then detail @ '' END_STREAM'' else detail)
      in (detail, fs))"

text \<open>\<open>k\<close> more frames may be appended.\<close>

fun http2_frames :: "(nat \<Rightarrow> nat) \<Rightarrow> bytes \<Rightarrow> nat \<Rightarrow> nat \<Rightarrow> string list \<Rightarrow> fields
    \<Rightarrow> (string list \<times> fields) option" where
  "http2_frames ul data 0 pos frames fs = Some (frames, fs)"
| "http2_frames ul data (Suc k) pos frames fs =
     (if length data < pos + 9 then Some (frames, fs)
      else do {
        b0 \<leftarrow> idx data pos;
        b1 \<leftarrow> idx data (pos + 1);
        b2 \<leftarrow> idx data (pos + 2);
        ftype \<leftarrow> idx data (pos + 3);
        flags \<leftarrow> idx data (pos + 4);
        let len = len24 b0 b1 b2;
        let (detail, fs) = http2_frame ul data pos len ftype flags fs;
        let nxt = pos + 9 + len;
        if nxt \<le> pos \<or> length data < nxt then Some (frames @ [detail], fs)
        else http2_frames ul data k nxt (frames @ [detail]) fs
      })"

definition dissect_http2 ::
  "(nat \<Rightarrow> nat) \<Rightarrow> frame \<Rightarrow> bytes \<Rightarrow> nat \<Rightarrow> (frame \<times> nat) option" where
  "dissect_http2 ul f data offset = do {
     let pref = has_prefix data http2_preface;
     let frames = (if pref then [''Magic Preface''] else []);
     let fs = (if pref then [(''preface'', ''true'')] else []);
     let pos = (if pref then length http2_preface else 0);
     (frames, fs) \<leftarrow> http2_frames ul data (16 - length frames) pos frames fs;
     let summary = join '' | '' frames;
     let summary = (if summary = [] then ''HTTP/2 '' @ dec (length data) @ '' bytes'' else summary);
     let fs = fset ''frames'' (join ''; '' frames) fs;
     let f = add_layer ''HTTP/2'' summary fs offset (length data) ''#22d3ee'' f;
     Some (meta_set ''http2'' ''1'' (add_tags [''web'', ''h2'']
             (f\<lparr>f_protocol := ''HTTP/2'', f_info := summary\<rparr>)),
           offset + length data)
   }"

definition sport_hint_http2 :: "bytes \<Rightarrow> bool" where
  "sport_hint_http2 b = True"

text \<open>The caller indexes bytes 0 to 3 behind the length test.\<close>

definition looks_like_http2 :: "bytes \<Rightarrow> bool" where
  "looks_like_http2 b =
     (if has_prefix b http2_preface then True
      else if 9 \<le> length b then
        let ftype = b ! 3 in
        if unat ftype \<le> 9 then
          let len = len24 (b ! 0) (b ! 1) (b ! 2) in
          if len < 16384 \<and> 9 + len \<le> length b + 16384 then
            if ftype = 4 \<or> ftype = 1 \<or> ftype = 0 \<or> ftype = 8 then sport_hint_http2 b else False
          else False
        else False
      else False)"

section \<open>No dissector of this theory panics\<close>

lemma http_header_layers: "http_header ul line (fs, h, c, f) = (fs', h', c', f') \<Longrightarrow> f_layers f' = f_layers f"
  by (auto simp: http_header_def Let_def split: if_splits list.splits)

lemma http_headers_layers:
  "http_headers ul lines (fs, h, c, f) = (fs', h', c', f') \<Longrightarrow> f_layers f' = f_layers f"
proof (induction lines arbitrary: fs h c f)
  case (Cons l ls)
  obtain fs1 h1 c1 f1 where 1: "http_header ul l (fs, h, c, f) = (fs1, h1, c1, f1)"
    by (metis prod_cases4)
  with Cons.prems have "http_headers ul ls (fs1, h1, c1, f1) = (fs', h', c', f')"
    by (simp add: http_headers_def)
  from Cons.IH [OF this] http_header_layers [OF 1] show ?case by simp
qed (simp add: http_headers_def)

lemma http_layer_ok:
  assumes "tiles 0 (f_layers f) off" "off + len \<le> n"
  shows "layers_ok n (http_layer ul f off len rl hl bl)"
proof -
  obtain r m p s fs where st: "http_start rl = (r, m, p, s, fs)"
    by (metis prod_cases5)
  obtain fs' h c g where hd: "http_headers ul hl (fs, [], [], f) = (fs', h, c, g)"
    by (metis prod_cases4)
  have "tiles 0 (f_layers g) off" using assms(1) http_headers_layers [OF hd] by simp
  then show ?thesis
    using st hd assms(2) by (cases r) (simp_all add: http_layer_def Let_def layers_ok_add)
qed

lemma dissect_http_safe:
  assumes "tiles 0 (f_layers f) off" "off + length data \<le> n"
  shows "dissected n False (dissect_http ul f data off)"
  using assms by (simp add: dissect_http_def Let_def http_layer_ok split: prod.split)

lemma http2_frames_total: "\<exists>fr fs'. http2_frames ul data k pos frames fs = Some (fr, fs')"
proof (induction ul data k pos frames fs rule: http2_frames.induct)
  case (2 ul data k pos frames fs)
  show ?case
  proof (cases "pos + 9 \<le> length data")
    case True
    then have i: "idx data pos = Some (data ! pos)" "idx data (pos + 1) = Some (data ! (pos + 1))"
      "idx data (pos + 2) = Some (data ! (pos + 2))" "idx data (pos + 3) = Some (data ! (pos + 3))"
      "idx data (pos + 4) = Some (data ! (pos + 4))" by (simp_all add: idx_def)
    obtain d fs' where "http2_frame ul data pos (len24 (data ! pos) (data ! (pos + 1))
        (data ! (pos + 2))) (data ! (pos + 3)) (data ! (pos + 4)) fs = (d, fs')" by force
    with True i "2.IH" show ?thesis by (simp add: Let_def)
  qed simp
qed simp

lemma dissect_http2_safe:
  assumes "tiles 0 (f_layers f) off" "off + length data \<le> n"
  shows "dissected n False (dissect_http2 ul f data off)"
proof -
  let ?pref = "has_prefix data http2_preface"
  let ?fr = "if ?pref then [''Magic Preface''] else []"
  obtain fr fs where "http2_frames ul data (16 - length ?fr)
      (if ?pref then length http2_preface else 0) ?fr
      (if ?pref then [(''preface'', ''true'')] else []) = Some (fr, fs)"
    using http2_frames_total by blast
  with assms show ?thesis
    by (simp add: dissect_http2_def Let_def layers_ok_add split del: if_split)
qed

end
