(* ===== verification/GoMd5.thy ===== *)
theory GoMd5
  imports GoStrings
begin

text \<open>
  \<open>crypto/md5\<close> as \<open>md5hex\<close> of \<open>internal/decode/tls.go\<close> uses it: the digest of RFC 1321 on
  byte lists and its hexadecimal form. The JA3 hash is a digest of 16 bytes, so its text has
  32 characters, which is what the eight-character prefix in the TLS summary relies on.
\<close>

definition md5_k :: "u32 list" where
  "md5_k =
     [0xd76aa478, 0xe8c7b756, 0x242070db, 0xc1bdceee, 0xf57c0faf, 0x4787c62a, 0xa8304613, 0xfd469501,
      0x698098d8, 0x8b44f7af, 0xffff5bb1, 0x895cd7be, 0x6b901122, 0xfd987193, 0xa679438e, 0x49b40821,
      0xf61e2562, 0xc040b340, 0x265e5a51, 0xe9b6c7aa, 0xd62f105d, 0x02441453, 0xd8a1e681, 0xe7d3fbc8,
      0x21e1cde6, 0xc33707d6, 0xf4d50d87, 0x455a14ed, 0xa9e3e905, 0xfcefa3f8, 0x676f02d9, 0x8d2a4c8a,
      0xfffa3942, 0x8771f681, 0x6d9d6122, 0xfde5380c, 0xa4beea44, 0x4bdecfa9, 0xf6bb4b60, 0xbebfbc70,
      0x289b7ec6, 0xeaa127fa, 0xd4ef3085, 0x04881d05, 0xd9d4d039, 0xe6db99e5, 0x1fa27cf8, 0xc4ac5665,
      0xf4292244, 0x432aff97, 0xab9423a7, 0xfc93a039, 0x655b59c3, 0x8f0ccc92, 0xffeff47d, 0x85845dd1,
      0x6fa87e4f, 0xfe2ce6e0, 0xa3014314, 0x4e0811a1, 0xf7537e82, 0xbd3af235, 0x2ad7d2bb, 0xeb86d391]"

definition md5_s :: "nat list" where
  "md5_s =
     [7, 12, 17, 22, 7, 12, 17, 22, 7, 12, 17, 22, 7, 12, 17, 22,
      5, 9, 14, 20, 5, 9, 14, 20, 5, 9, 14, 20, 5, 9, 14, 20,
      4, 11, 16, 23, 4, 11, 16, 23, 4, 11, 16, 23, 4, 11, 16, 23,
      6, 10, 15, 21, 6, 10, 15, 21, 6, 10, 15, 21, 6, 10, 15, 21]"

definition rotl32 :: "nat \<Rightarrow> u32 \<Rightarrow> u32" where
  "rotl32 n w = push_bit n w OR drop_bit (32 - n) w"

definition le32 :: "bytes \<Rightarrow> u32" where
  "le32 bs = be32 (bs ! 3) (bs ! 2) (bs ! 1) (bs ! 0)"

definition md5_le32 :: "u32 \<Rightarrow> bytes" where
  "md5_le32 w = rev (put_be32 w)"

definition md5_le64 :: "nat \<Rightarrow> bytes" where
  "md5_le64 n = map (\<lambda>i. word_of_nat (n div 256 ^ i mod 256)) [0..<8]"

definition md5_pad :: "bytes \<Rightarrow> bytes" where
  "md5_pad bs =
     (let n = length bs in
      bs @ [0x80] @ replicate ((119 - n mod 64) mod 64) 0 @ md5_le64 (8 * n))"

type_synonym md5_state = "u32 \<times> u32 \<times> u32 \<times> u32"

definition md5_round :: "bytes \<Rightarrow> nat \<Rightarrow> md5_state \<Rightarrow> md5_state" where
  "md5_round block i st =
     (case st of (a, b, c, d) \<Rightarrow>
       let (f, g) =
         (if i < 16 then ((b AND c) OR (NOT b AND d), i)
          else if i < 32 then ((d AND b) OR (NOT d AND c), (5 * i + 1) mod 16)
          else if i < 48 then (b XOR c XOR d, (3 * i + 5) mod 16)
          else (c XOR (b OR NOT d), 7 * i mod 16));
         m = le32 (take 4 (drop (4 * g) block))
       in (d, b + rotl32 (md5_s ! i) (f + a + md5_k ! i + m), b, c))"

definition md5_block :: "bytes \<Rightarrow> md5_state \<Rightarrow> md5_state" where
  "md5_block block st =
     (case (st, fold (md5_round block) [0..<64] st) of
        ((a0, b0, c0, d0), (a, b, c, d)) \<Rightarrow> (a0 + a, b0 + b, c0 + c, d0 + d))"

function md5_blocks :: "bytes \<Rightarrow> md5_state \<Rightarrow> md5_state" where
  "md5_blocks bs st = (if length bs < 64 then st
     else md5_blocks (drop 64 bs) (md5_block (take 64 bs) st))"
  by pat_completeness auto
termination
  by (relation "measure (\<lambda>(bs, st). length bs)") auto

declare md5_blocks.simps [simp del]

definition md5_sum :: "bytes \<Rightarrow> bytes" where
  "md5_sum bs =
     (case md5_blocks (md5_pad bs) (0x67452301, 0xefcdab89, 0x98badcfe, 0x10325476) of
        (a, b, c, d) \<Rightarrow> md5_le32 a @ md5_le32 b @ md5_le32 c @ md5_le32 d)"

definition md5hex :: "string \<Rightarrow> string" where
  "md5hex s = hex_bytes (md5_sum (bytes_of s))"

lemma length_md5_sum: "length (md5_sum bs) = 16"
  by (simp add: md5_sum_def md5_le32_def split: prod.split)

lemma length_md5hex [simp]: "length (md5hex s) = 32"
  by (simp add: md5hex_def length_hex_bytes length_md5_sum)

end
