(* ===== verification/Tls.thy ===== *)
theory Tls
  imports Frame GoMd5
begin

text \<open>
  \<open>internal/decode/tls.go\<close>: the TLS record walker, the ClientHello and ServerHello parsers
  and the JA3 fingerprint. The \<open>fields\<close> map that the Go functions share by reference is
  passed in and returned. Extension loops move a position towards an end, which is their
  measure; the record loop recurses on the records it may still append (12 at most). The
  lemmas: no index or slice leaves the hello body, whatever its length fields claim, and the
  JA3 hash is there when the summary takes its first eight characters.
\<close>

section \<open>Names\<close>

definition tls_content_types :: "(byte \<times> string) list" where
  "tls_content_types = [(20, ''ChangeCipherSpec''), (21, ''Alert''), (22, ''Handshake''),
     (23, ''ApplicationData''), (24, ''Heartbeat'')]"

definition tls_handshake_types :: "(byte \<times> string) list" where
  "tls_handshake_types =
     [(1, ''ClientHello''), (2, ''ServerHello''), (4, ''NewSessionTicket''),
      (8, ''EncryptedExtensions''), (11, ''Certificate''), (12, ''ServerKeyExchange''),
      (13, ''CertificateRequest''), (14, ''ServerHelloDone''), (15, ''CertificateVerify''),
      (16, ''ClientKeyExchange''), (20, ''Finished'')]"

definition tls_versions :: "(u16 \<times> string) list" where
  "tls_versions = [(0x0300, ''SSL 3.0''), (0x0301, ''TLS 1.0''), (0x0302, ''TLS 1.1''),
     (0x0303, ''TLS 1.2''), (0x0304, ''TLS 1.3'')]"

definition tls_version_name :: "u16 \<Rightarrow> string" where
  "tls_version_name v =
     (case map_of tls_versions v of Some s \<Rightarrow> s | None \<Rightarrow> ''0x'' @ hexw 4 (unat v))"

definition looks_like_tls :: "bytes \<Rightarrow> bool" where
  "looks_like_tls b =
     (if length b < 5 then False
      else
        let ct = unat (b ! 0); maj = b ! 1; minv = unat (b ! 2) in
        if ct < 20 \<or> 23 < ct then False
        else if maj \<noteq> 3 then False
        else if 4 < minv then False
        else let len = unat (u16 b 3) in 0 < len \<and> len + 5 \<le> length b + 2048)"

text \<open>The 16-bit values at \<open>pos\<close>, \<open>pos + 2\<close>, ... of a list of \<open>n\<close> bytes; an odd last
  byte is left out, as by the loop condition \<open>i+1 < n\<close>.\<close>

definition words_at :: "bytes \<Rightarrow> nat \<Rightarrow> nat \<Rightarrow> u16 list" where
  "words_at b pos n = map (\<lambda>j. u16 b (pos + 2 * j)) [0..<n div 2]"

section \<open>ClientHello\<close>

text \<open>The server_name and supported_versions extensions at \<open>pos\<close>, of length \<open>el\<close>.\<close>

definition ch_sni :: "bytes \<Rightarrow> nat \<Rightarrow> u16 \<Rightarrow> nat \<Rightarrow> string \<Rightarrow> fields \<Rightarrow> (string \<times> fields) option" where
  "ch_sni body pos eid el sni fs =
     (if eid = 0 \<and> 5 \<le> el then
        let npos = pos + 3 in
        if npos + 2 \<le> pos + el then
          let nlen = unat (u16 body npos); npos = npos + 2 in
          if npos + nlen \<le> pos + el then do {
            s \<leftarrow> slice body npos (npos + nlen);
            Some (str s, fset ''server_name'' (str s) fs)
          }
          else Some (sni, fs)
        else Some (sni, fs)
      else Some (sni, fs))"

definition ch_versions :: "bytes \<Rightarrow> nat \<Rightarrow> u16 \<Rightarrow> nat \<Rightarrow> fields \<Rightarrow> fields option" where
  "ch_versions body pos eid el fs =
     (if eid = 43 \<and> 2 \<le> el then do {
        s \<leftarrow> slice body pos (pos + min el 16);
        Some (fset ''supported_versions_ext'' (hex_bytes s) fs)
      }
      else Some fs)"

function ch_exts :: "bytes \<Rightarrow> nat \<Rightarrow> nat \<Rightarrow> string list \<Rightarrow> string \<Rightarrow> fields
    \<Rightarrow> (string list \<times> string \<times> fields) option" where
  "ch_exts body e pos ids sni fs =
     (if e < pos + 4 then Some (ids, sni, fs)
      else
        let eid = u16 body pos; el = unat (u16 body (pos + 2)); pos = pos + 4;
            ids = ids @ [dec (unat eid)] in
        if e < pos + el then Some (ids, sni, fs)
        else do {
          (sni, fs) \<leftarrow> ch_sni body pos eid el sni fs;
          fs \<leftarrow> ch_versions body pos eid el fs;
          ch_exts body e (pos + el) ids sni fs
        })"
  by pat_completeness auto
termination
  by (relation "measure (\<lambda>(body, e, pos, ids, sni, fs). e - pos)") auto

declare ch_exts.simps [simp del]

text \<open>The part after the compression methods.\<close>

definition ch_tail :: "bytes \<Rightarrow> nat \<Rightarrow> nat \<Rightarrow> fields \<Rightarrow> (string \<times> fields) option" where
  "ch_tail body pos n_ciphers fs = do {
     (sni, fs) \<leftarrow>
       (if pos + 2 \<le> length body then do {
          let ext_len = unat (u16 body pos);
          let pos = pos + 2;
          let e = min (pos + ext_len) (length body);
          (ids, sni, fs) \<leftarrow> ch_exts body e pos [] [] fs;
          Some (sni, fset ''extensions'' (join ''-'' ids) fs)
        }
        else Some ([], fs));
     Some (''ClientHello '' @ fget fs ''client_version''
             @ (if sni \<noteq> [] then '' SNI='' @ sni else [])
             @ '' ciphers='' @ dec n_ciphers, fs)
   }"

definition parse_client_hello :: "bytes \<Rightarrow> fields \<Rightarrow> (string \<times> fields) option" where
  "parse_client_hello body fs =
     (if length body < 34 then Some (''ClientHello'', fs)
      else do {
        let fs = fset ''client_version'' (tls_version_name (u16 body 0)) fs;
        if length body \<le> 34 then Some (''ClientHello '' @ fget fs ''client_version'', fs)
        else do {
          sl \<leftarrow> idx body 34;
          let pos = 35 + unat sl;
          if length body < pos + 2 then Some (''ClientHello'', fs)
          else do {
            let cs_len = unat (u16 body pos);
            let pos = pos + 2;
            if length body < pos + cs_len then Some (''ClientHello'', fs)
            else do {
              let ciphers = map (\<lambda>w. ''0x'' @ hexw 4 (unat w)) (words_at body pos cs_len);
              let fs = fset ''cipher_suites'' (join '','' ciphers) fs;
              let pos = pos + cs_len;
              if length body \<le> pos then Some (''ClientHello'', fs)
              else do {
                cl \<leftarrow> idx body pos;
                ch_tail body (pos + 1 + unat cl) (length ciphers) fs
              }
            }
          }
        }
      })"

section \<open>ServerHello\<close>

function sh_exts :: "bytes \<Rightarrow> nat \<Rightarrow> nat \<Rightarrow> fields \<Rightarrow> fields" where
  "sh_exts body e pos fs =
     (if e < pos + 4 then fs
      else
        let eid = u16 body pos; el = unat (u16 body (pos + 2)); pos = pos + 4 in
        if e < pos + el then fs
        else
          let fs = (if eid = 43 \<and> el = 2 then
                      case map_of tls_versions (u16 body pos) of
                        Some v \<Rightarrow> fset ''negotiated_version'' v fs
                      | None \<Rightarrow> fs
                    else fs)
          in sh_exts body e (pos + el) fs)"
  by pat_completeness auto
termination
  by (relation "measure (\<lambda>(body, e, pos, fs). e - pos)") auto

declare sh_exts.simps [simp del]

definition parse_server_hello :: "bytes \<Rightarrow> fields \<Rightarrow> (string \<times> fields) option" where
  "parse_server_hello body fs =
     (if length body < 34 then Some (''ServerHello'', fs)
      else do {
        let fs = fset ''server_version'' (tls_version_name (u16 body 0)) fs;
        if length body \<le> 34 then Some (''ServerHello'', fs)
        else do {
          sl \<leftarrow> idx body 34;
          let pos = 35 + unat sl;
          if length body < pos + 3 then Some (''ServerHello '' @ fget fs ''server_version'', fs)
          else do {
            let fs = fset ''cipher_suite'' (''0x'' @ hexw 4 (unat (u16 body pos))) fs;
            let pos = pos + 2;
            _ \<leftarrow> idx body pos;
            let pos = pos + 1;
            let fs =
              (if pos + 2 \<le> length body then
                 let ext_len = unat (u16 body pos); pos = pos + 2;
                     e = min (pos + ext_len) (length body)
                 in sh_exts body e pos fs
               else fs);
            let ver_show =
              (case map_of fs ''negotiated_version'' of
                 Some nv \<Rightarrow> nv | None \<Rightarrow> fget fs ''server_version'');
            Some (''ServerHello '' @ ver_show @ '' cipher='' @ fget fs ''cipher_suite'', fs)
          }
        }
      })"

section \<open>Handshake messages\<close>

definition hs_body :: "bytes \<Rightarrow> bytes" where
  "hs_body data =
     (let hs_len = unat (data ! 1) * 65536 + unat (data ! 2) * 256 + unat (data ! 3);
          body = drop 4 data
      in if hs_len < length body then take hs_len body else body)"

definition parse_tls_handshake :: "bytes \<Rightarrow> fields \<Rightarrow> (string \<times> fields) option" where
  "parse_tls_handshake data fs =
     (if length data < 4 then Some ([], fs)
      else
        let ht = data ! 0;
            hs_len = unat (data ! 1) * 65536 + unat (data ! 2) * 256 + unat (data ! 3);
            name = (case map_of tls_handshake_types ht of
                      Some s \<Rightarrow> s | None \<Rightarrow> ''Handshake-'' @ dec (unat ht));
            fs = fset ''handshake_len'' (dec hs_len) (fset ''handshake'' name fs);
            body = hs_body data
        in if ht = 1 then parse_client_hello body fs
           else if ht = 2 then parse_server_hello body fs
           else if ht = 11 then Some (''Certificate'', fs)
           else Some (name, fs))"

section \<open>JA3\<close>

definition is_grease :: "u16 \<Rightarrow> bool" where
  "is_grease v = (v AND 0x0F0F = 0x0A0A)"

definition ja3_groups :: "bytes \<Rightarrow> nat \<Rightarrow> u16 \<Rightarrow> nat \<Rightarrow> string list" where
  "ja3_groups body pos eid el =
     (if eid = 10 \<and> 2 \<le> el then
        let gl = unat (u16 body pos) in
        map (\<lambda>g. dec (unat g))
          (filter (\<lambda>g. \<not> is_grease g)
             (map (\<lambda>j. u16 body (pos + 2 + 2 * j)) [0..<min (gl div 2) ((el - 2) div 2)]))
      else [])"

definition ja3_points :: "bytes \<Rightarrow> nat \<Rightarrow> u16 \<Rightarrow> nat \<Rightarrow> string list option" where
  "ja3_points body pos eid el =
     (if eid = 11 \<and> 1 \<le> el then do {
        n \<leftarrow> idx body pos;
        ps \<leftarrow> those (map (\<lambda>i. idx body (pos + i)) [1..<min (unat n + 1) el]);
        Some (map (\<lambda>p. dec (unat p)) ps)
      }
      else Some [])"

function ja3_exts :: "bytes \<Rightarrow> nat \<Rightarrow> nat \<Rightarrow> string list \<Rightarrow> string list \<Rightarrow> string list
    \<Rightarrow> (string list \<times> string list \<times> string list) option" where
  "ja3_exts body e pos exts curves points =
     (if e < pos + 4 then Some (exts, curves, points)
      else
        let eid = u16 body pos; el = unat (u16 body (pos + 2)); pos = pos + 4 in
        if e < pos + el then Some (exts, curves, points)
        else do {
          let exts = (if is_grease eid then exts else exts @ [dec (unat eid)]);
          ps \<leftarrow> ja3_points body pos eid el;
          ja3_exts body e (pos + el) exts (curves @ ja3_groups body pos eid el) (points @ ps)
        })"
  by pat_completeness auto
termination
  by (relation "measure (\<lambda>(body, e, pos, exts, curves, points). e - pos)") auto

declare ja3_exts.simps [simp del]

definition ja3_text :: "u16 \<Rightarrow> string list \<Rightarrow> string list \<times> string list \<times> string list \<Rightarrow> string" where
  "ja3_text version ciphers x =
     (case x of (exts, curves, points) \<Rightarrow>
        join '','' [dec (unat version), join ''-'' ciphers, join ''-'' exts, join ''-'' curves,
                    join ''-'' points])"

text \<open>The extension block at \<open>pos\<close>, behind the compression methods.\<close>

definition ja3_tail :: "bytes \<Rightarrow> nat \<Rightarrow> u16 \<Rightarrow> string list \<Rightarrow> string option" where
  "ja3_tail body pos version ciphers = do {
     x \<leftarrow>
       (if pos + 2 \<le> length body then
          let ext_len = unat (u16 body pos); pos = pos + 2;
              e = min (pos + ext_len) (length body)
          in ja3_exts body e pos [] [] []
        else Some ([], [], []));
     Some (ja3_text version ciphers x)
   }"

definition build_ja3 :: "bytes \<Rightarrow> string option" where
  "build_ja3 hs =
     (if length hs < 4 \<or> hs ! 0 \<noteq> 1 then Some []
      else
        let body = hs_body hs in
        if length body \<le> 34 then Some []
        else do {
          let version = u16 body 0;
          sl \<leftarrow> idx body 34;
          let pos = 34 + (1 + unat sl);
          if length body < pos + 2 then Some []
          else do {
            let cs_len = unat (u16 body pos);
            let pos = pos + 2;
            if length body < pos + cs_len then Some []
            else do {
              let ciphers = map (\<lambda>c. dec (unat c))
                    (filter (\<lambda>c. \<not> is_grease c) (words_at body pos cs_len));
              let pos = pos + cs_len;
              if length body \<le> pos then Some []
              else do {
                cl \<leftarrow> idx body pos;
                ja3_tail body (pos + (1 + unat cl)) version ciphers
              }
            }
          }
        })"

section \<open>Records\<close>

type_synonym tls_state = "fields \<times> string \<times> frame"

text \<open>One handshake record: its text and the state \<open>(fields, ja3Parts, frame)\<close> after it.\<close>

definition tls_handshake_record ::
  "bytes \<Rightarrow> string \<Rightarrow> tls_state \<Rightarrow> (string \<times> tls_state) option" where
  "tls_handshake_record payload rec st =
     (case st of (fs, ja3_parts, f) \<Rightarrow> do {
        (hs, fs) \<leftarrow> parse_tls_handshake payload fs;
        let rec = (if hs \<noteq> [] then hs else rec);
        ja3 \<leftarrow> (if fget fs ''handshake'' = ''ClientHello'' then build_ja3 payload else Some []);
        let (fs, ja3_parts, f) =
          (if ja3 \<noteq> [] then
             (fset ''ja3_hash'' (md5hex ja3) (fset ''ja3'' ja3 fs), ja3,
              add_tags [''ja3''] (meta_set ''ja3'' (md5hex ja3) f))
           else (fs, ja3_parts, f));
        let f = (if fget fs ''handshake'' = ''ServerHello'' then
                   let f = (case map_of fs ''cipher_suite'' of
                              Some cv \<Rightarrow> meta_set ''tls_cipher'' cv f | None \<Rightarrow> f)
                   in (case map_of fs ''server_name'' of
                         Some sni \<Rightarrow> meta_set ''sni'' sni f | None \<Rightarrow> f)
                 else f);
        Some (rec, fs, ja3_parts, f)
      })"

definition tls_alert_record ::
  "bytes \<Rightarrow> nat \<Rightarrow> string \<Rightarrow> tls_state \<Rightarrow> (string \<times> tls_state) option" where
  "tls_alert_record data off rec st = do {
     lv \<leftarrow> idx data off;
     ds \<leftarrow> idx data (off + 1);
     let (fs, ja3_parts, f) = st;
     Some (rec @ '' level='' @ dec (unat lv) @ '' desc='' @ dec (unat ds),
           fs, ja3_parts, f\<lparr>f_severity := ''warn''\<rparr>)
   }"

text \<open>The record at \<open>pos\<close>: its text and the state after it. A record that claims more bytes
  than there are is cut at the end of the data.\<close>

definition tls_record :: "bytes \<Rightarrow> nat \<Rightarrow> tls_state \<Rightarrow> (string \<times> tls_state) option" where
  "tls_record data pos st = do {
     ct \<leftarrow> idx data pos;
     let ver = u16 data (pos + 1);
     let len = unat (u16 data (pos + 3));
     let ct_name = (case map_of tls_content_types ct of
            Some s \<Rightarrow> s | None \<Rightarrow> ''type-'' @ dec (unat ct));
     let rec = ct_name @ '' '' @ tls_version_name ver @ '' len='' @ dec len;
     let off = pos + 5;
     let e = min (off + len) (length data);
     let rec = (if length data < off + len then rec @ '' [truncated]'' else rec);
     (rec, st) \<leftarrow>
       (if ct = 22 \<and> off < e then do {
          payload \<leftarrow> slice data off e;
          tls_handshake_record payload rec st
        }
        else Some (rec, st));
     if ct = 21 \<and> off + 1 < e then tls_alert_record data off rec st else Some (rec, st)
   }"

text \<open>\<open>k\<close> more records may be appended.\<close>

fun tls_records :: "bytes \<Rightarrow> nat \<Rightarrow> nat \<Rightarrow> string list \<Rightarrow> tls_state
    \<Rightarrow> (string list \<times> tls_state) option" where
  "tls_records data 0 pos records st = Some (records, st)"
| "tls_records data (Suc k) pos records st =
     (if length data < pos + 5 then Some (records, st)
      else do {
        (rec, st) \<leftarrow> tls_record data pos st;
        let len = unat (u16 data (pos + 3));
        let records = records @ [rec];
        let nxt = pos + 5 + len;
        if len = 0 \<or> nxt \<le> pos \<or> length data < nxt then Some (records, st)
        else tls_records data k nxt records st
      })"

definition dissect_tls :: "frame \<Rightarrow> bytes \<Rightarrow> nat \<Rightarrow> (frame \<times> nat) option" where
  "dissect_tls f data offset = do {
     (records, fs, ja3_parts, f) \<leftarrow> tls_records data 12 0 [] ([], [], f);
     let summary = join '' | '' records;
     let (summary, f) =
       (case map_of fs ''server_name'' of
          Some sni \<Rightarrow> (''SNI='' @ sni @ '' '' @ mid_dot @ '' '' @ summary, meta_set ''sni'' sni f)
        | None \<Rightarrow> (summary, f));
     summary \<leftarrow>
       (if ja3_parts \<noteq> [] then do {
          h \<leftarrow> slice (fget fs ''ja3_hash'') 0 8;
          Some (summary @ '' JA3='' @ h)
        }
        else Some summary);
     let f = add_layer ''TLS'' summary fs offset (length data) ''#a78bfa'' f;
     Some (add_tags [''encrypted'', ''tls''] (f\<lparr>f_protocol := ''TLS'', f_info := summary\<rparr>),
           offset + length data)
   }"

section \<open>No dissector of this theory panics\<close>

text \<open>\<open>keeps fs x\<close>: the parser \<open>x\<close> returned, and did not write the JA3 hash.\<close>

definition keeps :: "fields \<Rightarrow> ('a \<times> fields) option \<Rightarrow> bool" where
  "keeps fs x = (\<exists>a fs'. x = Some (a, fs') \<and> fget fs' ''ja3_hash'' = fget fs ''ja3_hash'')"

lemma keeps_Some [simp]:
  "keeps fs (Some (a, fs')) \<longleftrightarrow> fget fs' ''ja3_hash'' = fget fs ''ja3_hash''"
  by (simp add: keeps_def)

lemma ch_sni_keeps: "pos + el \<le> length body \<Longrightarrow> keeps fs (ch_sni body pos eid el sni fs)"
  by (simp add: ch_sni_def slice_def Let_def)

lemma ch_versions_total:
  "pos + el \<le> length body \<Longrightarrow>
   \<exists>fs'. ch_versions body pos eid el fs = Some fs' \<and> fget fs' ''ja3_hash'' = fget fs ''ja3_hash''"
  by (auto simp: ch_versions_def slice_def)

lemma ch_exts_total:
  "e \<le> length body \<Longrightarrow>
   \<exists>ids' sni' fs'. ch_exts body e pos ids sni fs = Some (ids', sni', fs')
     \<and> fget fs' ''ja3_hash'' = fget fs ''ja3_hash''"
proof (induction body e pos ids sni fs rule: ch_exts.induct)
  case (1 body e pos ids sni fs)
  let ?el = "unat (u16 body (pos + 2))"
  show ?case
  proof (cases "e < pos + 4 \<or> e < pos + 4 + ?el")
    case True
    then show ?thesis by (subst ch_exts.simps) (auto simp: Let_def)
  next
    case False
    with "1.prems" have le: "pos + 4 + ?el \<le> length body" by simp
    obtain sni1 fs1 where s: "ch_sni body (pos + 4) (u16 body pos) ?el sni fs = Some (sni1, fs1)"
      and k1: "fget fs1 ''ja3_hash'' = fget fs ''ja3_hash''"
      using ch_sni_keeps [OF le, of fs "u16 body pos" sni] by (auto simp: keeps_def)
    obtain fs2 where v: "ch_versions body (pos + 4) (u16 body pos) ?el fs1 = Some fs2"
      and k2: "fget fs2 ''ja3_hash'' = fget fs1 ''ja3_hash''"
      using ch_versions_total [OF le] by blast
    obtain ids3 sni3 fs3 where
      "ch_exts body e (pos + 4 + ?el) (ids @ [dec (unat (u16 body pos))]) sni1 fs2 = Some (ids3, sni3, fs3)"
      and "fget fs3 ''ja3_hash'' = fget fs2 ''ja3_hash''"
      using "1.IH" False "1.prems" s v by fastforce
    with False s v k1 k2 show ?thesis by (subst ch_exts.simps) (simp add: Let_def)
  qed
qed

lemma ch_tail_keeps: "keeps fs (ch_tail body pos n fs)"
proof (cases "pos + 2 \<le> length body")
  case True
  let ?e = "min (pos + 2 + unat (u16 body pos)) (length body)"
  have "?e \<le> length body" by simp
  then obtain ids sni fs' where "ch_exts body ?e (pos + 2) [] [] fs = Some (ids, sni, fs')"
    and "fget fs' ''ja3_hash'' = fget fs ''ja3_hash''"
    using ch_exts_total by blast
  with True show ?thesis by (simp add: ch_tail_def Let_def)
qed (simp add: ch_tail_def)

lemma keeps_fset:
  "k \<noteq> ''ja3_hash'' \<Longrightarrow> keeps (fset k v fs) x = keeps fs x"
  by (simp add: keeps_def)

lemma parse_client_hello_keeps: "keeps fs (parse_client_hello body fs)"
proof -
  have c: "keeps fs (ch_tail b p n (fset ''cipher_suites'' x (fset ''client_version'' y fs)))"
    for b p n x y
    using ch_tail_keeps [of "fset ''cipher_suites'' x (fset ''client_version'' y fs)" b p n]
    by (simp add: keeps_fset)
  show ?thesis by (simp add: parse_client_hello_def Let_def idx_def c)
qed

lemma sh_exts_keeps: "fget (sh_exts body e pos fs) ''ja3_hash'' = fget fs ''ja3_hash''"
proof (induction body e pos fs rule: sh_exts.induct)
  case (1 body e pos fs)
  then show ?case by (subst sh_exts.simps) (auto simp: Let_def split: option.split)
qed

lemma parse_server_hello_keeps: "keeps fs (parse_server_hello body fs)"
  by (simp add: parse_server_hello_def Let_def idx_def sh_exts_keeps)

lemma parse_tls_handshake_keeps: "keeps fs (parse_tls_handshake data fs)"
proof -
  have c: "keeps fs (parse_client_hello b (fset ''handshake_len'' x (fset ''handshake'' y fs)))" for b x y
    using parse_client_hello_keeps [of "fset ''handshake_len'' x (fset ''handshake'' y fs)" b]
    by (simp add: keeps_fset)
  have s: "keeps fs (parse_server_hello b (fset ''handshake_len'' x (fset ''handshake'' y fs)))" for b x y
    using parse_server_hello_keeps [of "fset ''handshake_len'' x (fset ''handshake'' y fs)" b]
    by (simp add: keeps_fset)
  show ?thesis by (simp add: parse_tls_handshake_def Let_def c s)
qed

lemma those_map_Some: "(\<And>x. x \<in> set xs \<Longrightarrow> f x = Some (g x)) \<Longrightarrow> those (map f xs) = Some (map g xs)"
  by (induction xs) auto

lemma ja3_points_total:
  assumes "pos + el \<le> length body"
  shows "\<exists>ps. ja3_points body pos eid el = Some ps"
proof (cases "eid = 11 \<and> 1 \<le> el")
  case True
  have "those (map (\<lambda>i. idx body (pos + i)) [1..<min (unat (body ! pos) + 1) el])
      = Some (map (\<lambda>i. body ! (pos + i)) [1..<min (unat (body ! pos) + 1) el])"
    by (rule those_map_Some) (use assms in \<open>auto simp: idx_def\<close>)
  with True assms show ?thesis by (simp add: ja3_points_def idx_def)
qed (auto simp: ja3_points_def)

lemma ja3_exts_total:
  "e \<le> length body \<Longrightarrow> \<exists>x. ja3_exts body e pos exts curves points = Some x"
proof (induction body e pos exts curves points rule: ja3_exts.induct)
  case (1 body e pos exts curves points)
  let ?el = "unat (u16 body (pos + 2))"
  show ?case
  proof (cases "e < pos + 4 \<or> e < pos + 4 + ?el")
    case True
    then show ?thesis by (subst ja3_exts.simps) (auto simp: Let_def)
  next
    case False
    with "1.prems" have "pos + 4 + ?el \<le> length body" by simp
    then obtain ps where "ja3_points body (pos + 4) (u16 body pos) ?el = Some ps"
      using ja3_points_total by blast
    with False "1.IH" "1.prems" show ?thesis by (subst ja3_exts.simps) (simp add: Let_def)
  qed
qed

lemma ja3_tail_total: "\<exists>s. ja3_tail body pos v cs = Some s"
proof (cases "pos + 2 \<le> length body")
  case True
  obtain x where
    "ja3_exts body (min (pos + 2 + unat (u16 body pos)) (length body)) (pos + 2) [] [] [] = Some x"
    using ja3_exts_total [OF min.cobounded2] by blast
  with True show ?thesis by (simp add: ja3_tail_def Let_def)
qed (simp add: ja3_tail_def)

lemma build_ja3_total: "\<exists>s. build_ja3 hs = Some s"
  by (simp add: build_ja3_def Let_def idx_def ja3_tail_total)

text \<open>The state of the record loop: when there is a JA3 text there is a 32-character hash.\<close>

definition tls_state_ok :: "frame \<Rightarrow> tls_state \<Rightarrow> bool" where
  "tls_state_ok f0 st =
     (case st of (fs, ja3_parts, f) \<Rightarrow>
        (ja3_parts \<noteq> [] \<longrightarrow> length (fget fs ''ja3_hash'') = 32) \<and> f_layers f = f_layers f0)"

lemma tls_handshake_record_total:
  assumes "tls_state_ok f0 st"
  shows "\<exists>rec' st'. tls_handshake_record payload rec st = Some (rec', st') \<and> tls_state_ok f0 st'"
proof -
  obtain fs ja3p f where st: "st = (fs, ja3p, f)" by (metis prod_cases3)
  obtain hs fs1 where p: "parse_tls_handshake payload fs = Some (hs, fs1)"
    and k: "fget fs1 ''ja3_hash'' = fget fs ''ja3_hash''"
    using parse_tls_handshake_keeps [of fs payload] by (auto simp: keeps_def)
  obtain j where j: "build_ja3 payload = Some j" using build_ja3_total by blast
  have m: "f_layers (case o1 of Some v \<Rightarrow> meta_set k v g | None \<Rightarrow> g) = f_layers g" for o1 k g
    by (simp split: option.split)
  show ?thesis
    using assms st p j k
    by (auto simp: tls_handshake_record_def tls_state_ok_def Let_def m)
qed

lemma tls_alert_record_total:
  assumes "tls_state_ok f0 st" "off + 1 < length data"
  shows "\<exists>rec' st'. tls_alert_record data off rec st = Some (rec', st') \<and> tls_state_ok f0 st'"
  using assms by (cases st) (simp add: tls_alert_record_def idx_def tls_state_ok_def)

lemma tls_record_total:
  assumes "tls_state_ok f0 st" "pos + 5 \<le> length data"
  shows "\<exists>rec' st'. tls_record data pos st = Some (rec', st') \<and> tls_state_ok f0 st'"
proof -
  let ?e = "min (pos + 5 + unat (u16 data (pos + 3))) (length data)"
  have h: "\<exists>r' s'. (if c \<and> pos + 5 < ?e then do {
             payload \<leftarrow> slice data (pos + 5) ?e;
             tls_handshake_record payload r st
           } else Some (r, st)) = Some (r', s') \<and> tls_state_ok f0 s'" for r c
  proof (cases "c \<and> pos + 5 < ?e")
    case True
    then have "slice data (pos + 5) ?e = Some (take (?e - (pos + 5)) (drop (pos + 5) data))"
      by (simp add: slice_def)
    with True tls_handshake_record_total [OF assms(1)] show ?thesis by simp
  next
    case False
    with assms(1) show ?thesis by (cases st) auto
  qed
  have a: "tls_state_ok f0 s \<Longrightarrow> pos + 5 + 1 < ?e \<Longrightarrow>
       \<exists>r' s'. tls_alert_record data (pos + 5) r s = Some (r', s') \<and> tls_state_ok f0 s'" for r s
    by (rule tls_alert_record_total) simp_all
  have i: "idx data pos = Some (data ! pos)" using assms(2) by (simp add: idx_def)
  show ?thesis
    unfolding tls_record_def Let_def i Option.bind.bind_lunit
  proof (rule bind_total_pair [OF h], goal_cases)
    case (1 r s)
    from 1 have "pos + 5 + 1 < ?e \<Longrightarrow>
        \<exists>r' s'. tls_alert_record data (pos + 5) r s = Some (r', s') \<and> tls_state_ok f0 s'"
      by (rule a)
    with 1 show ?case by (cases "data ! pos = 21 \<and> pos + 5 + 1 < ?e") (simp_all only: prod.case if_True if_False option.inject prod.inject simp_thms, blast+)
  qed
qed

lemma tls_records_total:
  "tls_state_ok f0 st \<Longrightarrow>
   \<exists>rs st'. tls_records data k pos records st = Some (rs, st') \<and> tls_state_ok f0 st'"
proof (induction data k pos records st rule: tls_records.induct)
  case (2 data k pos records st)
  show ?case
  proof (cases "length data < pos + 5")
    case True
    with "2.prems" show ?thesis by auto
  next
    case False
    then have "pos + 5 \<le> length data" by simp
    from tls_record_total [OF "2.prems" this]
    obtain r s where r: "tls_record data pos st = Some (r, s)" and s: "tls_state_ok f0 s"
      by blast
    show ?thesis
    proof (cases "unat (u16 data (pos + 3)) = 0 \<or> length data < pos + 5 + unat (u16 data (pos + 3))")
      case True
      with False r s show ?thesis by (auto simp: Let_def)
    next
      case inside: False
      with False r s "2.IH" show ?thesis by (simp add: Let_def)
    qed
  qed
qed auto

lemma dissect_tls_safe:
  assumes "tiles 0 (f_layers f) off" "off + length data \<le> n"
  shows "dissected n False (dissect_tls f data off)"
proof -
  have "tls_state_ok f ([], [], f)" by (simp add: tls_state_ok_def)
  then obtain rs fs ja3p g where r: "tls_records data 12 0 [] ([], [], f) = Some (rs, fs, ja3p, g)"
    and ok: "tls_state_ok f (fs, ja3p, g)"
    using tls_records_total [of f "([], [], f)" data 12 0 "[]"] by auto
  have "tiles 0 (f_layers g) off" using ok assms(1) by (simp add: tls_state_ok_def)
  then show ?thesis
    using r ok assms(2)
    by (cases "map_of fs ''server_name''")
      (auto simp: dissect_tls_def Let_def tls_state_ok_def slice_def layers_ok_add)
qed

section \<open>Properties\<close>

lemma and_0f0f: "(n :: nat) AND 0x0F0F = n mod 16 + 256 * ((n div 256) mod 16)"
proof -
  have "n AND mask 4 = take_bit 4 n" by (simp add: take_bit_eq_mask)
  moreover have "n AND push_bit 8 (mask 4) = push_bit 8 (take_bit 4 (drop_bit 8 n))"
    by (rule bit_eqI) (auto simp: bit_simps)
  moreover have "n AND (mask 4 OR push_bit 8 (mask 4)) = (n AND mask 4) OR (n AND push_bit 8 (mask 4))"
    by (rule bit_eqI) (auto simp: bit_simps)
  moreover have "(mask 4 OR push_bit 8 (mask 4) :: nat) = 0x0F0F" by (simp add: mask_eq_exp_minus_1)
  moreover have "take_bit 4 n OR push_bit 8 x = take_bit 4 n + push_bit 8 x" for x
    by (rule disjunctive_add [symmetric]) (auto simp: bit_simps)
  ultimately show ?thesis by (simp add: take_bit_eq_mod push_bit_eq_mult drop_bit_eq_div)
qed

text \<open>The TLS dissector never panics, whatever the bytes of the records, hellos and
  extensions claim, and it adds one layer, which spans the payload it was given.\<close>

theorem dissect_tls_total:
  "\<exists>g. dissect_tls f data off = Some (g, off + length data) \<and>
     map (\<lambda>l. (l_name l, l_offset l, l_length l)) (f_layers g) =
       map (\<lambda>l. (l_name l, l_offset l, l_length l)) (f_layers f) @ [(''TLS'', off, length data)]"
proof -
  have "tls_state_ok f ([], [], f)" by (simp add: tls_state_ok_def)
  then obtain rs fs ja3p g where r: "tls_records data 12 0 [] ([], [], f) = Some (rs, fs, ja3p, g)"
    and ok: "tls_state_ok f (fs, ja3p, g)"
    using tls_records_total [of f "([], [], f)" data 12 0 "[]"] by auto
  then show ?thesis
    by (cases "map_of fs ''server_name''")
      (auto simp: dissect_tls_def Let_def tls_state_ok_def slice_def add_layer_def)
qed

text \<open>The values JA3 leaves out are those whose two bytes both end in the hexadecimal digit A:
  the sixteen GREASE values of RFC 8701, whose bytes are equal, and 240 more.\<close>

theorem grease_values:
  "is_grease v \<longleftrightarrow> (unat v div 256) mod 16 = 10 \<and> unat v mod 16 = 10"
proof -
  have "is_grease v \<longleftrightarrow> unat v AND 0x0F0F = 0x0A0A"
    by (simp add: is_grease_def word_unat_eq_iff unsigned_and_eq)
  also have "\<dots> \<longleftrightarrow> unat v mod 16 + 256 * (unat v div 256 mod 16) = 0x0A0A" by (simp add: and_0f0f)
  also have "\<dots> \<longleftrightarrow> unat v div 256 mod 16 = 10 \<and> unat v mod 16 = 10"
  proof -
    have "x + 256 * y = 2570 \<longleftrightarrow> y = 10 \<and> x = 10" if "x < 16" for x y :: nat
    proof
      assume e: "x + 256 * y = 2570"
      have "(x + 256 * y) div 256 = 10" unfolding e by simp
      with that have "y = 10" by simp
      with e show "y = 10 \<and> x = 10" by simp
    qed simp
    from this [of "unat v mod 16"] show ?thesis by simp
  qed
  finally show ?thesis .
qed

end
