(* ===== verification/TcpUdp.thy ===== *)
theory TcpUdp
  imports Dns Http Tls
begin

text \<open>
  \<open>internal/decode/tcpudp.go\<close>: the TCP and UDP headers, the TCP option walker and the choice
  of the application dissector. The option walker indexes one byte past a window-scale option
  whose length field is 2, so it is partial: \<open>None\<close> is the index panic. The lemmas say
  exactly when it panics, what the flag string contains, and that every other path of the two
  dissectors returns layers inside the packet. The parameter \<open>ul\<close> is Unicode's lower-case
  table (see \<open>GoStrings\<close>).
\<close>

section \<open>TCP\<close>

definition tcp_flag_names :: "(u16 \<times> string) list" where
  "tcp_flag_names =
     [(0x100, ''NS''), (0x080, ''CWR''), (0x040, ''ECE''), (0x020, ''URG''), (0x010, ''ACK''),
      (0x008, ''PSH''), (0x004, ''RST''), (0x002, ''SYN''), (0x001, ''FIN'')]"

definition tcp_flags :: "u16 \<Rightarrow> string" where
  "tcp_flags flags =
     (let b = fold (\<lambda>(bit, n) b.
                if flags AND bit \<noteq> 0 then (if b \<noteq> [] then b @ '','' else b) @ n else b)
              tcp_flag_names []
      in if b = [] then ''NONE'' else b)"

definition tcp_option ::
  "bytes \<Rightarrow> nat \<Rightarrow> byte \<Rightarrow> nat \<Rightarrow> string list \<Rightarrow> string list option" where
  "tcp_option opts i kind l parts =
     (if kind = 2 then
        Some (if l = 4 then parts @ [''MSS='' @ dec (unat (u16 opts (i + 2)))] else parts)
      else if kind = 3 then do {
        ws \<leftarrow> idx opts (i + 2);
        Some (parts @ [''WS='' @ dec (unat ws)])
      }
      else if kind = 4 then Some (parts @ [''SACK-perm''])
      else if kind = 8 then Some (parts @ [''TS''])
      else Some (parts @ [''opt-'' @ dec (unat kind)]))"

function tcp_options :: "bytes \<Rightarrow> nat \<Rightarrow> string list \<Rightarrow> string list option" where
  "tcp_options opts i parts =
     (if length opts \<le> i then Some parts
      else do {
        kind \<leftarrow> idx opts i;
        if kind = 0 then Some (parts @ [''EOL''])
        else if kind = 1 then tcp_options opts (i + 1) (parts @ [''NOP''])
        else if length opts \<le> i + 1 then Some parts
        else do {
          lb \<leftarrow> idx opts (i + 1);
          let l = unat lb;
          if l < 2 \<or> length opts < i + l then Some parts
          else do {
            parts \<leftarrow> tcp_option opts i kind l parts;
            tcp_options opts (i + l) parts
          }
        }
      })"
  by pat_completeness auto
termination
  by (relation "measure (\<lambda>(opts, i, parts). length opts - i)") auto

declare tcp_options.simps [simp del]

definition parse_tcp_options :: "bytes \<Rightarrow> string option" where
  "parse_tcp_options opts = do {
     parts \<leftarrow> tcp_options opts 0 [];
     Some (join '','' parts)
   }"

definition dissect_app_tcp ::
  "(nat \<Rightarrow> nat) \<Rightarrow> frame \<Rightarrow> bytes \<Rightarrow> nat \<Rightarrow> u16 \<Rightarrow> u16 \<Rightarrow> (frame \<times> nat) option" where
  "dissect_app_tcp ul f payload offset sport dport =
     (let n = length payload in
      if looks_like_tls payload then dissect_tls f payload offset
      else if looks_like_http2 payload then dissect_http2 ul f payload offset
      else if looks_like_http payload then dissect_http ul f payload offset
      else if has_prefix payload (bytes_of ''SSH-'') then
        let line = hd (splitn 2 ''\<newline>'' (str payload));
            f = add_layer ''SSH'' line [(''banner'', trim_space line)] offset n ''#c084fc'' f
        in Some (add_tags [''encrypted''] (f\<lparr>f_protocol := ''SSH'', f_info := line\<rparr>), offset + n)
      else if sport = 443 \<or> dport = 443 \<or> sport = 8443 \<or> dport = 8443 then
        let f = add_layer ''TLS?'' (dec n @ '' bytes (likely encrypted)'') [] offset n ''#a78bfa'' f
        in Some (add_tags [''encrypted''] (f\<lparr>f_protocol := ''TLS''\<rparr>), offset + n)
      else if sport = 80 \<or> dport = 80 \<or> sport = 8080 \<or> dport = 8080 then
        Some ((add_layer ''HTTP?'' (dec n @ '' bytes'') [] offset n ''#38bdf8'' f)
                \<lparr>f_protocol := ''HTTP''\<rparr>, offset + n)
      else
        Some (add_layer ''Data'' (dec n @ '' bytes '' @ hex_preview payload 8) [] offset n
                ''#64748b'' f, offset + n))"

definition tcp_header_len :: "bytes \<Rightarrow> nat \<Rightarrow> nat" where
  "tcp_header_len data offset =
     (let hlen = unat (drop_bit 12 (u16 data (offset + 12)) * 4) in
      if hlen < 20 \<or> length data < offset + hlen then 20 else hlen)"

definition tcp_option_field :: "bytes \<Rightarrow> nat \<Rightarrow> nat \<Rightarrow> fields \<Rightarrow> fields option" where
  "tcp_option_field data offset hlen fs =
     (if 20 < hlen then do {
        ob \<leftarrow> slice data (offset + 20) (offset + hlen);
        opts \<leftarrow> parse_tcp_options ob;
        Some (if opts \<noteq> [] then fset ''options'' opts fs else fs)
      }
      else Some fs)"

definition dissect_tcp ::
  "(nat \<Rightarrow> nat) \<Rightarrow> frame \<Rightarrow> bytes \<Rightarrow> nat \<Rightarrow> (frame \<times> nat) option" where
  "dissect_tcp ul f data offset =
     (if length data < offset + 20 then Some (f, offset)
      else
        let sport = u16 data offset;
            dport = u16 data (offset + 2);
            seqn = u32 data (offset + 4);
            ackn = u32 data (offset + 8);
            flags = u16 data (offset + 12) AND 0x1ff;
            window = u16 data (offset + 14);
            checksum = u16 data (offset + 16);
            urgent = u16 data (offset + 18);
            hlen = tcp_header_len data offset;
            flag_str = tcp_flags flags;
            summary = dec (unat sport) @ '' '' @ arrow @ '' '' @ dec (unat dport) @ '' ['' @ flag_str
              @ ''] seq='' @ dec (unat seqn) @ '' ack='' @ dec (unat ackn)
              @ '' win='' @ dec (unat window);
            fs = [(''src_port'', dec (unat sport)), (''dst_port'', dec (unat dport)),
                  (''seq'', dec (unat seqn)), (''ack'', dec (unat ackn)),
                  (''hdr_len'', dec hlen), (''flags'', flag_str),
                  (''window'', dec (unat window)),
                  (''checksum'', ''0x'' @ hexw 4 (unat checksum)),
                  (''urgent'', dec (unat urgent))]
        in do {
          fs \<leftarrow> tcp_option_field data offset hlen fs;
          let f = add_layer ''TCP'' summary fs offset hlen ''#60a5fa'' f;
          let f = meta_set ''sport'' (dec (unat sport)) f;
          let f = meta_set ''dport'' (dec (unat dport)) f;
          let f = meta_set ''tcp_flags'' flag_str f;
          let f = meta_set ''tcp_seq'' (dec (unat seqn)) f;
          let f = f\<lparr>f_protocol := ''TCP'', f_info := summary\<rparr>;
          let payload = safe_slice data (offset + hlen) (length data);
          if payload = [] then Some (f, offset + hlen)
          else dissect_app_tcp ul f payload (offset + hlen) sport dport
        })"

section \<open>UDP\<close>

definition looks_like_quic :: "bytes \<Rightarrow> bool" where
  "looks_like_quic b = (if length b < 5 then False else b ! 0 AND 0x80 \<noteq> 0)"

definition looks_like_dns :: "bytes \<Rightarrow> bool" where
  "looks_like_dns b = (12 \<le> length b)"

definition dissect_app_udp ::
  "frame \<Rightarrow> bytes \<Rightarrow> nat \<Rightarrow> u16 \<Rightarrow> u16 \<Rightarrow> (frame \<times> nat) option" where
  "dissect_app_udp f payload offset sport dport =
     (let n = length payload in
      if sport = 53 \<or> dport = 53 \<or> sport = 5353 \<or> dport = 5353 then
        dissect_dns f payload offset (dport = 5353 \<or> sport = 5353)
      else if sport = 67 \<or> dport = 67 \<or> sport = 68 \<or> dport = 68 then
        dissect_dhcp f payload offset
      else if sport = 123 \<or> dport = 123 then
        Some ((add_layer ''NTP'' (dec n @ '' bytes'') [] offset n ''#fcd34d'' f)
                \<lparr>f_protocol := ''NTP'', f_info := ''Network Time Protocol''\<rparr>, offset + n)
      else if looks_like_quic payload then dissect_quic f payload offset
      else if looks_like_dns payload \<and> (sport = 53 \<or> dport = 53 \<or> 12 < n) then
        dissect_dns f payload offset False
      else Some (add_layer ''Data'' (dec n @ '' bytes'') [] offset n ''#64748b'' f, offset + n))"

definition dissect_udp :: "frame \<Rightarrow> bytes \<Rightarrow> nat \<Rightarrow> (frame \<times> nat) option" where
  "dissect_udp f data offset =
     (if length data < offset + 8 then Some (f, offset)
      else
        let sport = u16 data offset;
            dport = u16 data (offset + 2);
            len = u16 data (offset + 4);
            checksum = u16 data (offset + 6);
            summary = dec (unat sport) @ '' '' @ arrow @ '' '' @ dec (unat dport)
              @ '' len='' @ dec (unat len);
            f = add_layer ''UDP'' summary
              [(''src_port'', dec (unat sport)), (''dst_port'', dec (unat dport)),
               (''length'', dec (unat len)), (''checksum'', ''0x'' @ hexw 4 (unat checksum))]
              offset 8 ''#2dd4bf'' f;
            f = meta_set ''sport'' (dec (unat sport)) f;
            f = meta_set ''dport'' (dec (unat dport)) f;
            f = f\<lparr>f_protocol := ''UDP'', f_info := summary\<rparr>;
            payload = safe_slice data (offset + 8) (length data)
        in if payload = [] then Some (f, offset + 8)
           else dissect_app_udp f payload (offset + 8) sport dport)"

section \<open>The TCP option walker\<close>

text \<open>The only way to panic: a window-scale option of length 2 that ends the option bytes.\<close>

definition ends_in_ws2 :: "bytes \<Rightarrow> bool" where
  "ends_in_ws2 opts = (\<exists>pre. opts = pre @ [3, 2])"

lemma ends_in_ws2_nth:
  "i + 2 = length opts \<Longrightarrow> opts ! i = 3 \<Longrightarrow> opts ! (i + 1) = 2 \<Longrightarrow> ends_in_ws2 opts"
proof -
  assume a: "i + 2 = length opts" "opts ! i = 3" "opts ! (i + 1) = 2"
  then have "drop i opts = [3, 2]"
    using Cons_nth_drop_Suc [of i opts] Cons_nth_drop_Suc [of "i + 1" opts] by simp
  then show ?thesis unfolding ends_in_ws2_def by (metis append_take_drop_id)
qed

lemma tcp_option_panic: "tcp_option opts i k l parts = None \<longleftrightarrow> k = 3 \<and> length opts \<le> i + 2"
  by (auto simp: tcp_option_def idx_def)

lemma tcp_options_panic: "tcp_options opts i parts = None \<Longrightarrow> ends_in_ws2 opts"
proof (induction opts i parts rule: tcp_options.induct)
  case (1 opts i parts)
  let ?k = "opts ! i" and ?l = "unat (opts ! (i + 1))"
  show ?case
  proof (cases "i + 1 < length opts \<and> ?k \<noteq> 0 \<and> ?k \<noteq> 1 \<and> 2 \<le> ?l \<and> i + ?l \<le> length opts")
    case False
    with 1 show ?thesis
      by (subst (asm) (3) tcp_options.simps) (auto simp: idx_def Let_def split: if_splits)
  next
    case True
    then have i: "idx opts i = Some ?k" "idx opts (i + 1) = Some (opts ! (i + 1))"
      by (simp_all add: idx_def)
    show ?thesis
    proof (cases "tcp_option opts i ?k ?l parts")
      case None
      then have "?k = 3" "i + 2 = length opts" and l: "?l = 2"
        using True by (auto simp: tcp_option_panic)
      moreover from l have "opts ! (i + 1) = 2" by (rule byte_of_unat) simp
      ultimately show ?thesis by (intro ends_in_ws2_nth) simp_all
    next
      case (Some parts')
      then have "tcp_options opts (i + ?l) parts' = None"
        using "1.prems" True i by (subst (asm) tcp_options.simps) (simp add: Let_def)
      with 1 True i Some show ?thesis by (simp add: Let_def)
    qed
  qed
qed

lemma parse_tcp_options_panic: "parse_tcp_options opts = None \<Longrightarrow> ends_in_ws2 opts"
  using tcp_options_panic [of opts 0 "[]"]
  by (cases "tcp_options opts 0 []") (simp_all add: parse_tcp_options_def)

section \<open>The flag string\<close>

text \<open>The flag loop writes a comma-separated list of the set flags; a name occurs in the string
  exactly when it occurs in one of them.\<close>

definition set_flags :: "(u16 \<times> string) list \<Rightarrow> u16 \<Rightarrow> string list" where
  "set_flags names flags = map snd (filter (\<lambda>(bit, n). flags AND bit \<noteq> 0) names)"

lemma set_set_flags:
  "n \<in> set (set_flags names flags) \<longleftrightarrow> (\<exists>bit. (bit, n) \<in> set names \<and> flags AND bit \<noteq> 0)"
  by (force simp: set_flags_def)

lemma tcp_flag_names_ok: "list_all (\<lambda>(bit, n). n \<noteq> []) tcp_flag_names"
  by (simp add: tcp_flag_names_def)

lemma tcp_flags_join:
  "tcp_flags flags = (if set_flags tcp_flag_names flags = [] then ''NONE''
                      else join '','' (set_flags tcp_flag_names flags))"
proof -
  have "\<forall>x \<in> set tcp_flag_names. snd x \<noteq> []" using tcp_flag_names_ok by (auto simp: list_all_iff)
  from join_fold [OF this, of "[]" "\<lambda>x. flags AND fst x \<noteq> 0" "'',''"]
  have f: "fold (\<lambda>(bit, n) b. if flags AND bit \<noteq> 0 then (if b \<noteq> [] then b @ '','' else b) @ n else b)
      tcp_flag_names [] = join '','' (set_flags tcp_flag_names flags)"
    by (simp add: set_flags_def case_prod_beta')
  have "x \<in> set (set_flags tcp_flag_names flags) \<Longrightarrow> x \<noteq> []" for x
    using tcp_flag_names_ok by (force simp: set_set_flags list_all_iff)
  then have "join '','' (set_flags tcp_flag_names flags) = [] \<longleftrightarrow> set_flags tcp_flag_names flags = []"
    by (cases "set_flags tcp_flag_names flags") (auto simp: join_Cons)
  with f show ?thesis unfolding tcp_flags_def f by simp
qed

lemma tcp_flags_contains:
  assumes "x \<noteq> []" "CHR '','' \<notin> set x" "\<not> contains_sub ''NONE'' x"
  shows "contains_sub (tcp_flags flags) x \<longleftrightarrow>
    (\<exists>(bit, n) \<in> set tcp_flag_names. flags AND bit \<noteq> 0 \<and> contains_sub n x)"
proof (cases "set_flags tcp_flag_names flags = []")
  case True
  then have "\<forall>(bit, n) \<in> set tcp_flag_names. flags AND bit = 0"
    by (auto simp: set_flags_def filter_empty_conv)
  with True assms(3) show ?thesis by (auto simp: tcp_flags_join)
next
  case False
  then show ?thesis
    using contains_sub_join [OF assms(2,1), of "set_flags tcp_flag_names flags"]
    by (auto simp: tcp_flags_join set_set_flags Bex_def)
qed

lemma tcp_flags_bits:
  "contains_sub (tcp_flags flags) ''SYN'' \<longleftrightarrow> flags AND 2 \<noteq> 0"
  "contains_sub (tcp_flags flags) ''ACK'' \<longleftrightarrow> flags AND 16 \<noteq> 0"
  "contains_sub (tcp_flags flags) ''RST'' \<longleftrightarrow> flags AND 4 \<noteq> 0"
  "contains_sub (tcp_flags flags) ''FIN'' \<longleftrightarrow> flags AND 1 \<noteq> 0"
  by (simp_all add: tcp_flags_contains tcp_flag_names_def sub_eval)

section \<open>The two dissectors stay inside the packet\<close>

lemma dissect_app_tcp_safe:
  assumes "tiles 0 (f_layers f) off" "off + length data \<le> n"
  shows "dissected n False (dissect_app_tcp ul f data off sport dport)"
  using assms
  by (simp add: dissect_app_tcp_def Let_def dissect_tls_safe dissect_http2_safe dissect_http_safe
      layers_ok_add)

definition has_ws2 :: "bytes \<Rightarrow> bool" where
  "has_ws2 data = (\<exists>i. i + 1 < length data \<and> data ! i = 3 \<and> data ! (i + 1) = 2)"

lemma ends_in_ws2_slice: "slice data a b = Some ob \<Longrightarrow> ends_in_ws2 ob \<Longrightarrow> has_ws2 data"
proof -
  assume s: "slice data a b = Some ob" and "ends_in_ws2 ob"
  then obtain pre where p: "ob = pre @ [3, 2]" by (auto simp: ends_in_ws2_def)
  from s have ob: "ob = take (b - a) (drop a data)" and l: "a \<le> b" "b \<le> length data"
    by (auto simp: slice_def split: if_splits)
  have n: "ob ! i = data ! (a + i)" if "i < length ob" for i
    using that ob l by simp
  have "length pre + 2 = b - a" using p ob l by (metis length_append length_take length_drop
        min.absorb2 diff_le_mono length_Cons list.size(3) numeral_2_eq_2)
  then show ?thesis
    unfolding has_ws2_def
    using n [of "length pre"] n [of "length pre + 1"] p l
    by (intro exI [of _ "a + length pre"]) (simp add: nth_append)
qed

lemma tcp_header_len_bounds:
  assumes "offset + 20 \<le> length data"
  shows "20 \<le> tcp_header_len data offset" "offset + tcp_header_len data offset \<le> length data"
  using assms by (auto simp: tcp_header_len_def Let_def)

lemma tcp_option_field_panic:
  assumes "offset + hlen \<le> length data" "tcp_option_field data offset hlen fs = None"
  shows "has_ws2 data"
proof -
  from assms(2) have h: "20 < hlen" by (auto simp: tcp_option_field_def split: if_splits)
  then have s: "slice data (offset + 20) (offset + hlen)
      = Some (take (hlen - 20) (drop (offset + 20) data))"
    using assms(1) by (simp add: slice_def)
  with assms(2) h have "parse_tcp_options (take (hlen - 20) (drop (offset + 20) data)) = None"
    by (auto simp: tcp_option_field_def bind_eq_None_conv)
  then show ?thesis using ends_in_ws2_slice [OF s] parse_tcp_options_panic by blast
qed

lemma dissect_tcp_safe:
  assumes t: "tiles 0 (f_layers f) off" and n: "length data \<le> n" and off: "off \<le> n"
  shows "dissected n (has_ws2 data) (dissect_tcp ul f data off)"
proof (cases "length data < off + 20")
  case True
  with assms show ?thesis by (auto simp: dissect_tcp_def intro: layers_ok_tiles)
next
  case False
  let ?h = "tcp_header_len data off"
  have h: "20 \<le> ?h" "off + ?h \<le> length data"
    using False tcp_header_len_bounds [of off data] by auto
  have app: "tiles 0 (f_layers g) (off + ?h) \<Longrightarrow>
      dissected n (has_ws2 data)
        (if safe_slice data (off + ?h) (length data) = [] then Some (g, off + ?h)
         else dissect_app_tcp ul g (safe_slice data (off + ?h) (length data)) (off + ?h) sp dp)"
    for g sp dp
    using h n
    by (auto simp: safe_slice_to_end intro: layers_ok_tiles
        intro!: dissected_mono [OF dissect_app_tcp_safe])
  from False tiles_add_layer [OF t] show ?thesis
    unfolding dissect_tcp_def Let_def
    by (auto simp: app intro!: dissected_bind dest: tcp_option_field_panic [OF h(2)])
qed

lemma dissect_app_udp_safe:
  assumes "tiles 0 (f_layers f) off" "off + length data \<le> n" "data \<noteq> []"
  shows "dissected n False (dissect_app_udp f data off sport dport)"
  using assms
  by (simp add: dissect_app_udp_def Let_def dissect_dns_safe dissect_dhcp_safe dissect_quic_safe
      layers_ok_add)

lemma dissect_udp_safe:
  assumes t: "tiles 0 (f_layers f) off" and n: "length data \<le> n" and off: "off \<le> n"
  shows "dissected n False (dissect_udp f data off)"
proof (cases "length data < off + 8")
  case True
  with assms show ?thesis by (auto simp: dissect_udp_def intro: layers_ok_tiles)
next
  case False
  have app: "tiles 0 (f_layers g) (off + 8) \<Longrightarrow>
      dissected n False
        (if safe_slice data (off + 8) (length data) = [] then Some (g, off + 8)
         else dissect_app_udp g (safe_slice data (off + 8) (length data)) (off + 8) sp dp)"
    for g sp dp
    using False n
    by (auto simp: safe_slice_to_end intro: layers_ok_tiles intro!: dissect_app_udp_safe)
  from False tiles_add_layer [OF t] show ?thesis
    unfolding dissect_udp_def Let_def by (simp add: app)
qed

section \<open>Properties\<close>

text \<open>The flag string of a segment names a flag exactly when its bit is set; the detectors and
  the session player search it for these names.\<close>

theorem tcp_flag_string:
  "(contains_sub (tcp_flags flags) ''SYN'' \<longleftrightarrow> flags AND 2 \<noteq> 0) \<and>
   (contains_sub (tcp_flags flags) ''ACK'' \<longleftrightarrow> flags AND 16 \<noteq> 0) \<and>
   (contains_sub (tcp_flags flags) ''RST'' \<longleftrightarrow> flags AND 4 \<noteq> 0) \<and>
   (contains_sub (tcp_flags flags) ''FIN'' \<longleftrightarrow> flags AND 1 \<noteq> 0)"
  by (simp add: tcp_flags_bits)

lemma tcp_options_nops:
  "i \<le> k \<Longrightarrow> tcp_options (replicate k 1 @ [3, 2]) i parts = None"
proof (induction "k - i" arbitrary: i parts)
  case 0
  then have "i = k" by simp
  then show ?case
    by (simp add: tcp_options.simps idx_def nth_append tcp_option_def)
next
  case (Suc m)
  then have i: "i < k" by simp
  then have "tcp_options (replicate k 1 @ [3, 2]) i parts
      = tcp_options (replicate k 1 @ [3, 2]) (i + 1) (parts @ [''NOP''])"
    by (subst tcp_options.simps) (simp add: idx_def nth_append)
  with Suc i show ?case by simp
qed

text \<open>The option walker panics only on options that end in a window-scale option of length 2,
  and it does so on any number of no-operation options followed by one.\<close>

theorem tcp_options_panic_cause:
  "parse_tcp_options (replicate k 1 @ [3, 2]) = None \<and>
   {opts. parse_tcp_options opts = None} \<subseteq> {pre @ [3, 2] |pre. True}"
  using parse_tcp_options_panic tcp_options_nops [of 0 k "[]"]
  by (auto simp: parse_tcp_options_def ends_in_ws2_def)

end
