(* ===== verification/Ip.thy ===== *)
theory Ip
  imports TcpUdp
begin

text \<open>
  \<open>internal/decode/ip.go\<close>: the IPv4 and IPv6 headers, the dispatch on the protocol number,
  ICMP and ICMPv6. The layers added last in \<open>dispatch_ip\<close> span the rest of the packet; its
  callers pass an offset inside the packet, which the safety lemmas assume.
\<close>

definition ip_proto_names :: "(byte \<times> string) list" where
  "ip_proto_names = [(1, ''ICMP''), (2, ''IGMP''), (6, ''TCP''), (17, ''UDP''), (41, ''IPv6''),
     (47, ''GRE''), (50, ''ESP''), (51, ''AH''), (58, ''ICMPv6''), (89, ''OSPF''), (132, ''SCTP'')]"

definition ip_proto_name :: "byte \<Rightarrow> string" where
  "ip_proto_name p =
     (case map_of ip_proto_names p of Some s \<Rightarrow> s | None \<Rightarrow> ''IPPROTO_'' @ dec (unat p))"

lemma ip_proto_name_not_Nil [simp]: "ip_proto_name p \<noteq> []"
  by (auto simp: ip_proto_name_def ip_proto_names_def)

section \<open>ICMP\<close>

definition icmp_type_names :: "(byte \<times> string) list" where
  "icmp_type_names = [(0, ''Echo Reply''), (3, ''Destination Unreachable''), (5, ''Redirect''),
     (8, ''Echo Request''), (11, ''Time Exceeded'')]"

definition icmp_type_name :: "byte \<Rightarrow> string" where
  "icmp_type_name t =
     (case map_of icmp_type_names t of Some s \<Rightarrow> s | None \<Rightarrow> ''type-'' @ dec (unat t))"

definition dissect_icmp :: "frame \<Rightarrow> bytes \<Rightarrow> nat \<Rightarrow> (frame \<times> nat) option" where
  "dissect_icmp f data offset =
     (if length data < offset + 8 then Some (f, offset)
      else do {
        typ \<leftarrow> idx data offset;
        code \<leftarrow> idx data (offset + 1);
        let checksum = u16 data (offset + 2);
        let type_name = icmp_type_name typ;
        let summary = type_name @ '' code='' @ dec (unat code);
        let f = add_layer ''ICMP'' summary
          [(''type'', dec (unat typ) @ '' ('' @ type_name @ '')''), (''code'', dec (unat code)),
           (''checksum'', ''0x'' @ hexw 4 (unat checksum))]
          offset (length data - offset) ''#fb7185'' f;
        Some (f\<lparr>f_protocol := ''ICMP'', f_info := summary\<rparr>, offset + 8)
      })"

definition icmpv6_names :: "(byte \<times> string) list" where
  "icmpv6_names = [(128, ''Echo Request''), (129, ''Echo Reply''), (133, ''Router Solicitation''),
     (134, ''Router Advertisement''), (135, ''Neighbor Solicitation''),
     (136, ''Neighbor Advertisement'')]"

definition dissect_icmpv6 :: "frame \<Rightarrow> bytes \<Rightarrow> nat \<Rightarrow> (frame \<times> nat) option" where
  "dissect_icmpv6 f data offset =
     (if length data < offset + 4 then Some (f, offset)
      else do {
        typ \<leftarrow> idx data offset;
        code \<leftarrow> idx data (offset + 1);
        let name = gget (map_of icmpv6_names) typ;
        let name = (if name = [] then ''type='' @ dec (unat typ) else name);
        let summary = name @ '' code='' @ dec (unat code);
        let f = add_layer ''ICMPv6'' summary
          [(''type'', dec (unat typ)), (''code'', dec (unat code))]
          offset (length data - offset) ''#fb7185'' f;
        Some (f\<lparr>f_protocol := ''ICMPv6'', f_info := summary\<rparr>, offset + 4)
      })"

section \<open>Dispatch and the IP headers\<close>

definition dispatch_ip ::
  "(nat \<Rightarrow> nat) \<Rightarrow> frame \<Rightarrow> bytes \<Rightarrow> nat \<Rightarrow> byte \<Rightarrow> (frame \<times> nat) option" where
  "dispatch_ip ul f data offset proto =
     (let n = length data - offset in
      if proto = 1 then dissect_icmp f data offset
      else if proto = 58 then dissect_icmpv6 f data offset
      else if proto = 6 then dissect_tcp ul f data offset
      else if proto = 17 then dissect_udp f data offset
      else if proto = 47 then
        Some ((add_layer ''GRE'' ''Generic Routing Encapsulation'' [] offset n ''#94a3b8'' f)
                \<lparr>f_protocol := ''GRE''\<rparr>, offset)
      else if proto = 50 then
        Some ((add_layer ''ESP'' ''IPsec ESP'' [] offset n ''#f472b6'' f)
                \<lparr>f_protocol := ''ESP''\<rparr>, offset)
      else
        Some ((add_layer (ip_proto_name proto) (dec n @ '' bytes'') [] offset n ''#64748b'' f)
                \<lparr>f_protocol := ip_proto_name proto\<rparr>, offset))"

definition dissect_ipv4 ::
  "(nat \<Rightarrow> nat) \<Rightarrow> frame \<Rightarrow> bytes \<Rightarrow> nat \<Rightarrow> (frame \<times> nat) option" where
  "dissect_ipv4 ul f data offset =
     (if length data < offset + 20 then Some (f, offset)
      else do {
        ver_ihl \<leftarrow> idx data offset;
        let version = drop_bit 4 ver_ihl;
        let ihl = unat (ver_ihl AND 0x0f) * 4;
        if ihl < 20 \<or> length data < offset + ihl then Some (f, offset)
        else do {
          tos \<leftarrow> idx data (offset + 1);
          let total_len = unat (u16 data (offset + 2));
          let ident = u16 data (offset + 4);
          let flags_frag = u16 data (offset + 6);
          ttl \<leftarrow> idx data (offset + 8);
          proto \<leftarrow> idx data (offset + 9);
          let checksum = u16 data (offset + 10);
          sb \<leftarrow> slice data (offset + 12) (offset + 16);
          db \<leftarrow> slice data (offset + 16) (offset + 20);
          let src = ip_string sb;
          let dst = ip_string db;
          let f = set_endpoints src dst f;
          let df = drop_bit 14 flags_frag AND 1;
          let mf = drop_bit 13 flags_frag AND 1;
          let frag_off = flags_frag AND 0x1fff;
          let proto_name = ip_proto_name proto;
          let summary = src @ '' '' @ arrow @ '' '' @ dst @ '' proto='' @ proto_name
            @ '' ttl='' @ dec (unat ttl);
          let f = add_layer ''IPv4'' summary
            [(''version'', dec (unat version)), (''ihl'', dec ihl),
             (''tos'', ''0x'' @ hexw 2 (unat tos)), (''total_len'', dec total_len),
             (''id'', dec (unat ident)),
             (''flags'', ''DF='' @ dec (unat df) @ '' MF='' @ dec (unat mf)),
             (''frag_off'', dec (unat frag_off)), (''ttl'', dec (unat ttl)),
             (''protocol'', proto_name), (''checksum'', ''0x'' @ hexw 4 (unat checksum)),
             (''src'', src), (''dst'', dst)] offset ihl ''#34d399'' f;
          let f = meta_set ''ip_src'' src f;
          let f = meta_set ''ip_dst'' dst f;
          let f = meta_set ''ip_proto'' proto_name f;
          let f = meta_set ''ttl'' (dec (unat ttl)) f;
          dispatch_ip ul f data (offset + ihl) proto
        }
      })"

definition dissect_ipv6 ::
  "(nat \<Rightarrow> nat) \<Rightarrow> frame \<Rightarrow> bytes \<Rightarrow> nat \<Rightarrow> (frame \<times> nat) option" where
  "dissect_ipv6 ul f data offset =
     (if length data < offset + 40 then Some (f, offset)
      else do {
        let vtf = u32 data offset;
        let version = drop_bit 28 vtf;
        let traffic = drop_bit 20 vtf AND 0xff;
        let flow = vtf AND 0xfffff;
        let payload_len = u16 data (offset + 4);
        nh \<leftarrow> idx data (offset + 6);
        hop \<leftarrow> idx data (offset + 7);
        sb \<leftarrow> slice data (offset + 8) (offset + 24);
        db \<leftarrow> slice data (offset + 24) (offset + 40);
        let src = ip_to_string sb;
        let dst = ip_to_string db;
        let f = set_endpoints src dst f;
        let proto_name = ip_proto_name nh;
        let summary = src @ '' '' @ arrow @ '' '' @ dst @ '' next='' @ proto_name
          @ '' hop='' @ dec (unat hop);
        let f = add_layer ''IPv6'' summary
          [(''version'', dec (unat version)), (''traffic'', dec (unat traffic)),
           (''flow'', ''0x'' @ hex (unat flow)), (''payload_len'', dec (unat payload_len)),
           (''next_header'', proto_name), (''hop_limit'', dec (unat hop)),
           (''src'', src), (''dst'', dst)] offset 40 ''#4ade80'' f;
        let f = meta_set ''ip_src'' src f;
        let f = meta_set ''ip_dst'' dst f;
        let f = meta_set ''ip_proto'' proto_name f;
        dispatch_ip ul f data (offset + 40) nh
      })"

section \<open>Safety\<close>

lemma dissect_icmp_safe:
  assumes "tiles 0 (f_layers f) off" "off \<le> length data"
  shows "dissected (length data) False (dissect_icmp f data off)"
  using assms by (auto simp: dissect_icmp_def Let_def panic_free layers_ok_add intro: layers_ok_tiles)

lemma dissect_icmpv6_safe:
  assumes "tiles 0 (f_layers f) off" "off \<le> length data"
  shows "dissected (length data) False (dissect_icmpv6 f data off)"
  using assms
  by (auto simp: dissect_icmpv6_def Let_def panic_free layers_ok_add intro: layers_ok_tiles)

lemma dispatch_ip_safe:
  assumes "tiles 0 (f_layers f) off" "off \<le> length data"
  shows "dissected (length data) (has_ws2 data) (dispatch_ip ul f data off proto)"
  using assms
  by (simp add: dispatch_ip_def Let_def dissect_tcp_safe layers_ok_add
      dissected_mono [OF dissect_icmp_safe] dissected_mono [OF dissect_icmpv6_safe]
      dissected_mono [OF dissect_udp_safe])

lemma dissect_ipv4_safe:
  assumes t: "tiles 0 (f_layers f) off" and off: "off \<le> length data"
  shows "dissected (length data) (has_ws2 data) (dissect_ipv4 ul f data off)"
proof (cases "length data < off + 20")
  case True
  with assms show ?thesis by (auto simp: dissect_ipv4_def intro: layers_ok_tiles)
next
  case False
  let ?h = "unat (data ! off AND 0x0f) * 4"
  show ?thesis
  proof (cases "?h < 20 \<or> length data < off + ?h")
    case True
    with False t off show ?thesis
      by (auto simp: dissect_ipv4_def Let_def panic_free intro: layers_ok_tiles)
  next
    case h: False
    have t': "tiles 0 (f_layers (set_endpoints s d f)) off" for s d using t by simp
    from False h tiles_add_layer [OF t'] show ?thesis
      by (auto simp: dissect_ipv4_def Let_def panic_free intro!: dispatch_ip_safe)
  qed
qed

lemma dissect_ipv6_safe:
  assumes t: "tiles 0 (f_layers f) off" and off: "off \<le> length data"
  shows "dissected (length data) (has_ws2 data) (dissect_ipv6 ul f data off)"
proof (cases "length data < off + 40")
  case True
  with assms show ?thesis by (auto simp: dissect_ipv6_def intro: layers_ok_tiles)
next
  case False
  have t': "tiles 0 (f_layers (set_endpoints s d f)) off" for s d using t by simp
  from False tiles_add_layer [OF t'] show ?thesis
    by (auto simp: dissect_ipv6_def Let_def panic_free intro!: dispatch_ip_safe)
qed

end
