(* ===== verification/Dissect.thy ===== *)
theory Dissect
  imports Ip
begin

text \<open>
  \<open>internal/decode/eth.go\<close> and \<open>Dissector.Dissect\<close> of \<open>internal/decode/frame.go\<close>: Ethernet
  with its VLAN tags, the two Linux cooked headers, ARP, and the choice of the link layer.
  \<open>dissect\<close> is \<open>None\<close> when the Go code panics. The theorems: a panic needs the bytes 3, 2 (a
  window-scale option of length 2) in the packet; otherwise the layers tile a prefix of the
  packet, the packet's header fields are copied and the protocol is not empty.
\<close>

section \<open>ARP\<close>

definition dissect_arp :: "frame \<Rightarrow> bytes \<Rightarrow> nat \<Rightarrow> (frame \<times> nat) option" where
  "dissect_arp f data offset =
     (if length data < offset + 28 then Some (f, offset)
      else do {
        let hw_type = u16 data offset;
        let proto = u16 data (offset + 2);
        hw_len \<leftarrow> idx data (offset + 4);
        pt_len \<leftarrow> idx data (offset + 5);
        let oper = u16 data (offset + 6);
        b1 \<leftarrow> slice data (offset + 8) (offset + 14);
        b2 \<leftarrow> slice data (offset + 14) (offset + 18);
        b3 \<leftarrow> slice data (offset + 18) (offset + 24);
        b4 \<leftarrow> slice data (offset + 24) (offset + 28);
        let sha = mac_string b1;
        let spa = ip_string b2;
        let tha = mac_string b3;
        let tpa = ip_string b4;
        let op_name = (if oper = 1 then ''request'' else if oper = 2 then ''reply''
                       else ''unknown'');
        let summary = (if oper = 2 then spa @ '' is at '' @ sha
                       else ''Who has '' @ tpa @ ''? Tell '' @ spa);
        let f = set_endpoints spa tpa f;
        let f = f\<lparr>f_src := spa, f_dst := tpa\<rparr>;
        let f = add_layer ''ARP'' summary
          [(''hw_type'', dec (unat hw_type)), (''proto'', ''0x'' @ hexw 4 (unat proto)),
           (''hw_len'', dec (unat hw_len)), (''pt_len'', dec (unat pt_len)),
           (''opcode'', op_name), (''sender_mac'', sha), (''sender_ip'', spa),
           (''target_mac'', tha), (''target_ip'', tpa)] offset 28 ''#fbbf24'' f;
        let f = f\<lparr>f_protocol := ''ARP'', f_info := summary\<rparr>;
        Some (meta_set ''arp_op'' op_name f, offset + 28)
      })"

section \<open>Ethernet\<close>

text \<open>The VLAN loop: it returns the EtherType behind the tags, or \<open>None\<close> when the packet ends
  inside a tag and \<open>dissectEthernet\<close> returns.\<close>

definition vlan_layer :: "frame \<Rightarrow> bytes \<Rightarrow> nat \<Rightarrow> frame" where
  "vlan_layer f data offset =
     (let tci = u16 data offset;
          etype = u16 data (offset + 2);
          vid = tci AND 0x0fff;
          pcp = drop_bit 13 tci AND 0x7;
          f = add_layer ''VLAN''
            (''id='' @ dec (unat vid) @ '' pcp='' @ dec (unat pcp)
             @ '' type=0x'' @ hexw 4 (unat etype))
            [(''vlan_id'', dec (unat vid)), (''priority'', dec (unat pcp)),
             (''ethertype'', ''0x'' @ hexw 4 (unat etype))] offset 4 ''#a78bfa'' f
      in meta_set ''vlan'' (dec (unat vid)) f)"

function vlan_tags :: "frame \<Rightarrow> bytes \<Rightarrow> nat \<Rightarrow> u16 \<Rightarrow> frame \<times> nat \<times> u16 option" where
  "vlan_tags f data offset etype =
     (if etype = 0x8100 \<or> etype = 0x88a8 then
        if length data < offset + 4 then (f, offset, None)
        else vlan_tags (vlan_layer f data offset) data (offset + 4) (u16 data (offset + 2))
      else (f, offset, Some etype))"
  by pat_completeness auto
termination
  by (relation "measure (\<lambda>(f, data, offset, etype). length data - offset)") auto

declare vlan_tags.simps [simp del]

definition dissect_ethernet ::
  "(nat \<Rightarrow> nat) \<Rightarrow> frame \<Rightarrow> bytes \<Rightarrow> nat \<Rightarrow> (frame \<times> nat) option" where
  "dissect_ethernet ul f data offset =
     (if length data < offset + 14 then Some (f, offset)
      else do {
        db \<leftarrow> slice data offset (offset + 6);
        sb \<leftarrow> slice data (offset + 6) (offset + 12);
        let dst = mac_string db;
        let src = mac_string sb;
        let etype = u16 data (offset + 12);
        let f = set_endpoints src dst f;
        let fs = [(''dst'', dst), (''src'', src), (''ethertype'', ''0x'' @ hexw 4 (unat etype))];
        let summary = src @ '' '' @ arrow @ '' '' @ dst @ '' type=0x'' @ hexw 4 (unat etype);
        let f = add_layer ''Ethernet'' summary fs offset 14 ''#22d3ee'' f;
        let (f, offset, et) = vlan_tags f data (offset + 14) etype;
        case et of
          None \<Rightarrow> Some (f, offset)
        | Some etype \<Rightarrow>
            if etype = 0x0800 then dissect_ipv4 ul f data offset
            else if etype = 0x86dd then dissect_ipv6 ul f data offset
            else if etype = 0x0806 then dissect_arp f data offset
            else if etype = 0x88cc then
              Some ((add_layer ''LLDP'' ''Link Layer Discovery'' [] offset (length data - offset)
                       ''#94a3b8'' f)\<lparr>f_protocol := ''LLDP''\<rparr>, offset)
            else
              Some (add_layer ''Payload''
                      (''ethertype=0x'' @ hexw 4 (unat etype) @ '' ('' @ dec (length data - offset)
                       @ '' bytes)'') [] offset (length data - offset) ''#64748b'' f, offset)
      })"

section \<open>Linux cooked captures\<close>

definition sll_payload ::
  "(nat \<Rightarrow> nat) \<Rightarrow> frame \<Rightarrow> bytes \<Rightarrow> nat \<Rightarrow> u16 \<Rightarrow> (frame \<times> nat) option" where
  "sll_payload ul f data offset proto =
     (if proto = 0x0800 then dissect_ipv4 ul f data offset
      else if proto = 0x86dd then dissect_ipv6 ul f data offset
      else if proto = 0x0806 then dissect_arp f data offset
      else Some (f, offset))"

definition dissect_linux_sll ::
  "(nat \<Rightarrow> nat) \<Rightarrow> frame \<Rightarrow> bytes \<Rightarrow> nat \<Rightarrow> (frame \<times> nat) option" where
  "dissect_linux_sll ul f data offset =
     (if length data < offset + 16 then Some (f, offset)
      else
        let pkttype = u16 data offset;
            hatype = u16 data (offset + 2);
            halen = u16 data (offset + 4);
            proto = u16 data (offset + 14);
            f = add_layer ''Linux SLL''
              (''type='' @ dec (unat pkttype) @ '' proto=0x'' @ hexw 4 (unat proto))
              [(''packet_type'', dec (unat pkttype)), (''hatype'', dec (unat hatype)),
               (''halen'', dec (unat halen)), (''protocol'', ''0x'' @ hexw 4 (unat proto))]
              offset 16 ''#67e8f9'' f
        in sll_payload ul f data (offset + 16) proto)"

definition dissect_linux_sll2 ::
  "(nat \<Rightarrow> nat) \<Rightarrow> frame \<Rightarrow> bytes \<Rightarrow> nat \<Rightarrow> (frame \<times> nat) option" where
  "dissect_linux_sll2 ul f data offset =
     (if length data < offset + 20 then Some (f, offset)
      else do {
        let proto = u16 data offset;
        pkttype \<leftarrow> idx data (offset + 10);
        halen \<leftarrow> idx data (offset + 11);
        let f = add_layer ''Linux SLL2''
          (''type='' @ dec (unat pkttype) @ '' proto=0x'' @ hexw 4 (unat proto))
          [(''packet_type'', dec (unat pkttype)), (''halen'', dec (unat halen)),
           (''protocol'', ''0x'' @ hexw 4 (unat proto))] offset 20 ''#67e8f9'' f;
        sll_payload ul f data (offset + 20) proto
      })"

section \<open>The dissector\<close>

record dissector =
  d_include_hex :: bool
  d_max_hex :: int

definition new_dissector :: dissector where
  "new_dissector = \<lparr>d_include_hex = True, d_max_hex = 512\<rparr>"

definition dissect_link ::
  "(nat \<Rightarrow> nat) \<Rightarrow> frame \<Rightarrow> u32 \<Rightarrow> bytes \<Rightarrow> (frame \<times> nat) option" where
  "dissect_link ul f link_type data =
     (if link_type = 1 \<or> link_type = 0 then dissect_ethernet ul f data 0
      else if link_type = 113 then dissect_linux_sll ul f data 0
      else if link_type = 276 then dissect_linux_sll2 ul f data 0
      else if link_type = 101 then
        if data \<noteq> [] then do {
          b \<leftarrow> idx data 0;
          let v = drop_bit 4 b;
          if v = 4 then dissect_ipv4 ul f data 0
          else if v = 6 then dissect_ipv6 ul f data 0
          else Some (f, 0)
        }
        else Some (f, 0)
      else
        Some (add_layer ''Raw''
                (''linktype='' @ dec (unat link_type) @ '' len='' @ dec (length data))
                [(''link_type'', dec (unat link_type))] 0 (length data) ''#64748b'' f, 0))"

definition finish_frame :: "frame \<Rightarrow> frame" where
  "finish_frame f =
     (let f = (if f_protocol f = [] then f\<lparr>f_protocol := top_protocol f\<rparr> else f);
          f = (if f_info f = [] then f\<lparr>f_info := build_info f\<rparr> else f)
      in f\<lparr>f_flow_key := flow_key f\<rparr>)"

definition start_frame :: "dissector \<Rightarrow> u64 \<Rightarrow> gotime \<Rightarrow> u32 \<Rightarrow> u32 \<Rightarrow> bytes \<Rightarrow> frame" where
  "start_frame d no ts cap_len orig_len data =
     (let f = blank_frame no ts cap_len orig_len data;
          n = length data;
          n = (if 0 < d_max_hex d \<and> d_max_hex d < int n then nat (d_max_hex d) else n)
      in if d_include_hex d then f\<lparr>f_hex_dump := hex_dump (take n data) 0\<rparr> else f)"

definition dissect ::
  "(nat \<Rightarrow> nat) \<Rightarrow> dissector \<Rightarrow> u64 \<Rightarrow> gotime \<Rightarrow> u32 \<Rightarrow> u32 \<Rightarrow> u32 \<Rightarrow> bytes \<Rightarrow> frame option"
where
  "dissect ul d no ts cap_len orig_len link_type data = do {
     (f, offset) \<leftarrow> dissect_link ul (start_frame d no ts cap_len orig_len data) link_type data;
     Some (finish_frame f)
   }"

lemma start_frame_fields [simp]:
  "f_layers (start_frame d no ts cl ol data) = []" "f_meta (start_frame d no ts cl ol data) = Map.empty"
  "f_no (start_frame d no ts cl ol data) = no" "f_length (start_frame d no ts cl ol data) = length data"
  "f_timestamp (start_frame d no ts cl ol data) = ts"
  by (simp_all add: start_frame_def blank_frame_def Let_def)

section \<open>Safety\<close>

lemma dissect_arp_safe:
  assumes t: "tiles 0 (f_layers f) off" and off: "off \<le> length data"
  shows "dissected (length data) False (dissect_arp f data off)"
proof (cases "length data < off + 28")
  case True
  with assms show ?thesis by (auto simp: dissect_arp_def intro: layers_ok_tiles)
next
  case False
  have t': "tiles 0 (f_layers (set_endpoints s d f)) off" for s d using t by simp
  from False t' show ?thesis
    by (auto simp: dissect_arp_def Let_def panic_free intro!: layers_ok_add)
qed

lemma vlan_layer_tiles:
  "tiles 0 (f_layers f) off \<Longrightarrow> tiles 0 (f_layers (vlan_layer f data off)) (off + 4)"
  by (simp add: vlan_layer_def Let_def tiles_add_layer)

lemma vlan_tags_ok:
  "vlan_tags f data off etype = (g, off', et) \<Longrightarrow> tiles 0 (f_layers f) off \<Longrightarrow>
   off \<le> length data \<Longrightarrow> tiles 0 (f_layers g) off' \<and> off' \<le> length data"
proof (induction f data off etype rule: vlan_tags.induct)
  case (1 f data off etype)
  show ?case
  proof (cases "(etype = 0x8100 \<or> etype = 0x88a8) \<and> off + 4 \<le> length data")
    case True
    with "1.prems"(1) have "vlan_tags (vlan_layer f data off) data (off + 4) (u16 data (off + 2))
        = (g, off', et)"
      by (subst (asm) vlan_tags.simps) auto
    with "1.IH" "1.prems"(2) True show ?thesis by (simp add: vlan_layer_tiles)
  next
    case False
    with "1.prems" show ?thesis by (subst (asm) vlan_tags.simps) (auto split: if_splits)
  qed
qed

lemma dissect_ethernet_safe:
  assumes t: "tiles 0 (f_layers f) off" and off: "off \<le> length data"
  shows "dissected (length data) (has_ws2 data) (dissect_ethernet ul f data off)"
proof (cases "length data < off + 14")
  case True
  with assms show ?thesis by (auto simp: dissect_ethernet_def intro: layers_ok_tiles)
next
  case False
  have t': "tiles 0 (f_layers (set_endpoints s d f)) off" for s d using t by simp
  note t'' = tiles_add_layer [OF t']
  have pay: "dissected (length data) (has_ws2 data)
      (case r of (g, off', et) \<Rightarrow> case et of None \<Rightarrow> Some (g, off') | Some e \<Rightarrow> h g off' e)"
    if "r = vlan_tags k data (off + 14) etype" "tiles 0 (f_layers k) (off + 14)"
      "\<And>g off' e. tiles 0 (f_layers g) off' \<Longrightarrow> off' \<le> length data \<Longrightarrow>
         dissected (length data) (has_ws2 data) (h g off' e)"
    for r k h etype
    using that vlan_tags_ok [of k data "off + 14" etype] False
    by (auto split: prod.split option.split intro: layers_ok_tiles)
  from False t'' show ?thesis
    unfolding dissect_ethernet_def
    by (auto simp: Let_def panic_free layers_ok_add
        intro!: pay dissect_ipv4_safe dissect_ipv6_safe dissected_mono [OF dissect_arp_safe])
qed

lemma sll_payload_safe:
  assumes "tiles 0 (f_layers f) off" "off \<le> length data"
  shows "dissected (length data) (has_ws2 data) (sll_payload ul f data off proto)"
  using assms
  by (auto simp: sll_payload_def intro: layers_ok_tiles
      intro!: dissect_ipv4_safe dissect_ipv6_safe dissected_mono [OF dissect_arp_safe])

lemma dissect_linux_sll_safe:
  assumes t: "tiles 0 (f_layers f) off" and off: "off \<le> length data"
  shows "dissected (length data) (has_ws2 data) (dissect_linux_sll ul f data off)"
  using assms tiles_add_layer [OF t]
  by (auto simp: dissect_linux_sll_def Let_def intro: layers_ok_tiles intro!: sll_payload_safe)

lemma dissect_linux_sll2_safe:
  assumes t: "tiles 0 (f_layers f) off" and off: "off \<le> length data"
  shows "dissected (length data) (has_ws2 data) (dissect_linux_sll2 ul f data off)"
  using assms tiles_add_layer [OF t]
  by (auto simp: dissect_linux_sll2_def Let_def panic_free intro: layers_ok_tiles
      intro!: sll_payload_safe)

lemma dissect_link_safe:
  assumes "f_layers f = []"
  shows "dissected (length data) (has_ws2 data) (dissect_link ul f link_type data)"
proof -
  have t: "tiles 0 (f_layers f) 0" and ok: "layers_ok (length data) f"
    using assms by (simp_all add: layers_ok_def)
  have [simp]: "idx data 0 = Some (data ! 0)" if "data \<noteq> []" using that by (simp add: idx_def)
  show ?thesis
    using t ok
    by (auto simp: dissect_link_def Let_def layers_ok_add dissect_ethernet_safe
        dissect_linux_sll_safe dissect_linux_sll2_safe dissect_ipv4_safe dissect_ipv6_safe)
qed

text \<open>What the other fields of the finished frame are.\<close>

lemma top_protocol_not_Nil: "tiles a (f_layers f) b \<Longrightarrow> top_protocol f \<noteq> []"
proof -
  have "tiles a ls b \<Longrightarrow> ls \<noteq> [] \<Longrightarrow> l_name (last ls) \<noteq> []" for ls
    by (induction ls arbitrary: a) auto
  then show "tiles a (f_layers f) b \<Longrightarrow> top_protocol f \<noteq> []" by (simp add: top_protocol_def)
qed

lemma finish_frame_layers [simp]: "f_layers (finish_frame f) = f_layers f"
  by (simp add: finish_frame_def Let_def)

lemma finish_frame_protocol: "tiles a (f_layers f) b \<Longrightarrow> f_protocol (finish_frame f) \<noteq> []"
  by (simp add: finish_frame_def Let_def top_protocol_not_Nil)

lemma finish_frame_flow_key: "f_flow_key (finish_frame f) \<noteq> []"
  by (simp add: finish_frame_def Let_def)

lemma dissect_result:
  "case dissect ul d no ts cl ol lt data of
     None \<Rightarrow> has_ws2 data
   | Some f \<Rightarrow> layers_ok (length data) f \<and> f_protocol f \<noteq> [] \<and> f_flow_key f \<noteq> []"
proof -
  have "f_layers (start_frame d no ts cl ol data) = []" by simp
  from dissect_link_safe [OF this, of data ul lt] show ?thesis
    by (cases "dissect_link ul (start_frame d no ts cl ol data) lt data")
      (auto simp: dissect_def dissected_def layers_ok_def finish_frame_protocol finish_frame_flow_key)
qed

section \<open>Properties\<close>

text \<open>C15: dissecting a packet of any link type and any bytes either returns a frame or panics, and
  it can only panic on a packet in which a byte 3 is followed by a byte 2 (a TCP window-scale
  option of length 2).\<close>

theorem dissect_panic_only_ws2:
  assumes "dissect ul d no ts cl ol lt data = None"
  shows "\<exists>i. i + 1 < length data \<and> data ! i = 3 \<and> data ! (i + 1) = 2"
  using dissect_result [where ul = ul and d = d and no = no and ts = ts and cl = cl and ol = ol
      and lt = lt and data = data] assms
  by (simp add: has_ws2_def)

text \<open>A raw IPv4 packet with a TCP header of 24 bytes whose options are 1, 1, 3, 2.\<close>

definition crash_packet :: bytes where
  "crash_packet = [0x45, 0, 0, 44, 0, 0, 0, 0, 64, 6, 0, 0, 10, 0, 0, 1, 10, 0, 0, 2,
     0, 80, 0, 81, 0, 0, 0, 0, 0, 0, 0, 0, 0x60, 2, 0, 0, 0, 0, 0, 0, 1, 1, 3, 2]"

lemma crash_options: "tcp_option_field crash_packet 20 24 fs = None"
  by (simp add: tcp_option_field_def crash_packet_def slice_def parse_tcp_options_def
      tcp_options.simps idx_def tcp_option_def Let_def)

lemma crash_tcp: "dissect_tcp ul f crash_packet 20 = None"
proof -
  have l: "length crash_packet = 44" by (simp add: crash_packet_def)
  have h: "tcp_header_len crash_packet 20 = 24"
    by (simp add: tcp_header_len_def l) (simp add: crash_packet_def u16_def be16_def)
  show ?thesis by (simp add: dissect_tcp_def l h crash_options Let_def)
qed

lemma crash_ipv4: "dissect_ipv4 ul f crash_packet 0 = None"
proof -
  have l: "length crash_packet = 44" by (simp add: crash_packet_def)
  have i: "idx crash_packet 0 = Some 0x45" "idx crash_packet (Suc 0) = Some 0"
    "idx crash_packet 8 = Some 64" "idx crash_packet 9 = Some 6"
    "slice crash_packet 12 16 = Some [10, 0, 0, 1]" "slice crash_packet 16 20 = Some [10, 0, 0, 2]"
    by (simp_all add: crash_packet_def idx_def slice_def)
  show ?thesis by (simp add: dissect_ipv4_def l i dispatch_ip_def crash_tcp Let_def)
qed

lemma crash_link: "dissect_link ul f 101 crash_packet = None"
proof -
  have "crash_packet \<noteq> []" "idx crash_packet 0 = Some 0x45" by (simp_all add: crash_packet_def idx_def)
  then show ?thesis by (simp add: dissect_link_def crash_ipv4 Let_def)
qed

lemma dissect_panic_witness:
  "\<exists>i. i + 1 < length crash_packet \<and> crash_packet ! i = 3 \<and> crash_packet ! (i + 1) = 2"
  by (rule dissect_panic_only_ws2 [of id new_dissector 1 0 44 44 101])
    (simp add: dissect_def crash_link)

text \<open>Such a packet exists: one of 44 bytes crashes the dissector, whatever its other
  arguments.\<close>

theorem crash_packet_panics: "dissect ul d no ts cl ol 101 crash_packet = None"
  by (simp add: dissect_def crash_link)

text \<open>C16: the layers of a dissected frame are non-overlapping, in the order of the bytes, inside
  the packet, and each has a name; the protocol and the flow key of the frame are not empty.\<close>

theorem dissect_layers_tile:
  assumes "dissect ul d no ts cl ol lt data = Some f"
  shows "sorted_wrt (\<lambda>x y. l_offset x + l_length x \<le> l_offset y) (f_layers f) \<and>
    (\<forall>l \<in> set (f_layers f). l_offset l + l_length l \<le> length data \<and> l_name l \<noteq> []) \<and>
    f_protocol f \<noteq> [] \<and> f_flow_key f \<noteq> []"
proof -
  have ok: "layers_ok (length data) f" "f_protocol f \<noteq> []" "f_flow_key f \<noteq> []"
    using dissect_result [where ul = ul and d = d and no = no and ts = ts and cl = cl and ol = ol
        and lt = lt and data = data] assms by simp_all
  then obtain e where "e \<le> length data" "tiles 0 (f_layers f) e" by (auto simp: layers_ok_def)
  then show ?thesis
    using ok(2,3) tiles_sorted tiles_bound tiles_named by (metis (no_types, lifting) order.trans)
qed

lemma dissect_layers_witness:
  "\<exists>f. dissect id new_dissector 1 0 16 16 1 [1, 2, 4, 4, 5, 6, 7, 8, 9, 10, 11, 12, 0x88, 0xcc, 2, 7]
       = Some f \<and>
     sorted_wrt (\<lambda>x y. l_offset x + l_length x \<le> l_offset y) (f_layers f) \<and>
     (\<forall>l \<in> set (f_layers f). l_offset l + l_length l \<le> 16 \<and> l_name l \<noteq> []) \<and>
     f_protocol f \<noteq> [] \<and> f_flow_key f \<noteq> []"
proof -
  let ?p = "[1, 2, 4, 4, 5, 6, 7, 8, 9, 10, 11, 12, 0x88, 0xcc, 2, 7] :: bytes"
  have "3 \<notin> set ?p" by simp
  then have "\<not> has_ws2 ?p" unfolding has_ws2_def by (metis Suc_eq_plus1 Suc_lessD nth_mem)
  then obtain f where f: "dissect id new_dissector 1 0 16 16 1 ?p = Some f"
    using dissect_result [where ul = id and d = new_dissector and no = 1 and ts = 0 and cl = 16
        and ol = 16 and lt = 1 and data = ?p] by (auto split: option.splits)
  have l: "length ?p = 16" by simp
  from dissect_layers_tile [OF f, unfolded l] f show ?thesis by blast
qed

end
