(* ===== verification/Demo.thy ===== *)
theory Demo
  imports Dissect
begin

text \<open>
  The packet generators of \<open>cmd/fluxtap/main.go\<close> (\<open>fluxtap gen\<close>), which write the bytes the
  dissectors read. Where the Go code stores fields into a zeroed buffer, the model lists the
  bytes in order. The theorems are round trips: a DNS name, compressed or not, is read back, a generated
  DNS query frame dissects to that query through all four layers, and the server name of a
  generated ClientHello reaches the frame's metadata.
\<close>

section \<open>Generators\<close>

type_synonym ip4 = "byte \<times> byte \<times> byte \<times> byte"

fun ip4_bytes :: "ip4 \<Rightarrow> bytes" where
  "ip4_bytes (a, b, c, d) = [a, b, c, d]"

definition client_ip :: ip4 where "client_ip = (192, 168, 1, 10)"
definition server_ip :: ip4 where "server_ip = (93, 184, 216, 34)"
definition dns_ip :: ip4 where "dns_ip = (8, 8, 8, 8)"

definition eth_frame :: "u16 \<Rightarrow> bytes \<Rightarrow> bytes" where
  "eth_frame ether_type payload =
     [0xaa, 0xbb, 0xcc, 0xdd, 0xee, 0xff, 0x11, 0x22, 0x33, 0x44, 0x55, 0x66]
     @ put_be16 ether_type @ payload"

definition arp_packet :: "u16 \<Rightarrow> bytes \<Rightarrow> ip4 \<Rightarrow> bytes \<Rightarrow> ip4 \<Rightarrow> bytes" where
  "arp_packet oper sha spa tha tpa =
     put_be16 1 @ put_be16 0x0800 @ [6, 4] @ put_be16 oper
     @ sha @ ip4_bytes spa @ tha @ ip4_bytes tpa"

definition arp_request :: bytes where
  "arp_request = arp_packet 1 [0x11, 0x22, 0x33, 0x44, 0x55, 0x66] client_ip
     [0, 0, 0, 0, 0, 0] server_ip"

definition arp_reply :: bytes where
  "arp_reply = arp_packet 2 [0xaa, 0xbb, 0xcc, 0xdd, 0xee, 0xff] server_ip
     [0x11, 0x22, 0x33, 0x44, 0x55, 0x66] client_ip"

definition ipv4udp :: "ip4 \<Rightarrow> ip4 \<Rightarrow> u16 \<Rightarrow> u16 \<Rightarrow> bytes \<Rightarrow> bytes" where
  "ipv4udp src dst sport dport payload =
     (let udp_len = 8 + length payload; total = 20 + udp_len in
      [0x45, 0] @ put_be16 (word_of_nat total) @ [0, 0, 0, 0, 64, 17, 0, 0]
      @ ip4_bytes src @ ip4_bytes dst
      @ put_be16 sport @ put_be16 dport @ put_be16 (word_of_nat udp_len) @ [0, 0] @ payload)"

definition ipv4tcp :: "ip4 \<Rightarrow> ip4 \<Rightarrow> u16 \<Rightarrow> u16 \<Rightarrow> byte \<Rightarrow> bytes \<Rightarrow> bytes" where
  "ipv4tcp src dst sport dport flags payload =
     (let total = 20 + 20 + length payload in
      [0x45, 0] @ put_be16 (word_of_nat total) @ [0, 0, 0, 0, 64, 6, 0, 0]
      @ ip4_bytes src @ ip4_bytes dst
      @ put_be16 sport @ put_be16 dport @ put_be32 1000 @ put_be32 2000
      @ [0x50, flags] @ put_be16 65535 @ [0, 0, 0, 0] @ payload)"

definition ipv4icmp :: "ip4 \<Rightarrow> ip4 \<Rightarrow> bytes" where
  "ipv4icmp src dst =
     [0x45, 0] @ put_be16 28 @ [0, 0, 0, 0, 64, 1, 0, 0] @ ip4_bytes src @ ip4_bytes dst
     @ [8, 0, 0, 0, 0, 0, 0, 0]"

definition encode_dns_name :: "string \<Rightarrow> bytes" where
  "encode_dns_name name =
     concat (map (\<lambda>p. word_of_nat (length p) # bytes_of p) (split ''.'' name)) @ [0]"

definition dns_query :: "string \<Rightarrow> u16 \<Rightarrow> bytes" where
  "dns_query name qtype =
     [0x12, 0x34, 0x01, 0x00, 0x00, 0x01, 0x00, 0x00, 0x00, 0x00, 0x00, 0x00]
     @ encode_dns_name name @ put_be16 qtype @ put_be16 1"

definition dhcp_discover :: bytes where
  "dhcp_discover =
     [1, 1, 6, 0] @ put_be32 0xdeadbeef @ replicate 20 0
     @ [0x11, 0x22, 0x33, 0x44, 0x55, 0x66] @ replicate 202 0 @ put_be32 0x63825363
     @ [53, 1, 1, 255]"

definition http2_settings :: bytes where
  "http2_settings = [0, 0, 6, 4, 0, 0, 0, 0, 0] @ put_be16 3 @ put_be32 100"

definition build_sni_extension :: "string \<Rightarrow> bytes" where
  "build_sni_extension host =
     (let n = length host in
      put_be16 0 @ put_be16 (word_of_nat (5 + n)) @ put_be16 (word_of_nat (3 + n)) @ [0]
      @ put_be16 (word_of_nat n) @ bytes_of host)"

definition tls_handshake_bytes :: "byte \<Rightarrow> bytes \<Rightarrow> bytes" where
  "tls_handshake_bytes ht body =
     [ht, word_of_nat (length body div 65536), word_of_nat (length body div 256),
      word_of_nat (length body)] @ body"

definition hello_prefix :: bytes where
  "hello_prefix = [3, 3] @ replicate 32 0 @ [0] @ put_be16 10
     @ concat (map put_be16 [0x1301, 0x1302, 0xc02f, 0xc030, 0x009c]) @ [1, 0]"

definition tls_client_hello :: "string \<Rightarrow> bytes" where
  "tls_client_hello sni =
     (let exts = build_sni_extension sni @ [0x00, 0x0a, 0x00, 0x04, 0x00, 0x02, 0x00, 0x17]
            @ [0x00, 0x0b, 0x00, 0x02, 0x01, 0x00];
          hs = tls_handshake_bytes 1 (hello_prefix @ put_be16 (word_of_nat (length exts)) @ exts)
      in [22, 3, 1] @ put_be16 (word_of_nat (length hs)) @ hs)"

definition tls_server_hello :: bytes where
  "tls_server_hello =
     (let hs = tls_handshake_bytes 2 ([3, 3] @ replicate 32 0 @ [0, 0xc0, 0x2f, 0])
      in [22, 3, 3] @ put_be16 (word_of_nat (length hs)) @ hs)"

definition tls_app_data :: "nat \<Rightarrow> bytes" where
  "tls_app_data n = [23, 3, 3] @ put_be16 (word_of_nat n) @ map word_of_nat [0..<n]"

section \<open>DNS names\<close>

text \<open>A name the reader takes whole: its labels are not empty, shorter than the pointer marker
  192, and few enough for the 64 iterations.\<close>

definition dns_name_ok :: "string \<Rightarrow> bool" where
  "dns_name_ok name = (let ls = split ''.'' name in
     length ls < 64 \<and> list_all (\<lambda>l. l \<noteq> [] \<and> length l < 192) ls)"

text \<open>The names of a message as RFC 1035 has them: the root, a label in front of a name, and a pointer
  to a name elsewhere; \<open>n\<close> counts the labels and pointers, \<open>stop\<close> is the position behind the name.\<close>

definition bytes_at :: "bytes \<Rightarrow> nat \<Rightarrow> bytes \<Rightarrow> bool" where
  "bytes_at data pos bs = (take (length bs) (drop pos data) = bs)"

inductive wire_name :: "bytes \<Rightarrow> nat \<Rightarrow> nat \<Rightarrow> string list \<Rightarrow> nat \<Rightarrow> bool" for data where
  root: "bytes_at data pos [0] \<Longrightarrow> wire_name data pos 0 [] (pos + 1)"
| label: "l \<noteq> [] \<Longrightarrow> length l < 192 \<Longrightarrow> bytes_at data pos (word_of_nat (length l) # bytes_of l) \<Longrightarrow>
    wire_name data (pos + 1 + length l) n ls stop \<Longrightarrow> wire_name data pos (Suc n) (l # ls) stop"
| pointer: "target < 2 ^ 14 \<Longrightarrow> bytes_at data pos (put_be16 (0xC000 + word_of_nat target)) \<Longrightarrow>
    wire_name data target n ls stop \<Longrightarrow> wire_name data pos (Suc n) ls (pos + 2)"

lemma bytes_at_append: "bytes_at (pre @ bs @ post) (length pre) bs"
  by (simp add: bytes_at_def)

lemma bytes_at_split:
  assumes "bytes_at data pos bs" "bs \<noteq> []"
  obtains pre post where "data = pre @ bs @ post" "length pre = pos"
proof -
  have "drop pos data \<noteq> []" using assms by (auto simp: bytes_at_def)
  then have "length (take pos data) = pos" by simp
  moreover have "data = take pos data @ bs @ drop (length bs) (drop pos data)"
    using assms(1) unfolding bytes_at_def by (metis append_take_drop_id)
  ultimately show ?thesis by (rule that [rotated])
qed

lemma rdn_label:
  assumes "l \<noteq> []" "length l < 192" "bytes_at data pos (word_of_nat (length l) # bytes_of l)"
  shows "rdn data (Suc k) pos start jumped parts = rdn data k (pos + 1 + length l) start jumped (parts @ [l])"
proof -
  from assms(3) obtain pre post where
    d: "data = pre @ (word_of_nat (length l) # bytes_of l) @ post" and p: "length pre = pos"
    by (rule bytes_at_split) simp
  have n: "unat (word_of_nat (length l) :: byte) = length l"
    using assms(2) by (intro unat_of_nat_byte) simp
  have c0: "(word_of_nat (length l) :: byte) AND 0xC0 \<noteq> 0xC0"
    using assms(2) n by (simp add: byte_c0)
  have i: "idx data pos = Some (word_of_nat (length l))"
    by (simp add: idx_def d p [symmetric])
  have s: "slice data (pos + 1) (pos + 1 + length l) = Some (bytes_of l)"
    by (simp add: slice_def d p [symmetric])
  have "\<not> length data \<le> pos" "\<not> length data < pos + 1 + length l" by (simp_all add: d p [symmetric])
  then show ?thesis using assms(1) n c0 i s by (simp add: Let_def)
qed

lemma pointer_bytes:
  assumes "target < 2 ^ 14"
  shows "put_be16 (0xC000 + word_of_nat target) ! 0 AND 0xC0 = 0xC0"
    "unat (((0xC000 + word_of_nat target) :: u16) AND 0x3FFF) = target"
proof -
  let ?w = "(0xC000 + word_of_nat target) :: u16"
  have "?w = word_of_nat (0xC000 + target)" by simp
  then have w: "unat ?w = 0xC000 + target" using assms by (simp only:) (rule unat_of_nat_u16, simp)
  have "unat (put_be16 ?w ! 0) = unat ?w div 256"
    using assms by (simp add: put_be16_def w unat_of_nat_byte)
  then show "put_be16 ?w ! 0 AND 0xC0 = 0xC0" by (simp add: byte_c0 w)
  have "?w AND 0x3FFF = take_bit 14 ?w" by (simp add: take_bit_eq_mask mask_eq_exp_minus_1)
  then have "unat (?w AND 0x3FFF) = take_bit 14 (unat ?w)" by (simp add: unsigned_take_bit_eq)
  also have "\<dots> = (3 * 2 ^ 14 + target) mod 2 ^ 14" by (simp add: w take_bit_eq_mod)
  also have "\<dots> = target" using assms by (simp only: mod_mult_self3) simp
  finally show "unat (?w AND 0x3FFF) = target" .
qed

lemma rdn_pointer:
  assumes "target < 2 ^ 14" "bytes_at data pos (put_be16 (0xC000 + word_of_nat target))"
  shows "rdn data (Suc k) pos start jumped parts = rdn data k target (if jumped then start else pos + 2) True parts"
proof -
  let ?w = "(0xC000 + word_of_nat target) :: u16"
  from assms(2) obtain pre post where d: "data = pre @ put_be16 ?w @ post" and p: "length pre = pos"
    by (rule bytes_at_split) (simp add: put_be16_def)
  have i: "idx data pos = Some (put_be16 ?w ! 0)"
    by (simp add: idx_def d p [symmetric] nth_append)
  have u: "u16 data pos = ?w" unfolding d by (rule u16_put) (simp add: p)
  have "\<not> length data \<le> pos" "\<not> length data \<le> pos + 1" by (simp_all add: d p [symmetric])
  moreover have "unat (put_be16 ?w ! 0) \<noteq> 0"
    using pointer_bytes(1) [OF assms(1)] by (simp add: byte_c0)
  ultimately show ?thesis using pointer_bytes [OF assms(1)] i u by (simp add: Let_def)
qed

lemma rdn_wire_name:
  "wire_name data pos n ls stop \<Longrightarrow> n < k \<Longrightarrow>
   \<exists>p s j. rdn data k pos start jumped parts = Some (parts @ ls, p, s, j) \<and>
     (if j then s else p) = (if jumped then start else stop)"
proof (induction arbitrary: k start jumped parts rule: wire_name.induct)
  case (root pos)
  then obtain k' where "k = Suc k'" by (cases k) auto
  moreover obtain pre post where "data = pre @ [0] @ post" "length pre = pos"
    using root.hyps by (rule bytes_at_split) simp
  ultimately have "rdn data k pos start jumped parts = Some (parts @ [], pos + 1, start, jumped)"
    by (auto simp: idx_def)
  then show ?case by (intro exI conjI) simp_all
next
  case (label l pos n ls stop)
  then obtain k' where k: "k = Suc k'" "n < k'" by (cases k) auto
  show ?case
    using label.IH [OF k(2), of start jumped "parts @ [l]"]
    unfolding k(1) rdn_label [OF label.hyps(1-3)] by simp
next
  case (pointer target pos n ls stop)
  then obtain k' where k: "k = Suc k'" "n < k'" by (cases k) auto
  show ?case
    using pointer.IH [OF k(2), of "if jumped then start else pos + 2" True parts]
    unfolding k(1) rdn_pointer [OF pointer.hyps(1,2)] by simp
qed

lemma read_wire_name:
  assumes "wire_name data pos n ls stop" "n < 64"
  shows "read_dns_name data pos = Some (join ''.'' ls, stop)"
  using rdn_wire_name [OF assms, of pos False "[]"] by (auto simp: read_dns_name_def)

definition label_bytes :: "string list \<Rightarrow> bytes" where
  "label_bytes ls = concat (map (\<lambda>p. word_of_nat (length p) # bytes_of p) ls)"

lemma label_bytes_Cons: "label_bytes (l # ls) = (word_of_nat (length l) # bytes_of l) @ label_bytes ls"
  by (simp add: label_bytes_def)

lemma wire_labels:
  "list_all (\<lambda>l. l \<noteq> [] \<and> length l < 192) ls \<Longrightarrow>
   wire_name (pre @ label_bytes ls @ 0 # post) (length pre) (length ls) ls (length pre + length (label_bytes ls) + 1)"
proof (induction ls arbitrary: pre)
  case Nil
  have "bytes_at (pre @ [0] @ post) (length pre) [0]" by (rule bytes_at_append)
  from wire_name.root [OF this] show ?case by (simp add: label_bytes_def)
next
  case (Cons l ls)
  let ?b = "word_of_nat (length l) # bytes_of l"
  have "wire_name ((pre @ ?b) @ label_bytes ls @ 0 # post) (length (pre @ ?b)) (length ls) ls
      (length (pre @ ?b) + length (label_bytes ls) + 1)"
    using Cons.IH [of "pre @ ?b"] Cons.prems by simp
  then have "wire_name (pre @ ?b @ label_bytes ls @ 0 # post) (length pre + 1 + length l) (length ls) ls
      (length pre + length (label_bytes (l # ls)) + 1)"
    by (simp add: label_bytes_Cons add.assoc)
  from wire_name.label [OF _ _ bytes_at_append this] Cons.prems show ?case
    by (simp add: label_bytes_Cons)
qed

lemma read_encoded_name:
  assumes "dns_name_ok name"
  shows "read_dns_name (pre @ encode_dns_name name @ post) (length pre)
    = Some (name, length pre + length (encode_dns_name name))"
  using assms read_wire_name [OF wire_labels [of "split ''.'' name" pre post]] join_split [of "''.''" name]
  by (simp add: encode_dns_name_def dns_name_ok_def Let_def flip: label_bytes_def)

text \<open>A name of more labels is cut: the reader stops behind the first 64 of them.\<close>

lemma rdn_cut:
  "length ls = k \<Longrightarrow> list_all (\<lambda>l. l \<noteq> [] \<and> length l < 192) ls \<Longrightarrow>
   rdn (pre @ label_bytes ls @ post) k (length pre) start jumped parts
     = Some (parts @ ls, length pre + length (label_bytes ls), start, jumped)"
proof (induction ls arbitrary: k pre parts)
  case (Cons l ls)
  let ?b = "word_of_nat (length l) # bytes_of l"
  have "rdn ((pre @ ?b) @ label_bytes ls @ post) (length ls) (length (pre @ ?b)) start jumped (parts @ [l])
      = Some ((parts @ [l]) @ ls, length (pre @ ?b) + length (label_bytes ls), start, jumped)"
    using Cons by (intro Cons.IH) simp_all
  moreover have "rdn (pre @ ?b @ label_bytes ls @ post) (Suc (length ls)) (length pre) start jumped parts
      = rdn (pre @ ?b @ label_bytes ls @ post) (length ls) (length pre + 1 + length l) start jumped (parts @ [l])"
    using Cons.prems by (intro rdn_label bytes_at_append) auto
  ultimately show ?case using Cons.prems(1) by (auto simp: label_bytes_Cons add.assoc)
qed (simp add: label_bytes_def)

lemma read_long_name:
  assumes "list_all (\<lambda>l. l \<noteq> [] \<and> length l < 192) (split ''.'' name)" "64 \<le> length (split ''.'' name)"
  shows "read_dns_name (pre @ encode_dns_name name @ post) (length pre)
    = Some (join ''.'' (take 64 (split ''.'' name)), length pre + length (label_bytes (take 64 (split ''.'' name))))"
proof -
  let ?ls = "split ''.'' name"
  have "label_bytes (take 64 ?ls) @ label_bytes (drop 64 ?ls) = label_bytes ?ls"
    unfolding label_bytes_def by (simp flip: concat_append map_append)
  then have e: "encode_dns_name name @ post = label_bytes (take 64 ?ls) @ label_bytes (drop 64 ?ls) @ 0 # post"
    by (simp add: encode_dns_name_def flip: label_bytes_def)
  have "list_all (\<lambda>l. l \<noteq> [] \<and> length l < 192) (take 64 ?ls)"
    using assms(1) by (auto simp: list_all_iff dest: in_set_takeD)
  then show ?thesis
    unfolding read_dns_name_def e using assms(2) by (subst rdn_cut) simp_all
qed

section \<open>A DNS query through the stack\<close>

lemma dns_questions_query:
  assumes "dns_name_ok name"
  shows "dns_questions (dns_query name qtype) (Suc 0) 12 [] f
    = Some (length (dns_query name qtype), [dns_type_name qtype @ '' '' @ name],
        meta_set ''dns_qtype'' (dns_type_name qtype) (meta_set ''dns_qry'' name f))"
proof -
  let ?h = "[0x12, 0x34, 0x01, 0x00, 0x00, 0x01, 0x00, 0x00, 0x00, 0x00, 0x00, 0x00] :: bytes"
  let ?e = "encode_dns_name name"
  have h: "length ?h = 12" by simp
  have r: "read_dns_name (dns_query name qtype) 12 = Some (name, 12 + length ?e)"
    using read_encoded_name [OF assms, of ?h "put_be16 qtype @ put_be16 1"]
    unfolding h dns_query_def .
  have q: "u16 (dns_query name qtype) (12 + length ?e) = qtype"
    using u16_put [of "12 + length ?e" "?h @ ?e" qtype "put_be16 1"] by (simp add: dns_query_def)
  have l: "length (dns_query name qtype) = 16 + length ?e" by (simp add: dns_query_def)
  show ?thesis using r q l by simp
qed

lemma dissect_dns_query:
  assumes "dns_name_ok name"
  shows "\<exists>g. dissect_dns f (dns_query name qtype) off False
      = Some (g, off + length (dns_query name qtype)) \<and>
    f_protocol g = ''DNS'' \<and> f_info g = ''query '' @ dns_type_name qtype @ '' '' @ name \<and>
    f_meta g = (f_meta f)(''dns_qry'' \<mapsto> name, ''dns_qtype'' \<mapsto> dns_type_name qtype) \<and>
    map l_name (f_layers g) = map l_name (f_layers f) @ [''DNS''] \<and>
    f_src g = f_src f \<and> f_dst g = f_dst f"
proof -
  let ?d = "dns_query name qtype"
  have u: "u16 ?d 2 = 0x0100" "u16 ?d 4 = 1" "u16 ?d 6 = 0" "12 \<le> length ?d"
    by (simp_all add: dns_query_def u16_def be16_def)
  show ?thesis
    using u dns_questions_query [OF assms, of qtype f]
    by (simp add: dissect_dns_def Let_def add_layer_def not_less)
qed

lemma dissect_udp_payload:
  assumes "payload \<noteq> []"
  shows "\<exists>g. dissect_udp f (pre @ put_be16 sp @ put_be16 dp @ put_be16 n @ put_be16 ck @ payload) (length pre)
      = dissect_app_udp g payload (length pre + 8) sp dp \<and>
    map l_name (f_layers g) = map l_name (f_layers f) @ [''UDP''] \<and>
    f_meta g = (f_meta f)(''sport'' \<mapsto> dec (unat sp), ''dport'' \<mapsto> dec (unat dp)) \<and>
    f_src g = f_src f \<and> f_dst g = f_dst f"
proof -
  let ?d = "pre @ put_be16 sp @ put_be16 dp @ put_be16 n @ put_be16 ck @ payload"
  have u: "u16 ?d (length pre) = sp" "u16 ?d (length pre + 2) = dp"
    using u16_put [of "length pre" pre sp] u16_put [of "length pre + 2" "pre @ put_be16 sp" dp]
    by simp_all
  have s: "safe_slice ?d (length pre + 8) (length ?d) = payload"
    unfolding safe_slice_to_end by simp
  show ?thesis
    using assms u s
    by (simp add: dissect_udp_def Let_def)
      (rule exI, rule conjI, rule refl, simp add: add_layer_def)
qed

lemma dissect_ipv4_udp:
  "\<exists>g. dissect_ipv4 ul f (pre @ ipv4udp src dst sp dp payload) (length pre)
      = dissect_udp g (pre @ ipv4udp src dst sp dp payload) (length pre + 20) \<and>
    map l_name (f_layers g) = map l_name (f_layers f) @ [''IPv4''] \<and>
    f_meta g = (f_meta f)(''ip_src'' \<mapsto> ip_string (ip4_bytes src), ''ip_dst'' \<mapsto> ip_string (ip4_bytes dst),
      ''ip_proto'' \<mapsto> ''UDP'', ''ttl'' \<mapsto> ''64'') \<and>
    f_src g = ip_string (ip4_bytes src) \<and> f_dst g = ip_string (ip4_bytes dst)"
proof -
  let ?d = "pre @ ipv4udp src dst sp dp payload"
  obtain a b c d where src: "src = (a, b, c, d)" by (metis prod_cases4)
  obtain e g h i where dst: "dst = (e, g, h, i)" by (metis prod_cases4)
  have dec64: "dec 64 = ''64''" by (simp add: dec.simps digit_char_def)
  have i: "idx ?d (length pre) = Some 0x45" "idx ?d (length pre + 1) = Some 0"
    "idx ?d (length pre + 8) = Some 64" "idx ?d (length pre + 9) = Some 17"
    "slice ?d (length pre + 12) (length pre + 16) = Some (ip4_bytes src)"
    "slice ?d (length pre + 16) (length pre + 20) = Some (ip4_bytes dst)"
    "length pre + 20 \<le> length ?d"
    by (simp_all add: ipv4udp_def Let_def idx_def slice_def src dst put_be16_def nth_append)
  have ihl: "unat ((0x45 :: byte) AND 0x0f) * 4 = 20" by simp
  have name: "ip_proto_name 17 = ''UDP''" by (simp add: ip_proto_name_def ip_proto_names_def)
  show ?thesis
    using i
    by (simp add: dissect_ipv4_def dispatch_ip_def ihl name dec64 Let_def del: One_nat_def)
      (rule exI, rule conjI, rule refl, simp add: add_layer_def)
qed

definition eth_header :: "u16 \<Rightarrow> bytes" where
  "eth_header ether_type = eth_frame ether_type []"

lemma eth_frame_split: "eth_frame et p = eth_header et @ p" "length (eth_header et) = 14"
  by (simp_all add: eth_frame_def eth_header_def)

lemma dissect_ethernet_ipv4:
  "\<exists>g. dissect_ethernet ul f (eth_frame 0x0800 p) 0 = dissect_ipv4 ul g (eth_frame 0x0800 p) 14 \<and>
    map l_name (f_layers g) = map l_name (f_layers f) @ [''Ethernet''] \<and> f_meta g = f_meta f"
proof -
  let ?d = "eth_frame 0x0800 p"
  have i: "slice ?d 0 6 = Some [0xaa, 0xbb, 0xcc, 0xdd, 0xee, 0xff]"
    "slice ?d 6 12 = Some [0x11, 0x22, 0x33, 0x44, 0x55, 0x66]" "14 \<le> length ?d"
    by (simp_all add: eth_frame_def slice_def)
  have u: "u16 ?d 12 = 0x0800" by (simp add: eth_frame_def u16_def put_be16_def be16_def)
  show ?thesis
    using i
    by (simp add: dissect_ethernet_def u Let_def vlan_tags.simps)
      (rule exI, rule conjI, rule refl, simp add: add_layer_def set_endpoints_def)
qed

lemma dissect_dns_query_frame:
  assumes "dns_name_ok name" "sp \<noteq> 5353"
  shows "\<exists>g off. dissect_link ul (start_frame d no ts cl ol p) 1
      (eth_frame 0x0800 (ipv4udp src dst sp 53 (dns_query name qtype))) = Some (g, off) \<and>
    map l_name (f_layers g) = [''Ethernet'', ''IPv4'', ''UDP'', ''DNS''] \<and>
    f_protocol g = ''DNS'' \<and> f_info g = ''query '' @ dns_type_name qtype @ '' '' @ name \<and>
    f_src g = ip_string (ip4_bytes src) \<and> f_dst g = ip_string (ip4_bytes dst) \<and>
    f_meta g = [''ip_src'' \<mapsto> ip_string (ip4_bytes src), ''ip_dst'' \<mapsto> ip_string (ip4_bytes dst),
      ''ip_proto'' \<mapsto> ''UDP'', ''ttl'' \<mapsto> ''64'', ''sport'' \<mapsto> dec (unat sp), ''dport'' \<mapsto> dec 53,
      ''dns_qry'' \<mapsto> name, ''dns_qtype'' \<mapsto> dns_type_name qtype]"
proof -
  let ?q = "dns_query name qtype" and ?f = "start_frame d no ts cl ol p"
  let ?ip = "ipv4udp src dst sp 53 ?q"
  let ?d = "eth_frame 0x0800 ?ip"
  obtain g1 where g1: "dissect_ethernet ul ?f ?d 0 = dissect_ipv4 ul g1 ?d 14"
    "map l_name (f_layers g1) = [''Ethernet'']" "f_meta g1 = Map.empty"
    using dissect_ethernet_ipv4 [of ul ?f ?ip] by auto
  obtain g2 where g2: "dissect_ipv4 ul g1 ?d 14 = dissect_udp g2 ?d 34"
    "map l_name (f_layers g2) = [''Ethernet'', ''IPv4'']"
    "f_meta g2 = [''ip_src'' \<mapsto> ip_string (ip4_bytes src), ''ip_dst'' \<mapsto> ip_string (ip4_bytes dst),
      ''ip_proto'' \<mapsto> ''UDP'', ''ttl'' \<mapsto> ''64'']"
    "f_src g2 = ip_string (ip4_bytes src)" "f_dst g2 = ip_string (ip4_bytes dst)"
    using dissect_ipv4_udp [of ul g1 "eth_header 0x0800" src dst sp 53 ?q] g1(2,3)
    by (auto simp: eth_frame_split)
  let ?pre = "eth_header 0x0800 @ take 20 ?ip"
  have pre: "?d = ?pre @ put_be16 sp @ put_be16 53 @ put_be16 (word_of_nat (8 + length ?q))
      @ put_be16 0 @ ?q" "length ?pre = 34"
    by (cases src; cases dst; simp add: eth_frame_split ipv4udp_def Let_def put_be16_def)+
  have ne: "?q \<noteq> []" by (simp add: dns_query_def)
  obtain g3 where g3: "dissect_udp g2 ?d 34 = dissect_app_udp g3 ?q 42 sp 53"
    "map l_name (f_layers g3) = [''Ethernet'', ''IPv4'', ''UDP'']"
    "f_meta g3 = (f_meta g2)(''sport'' \<mapsto> dec (unat sp), ''dport'' \<mapsto> dec 53)"
    "f_src g3 = f_src g2" "f_dst g3 = f_dst g2"
    using dissect_udp_payload [OF ne, of g2 ?pre sp 53 "word_of_nat (8 + length ?q)" 0] g2(2)
    unfolding pre(1) [symmetric] pre(2) by auto
  have "dissect_app_udp g3 ?q 42 sp 53 = dissect_dns g3 ?q 42 False"
    using assms(2) by (simp add: dissect_app_udp_def)
  with dissect_dns_query [OF assms(1), of g3 qtype 42] g1 g2 g3 show ?thesis
    by (auto simp: dissect_link_def)
qed

section \<open>A ClientHello\<close>

text \<open>One extension in front of the rest of the message.\<close>

lemma u16_at: "i = length a \<Longrightarrow> u16 (a @ put_be16 w @ b) i = w"
  by (rule u16_put)

lemma ch_exts_step:
  assumes "body = pre @ put_be16 eid @ put_be16 (word_of_nat n) @ x @ post" "length x = n"
    "n < 65536" "p = length pre" "q = p + 4 + n"
  shows "ch_exts body (length body) p ids sni fs = do {
      (sni, fs) \<leftarrow> ch_sni body (p + 4) eid n sni fs;
      fs \<leftarrow> ch_versions body (p + 4) eid n fs;
      ch_exts body (length body) q (ids @ [dec (unat eid)]) sni fs
    }"
proof -
  have "u16 body p = eid" "u16 body (p + 2) = word_of_nat n"
    using u16_put [of p pre eid] u16_put [of "p + 2" "pre @ put_be16 eid" "word_of_nat n"] assms
    by simp_all
  moreover have "unat (word_of_nat n :: u16) = n" using assms(3) by (rule unat_of_nat_u16)
  moreover have "p + 4 + n \<le> length body" using assms by simp
  ultimately show ?thesis
    by (subst ch_exts.simps) (simp add: Let_def assms(5) add.assoc)
qed

lemma ja3_exts_step:
  assumes "body = pre @ put_be16 eid @ put_be16 (word_of_nat n) @ x @ post" "length x = n"
    "n < 65536" "p = length pre" "q = p + 4 + n"
  shows "ja3_exts body (length body) p exts curves points = do {
      ps \<leftarrow> ja3_points body (p + 4) eid n;
      ja3_exts body (length body) q (if is_grease eid then exts else exts @ [dec (unat eid)])
        (curves @ ja3_groups body (p + 4) eid n) (points @ ps)
    }"
proof -
  have "u16 body p = eid" "u16 body (p + 2) = word_of_nat n"
    using u16_put [of p pre eid] u16_put [of "p + 2" "pre @ put_be16 eid" "word_of_nat n"] assms
    by simp_all
  moreover have "unat (word_of_nat n :: u16) = n" using assms(3) by (rule unat_of_nat_u16)
  moreover have "p + 4 + n \<le> length body" using assms by simp
  ultimately show ?thesis
    by (subst ja3_exts.simps) (simp add: Let_def assms(5) add.assoc)
qed

definition hello_exts :: "string \<Rightarrow> bytes" where
  "hello_exts host = build_sni_extension host @ [0x00, 0x0a, 0x00, 0x04, 0x00, 0x02, 0x00, 0x17]
     @ [0x00, 0x0b, 0x00, 0x02, 0x01, 0x00]"

definition hello_body :: "string \<Rightarrow> bytes" where
  "hello_body host = hello_prefix @ put_be16 (word_of_nat (length (hello_exts host))) @ hello_exts host"

lemma length_hello_exts: "length (hello_exts host) = 23 + length host"
  by (simp add: hello_exts_def build_sni_extension_def Let_def)

lemma length_hello_prefix: "length hello_prefix = 49"
  by (simp add: hello_prefix_def)

text \<open>The three extensions of the generated message, as splits of its body.\<close>

lemma hello_body_splits:
  fixes host
  defines "n \<equiv> length host"
  shows "hello_body host = (hello_prefix @ put_be16 (word_of_nat (23 + n))) @ put_be16 0
      @ put_be16 (word_of_nat (5 + n))
      @ (put_be16 (word_of_nat (3 + n)) @ [0] @ put_be16 (word_of_nat n) @ bytes_of host)
      @ [0x00, 0x0a, 0x00, 0x04, 0x00, 0x02, 0x00, 0x17, 0x00, 0x0b, 0x00, 0x02, 0x01, 0x00]"
    and "hello_body host = (hello_prefix @ put_be16 (word_of_nat (23 + n)) @ build_sni_extension host)
      @ put_be16 10 @ put_be16 (word_of_nat 4) @ [0x00, 0x02, 0x00, 0x17]
      @ [0x00, 0x0b, 0x00, 0x02, 0x01, 0x00]"
    and "hello_body host = (hello_prefix @ put_be16 (word_of_nat (23 + n)) @ build_sni_extension host
        @ [0x00, 0x0a, 0x00, 0x04, 0x00, 0x02, 0x00, 0x17])
      @ put_be16 11 @ put_be16 (word_of_nat 2) @ [0x01, 0x00] @ []"
  by (simp_all add: hello_body_def length_hello_exts hello_exts_def build_sni_extension_def
      put_be16_def n_def Let_def)

lemma length_hello_body: "length (hello_body host) = length host + 74"
  by (simp add: hello_body_def length_hello_exts length_hello_prefix)

lemma hello_ch_exts:
  assumes "length host \<le> 60000"
  shows "ch_exts (hello_body host) (length (hello_body host)) 51 [] sni fs
    = Some ([dec 0, dec 10, dec 11], host, fset ''server_name'' host fs)"
proof -
  let ?b = "hello_body host" and ?n = "length host"
  note s = hello_body_splits [of host]
  have l: "length (build_sni_extension host) = ?n + 9"
    by (simp add: build_sni_extension_def Let_def)
  have n: "u16 ?b 58 = word_of_nat ?n"
    unfolding s(1) using u16_put [of 58 "hello_prefix @ put_be16 (word_of_nat (23 + ?n)) @ put_be16 0
      @ put_be16 (word_of_nat (5 + ?n)) @ put_be16 (word_of_nat (3 + ?n)) @ [0]" "word_of_nat ?n"]
    by (simp add: length_hello_prefix)
  have un: "unat (word_of_nat ?n :: u16) = ?n" using assms by (intro unat_of_nat_u16) simp
  have sl: "slice ?b 60 (60 + ?n) = Some (bytes_of host)"
    unfolding s(1) by (simp add: slice_def length_hello_prefix)
  have sni: "ch_sni ?b 55 0 (5 + ?n) x g = Some (host, fset ''server_name'' host g)" for x g
    using n un sl by (simp add: ch_sni_def Let_def)
  have e: "ch_exts ?b (length ?b) 51 [] sni fs
      = ch_exts ?b (length ?b) (60 + ?n) [dec 0] host (fset ''server_name'' host fs)"
    using assms sni
    by (subst ch_exts_step [OF s(1), where p = 51 and q = "60 + ?n"])
      (simp_all add: length_hello_prefix ch_versions_def)
  have e2: "ch_exts ?b (length ?b) (60 + ?n) ids v g = ch_exts ?b (length ?b) (68 + ?n) (ids @ [dec 10]) v g"
    for ids v g
    by (subst ch_exts_step [OF s(2), where p = "60 + ?n" and q = "68 + ?n"])
      (simp_all add: length_hello_prefix l ch_versions_def ch_sni_def)
  have e3: "ch_exts ?b (length ?b) (68 + ?n) ids v g = ch_exts ?b (length ?b) (74 + ?n) (ids @ [dec 11]) v g"
    for ids v g
    by (subst ch_exts_step [OF s(3), where p = "68 + ?n" and q = "74 + ?n"])
      (simp_all add: length_hello_prefix l ch_versions_def ch_sni_def)
  have e4: "ch_exts ?b (length ?b) (74 + ?n) ids v g = Some (ids, v, g)" for ids v g
    by (subst ch_exts.simps) (simp add: length_hello_body)
  show ?thesis unfolding e e2 e3 e4 by simp
qed

lemma hello_ja3_exts:
  assumes "length host \<le> 60000"
  shows "ja3_exts (hello_body host) (length (hello_body host)) 51 [] [] []
    = Some ([dec 0, dec 10, dec 11], [dec 23], [dec 0])"
proof -
  let ?b = "hello_body host" and ?n = "length host"
  note s = hello_body_splits [of host]
  have l: "length (build_sni_extension host) = ?n + 9"
    by (simp add: build_sni_extension_def Let_def)
  have g: "u16 ?b (64 + ?n) = 2" "u16 ?b (66 + ?n) = 23"
    unfolding s(2)
    using u16_append [of "hello_prefix @ put_be16 (word_of_nat (23 + ?n)) @ build_sni_extension host"
        "put_be16 10 @ put_be16 (word_of_nat 4) @ [0x00, 0x02, 0x00, 0x17, 0x00, 0x0b, 0x00, 0x02, 0x01, 0x00]"]
    by (simp_all add: length_hello_prefix l u16_def be16_def nth_append put_be16_def)
  have p: "idx ?b (72 + ?n) = Some 1" "idx ?b (73 + ?n) = Some 0"
    unfolding s(3) by (simp_all add: length_hello_prefix l idx_def nth_append put_be16_def)
  have e1: "ja3_exts ?b (length ?b) 51 [] [] [] = ja3_exts ?b (length ?b) (60 + ?n) [dec 0] [] []"
    using assms
    by (subst ja3_exts_step [OF s(1), where p = 51 and q = "60 + ?n"])
      (simp_all add: length_hello_prefix ja3_points_def ja3_groups_def is_grease_def)
  have e2: "ja3_exts ?b (length ?b) (60 + ?n) [dec 0] [] []
      = ja3_exts ?b (length ?b) (68 + ?n) [dec 0, dec 10] [dec 23] []"
    by (subst ja3_exts_step [OF s(2), where p = "60 + ?n" and q = "68 + ?n"])
      (simp_all add: length_hello_prefix l ja3_points_def ja3_groups_def is_grease_def g)
  have e3: "ja3_exts ?b (length ?b) (68 + ?n) [dec 0, dec 10] [dec 23] []
      = ja3_exts ?b (length ?b) (74 + ?n) [dec 0, dec 10, dec 11] [dec 23] [dec 0]"
    using p
    by (subst ja3_exts_step [OF s(3), where p = "68 + ?n" and q = "74 + ?n"])
      (simp_all add: length_hello_prefix l ja3_points_def ja3_groups_def is_grease_def upt_rec)
  have e4: "ja3_exts ?b (length ?b) (74 + ?n) es cs ps = Some (es, cs, ps)" for es cs ps
    by (subst ja3_exts.simps) (simp add: length_hello_body)
  show ?thesis unfolding e1 e2 e3 e4 ..
qed

lemma hello_reads:
  fixes host
  defines "b \<equiv> hello_body host"
  shows "u16 b 0 = 0x0303" "idx b 34 = Some 0" "u16 b 35 = 10" "idx b 47 = Some 1"
    "u16 b 49 = word_of_nat (23 + length host)"
    "words_at b 37 10 = [0x1301, 0x1302, 0xc02f, 0xc030, 0x009c]"
proof -
  have p: "b = hello_prefix @ put_be16 (word_of_nat (23 + length host)) @ hello_exts host"
    by (simp add: b_def hello_body_def length_hello_exts)
  have u5: "[0..<5] = [0, 1, 2, 3, 4 :: nat]" by (simp add: upt_rec)
  have r: "replicate 32 (0 :: byte) = [0, 0, 0, 0, 0, 0, 0, 0, 0, 0, 0, 0, 0, 0, 0, 0,
      0, 0, 0, 0, 0, 0, 0, 0, 0, 0, 0, 0, 0, 0, 0, 0]"
    by (simp add: numeral_eq_Suc)
  have l: "hello_prefix = [3, 3, 0, 0, 0, 0, 0, 0, 0, 0, 0, 0, 0, 0, 0, 0, 0, 0, 0, 0, 0, 0, 0, 0,
      0, 0, 0, 0, 0, 0, 0, 0, 0, 0, 0, 0, 10, 0x13, 0x01, 0x13, 0x02, 0xc0, 0x2f, 0xc0, 0x30,
      0x00, 0x9c, 1, 0]"
    unfolding hello_prefix_def r by (simp add: put_be16_def)
  show "u16 b 0 = 0x0303" "idx b 34 = Some 0" "u16 b 35 = 10" "idx b 47 = Some 1"
    "words_at b 37 10 = [0x1301, 0x1302, 0xc02f, 0xc030, 0x009c]"
    by (simp_all add: p l u16_def be16_def idx_def words_at_def u5)
  show "u16 b 49 = word_of_nat (23 + length host)"
    unfolding p by (rule u16_put) (simp add: length_hello_prefix)
qed

lemma hs_body_bytes:
  assumes "length body < 16777216"
  shows "hs_body (tls_handshake_bytes ht body) = body"
proof -
  let ?n = "length body"
  have "unat (word_of_nat (?n div 65536) :: byte) = ?n div 65536"
    using assms by (intro unat_of_nat_byte) (simp add: less_mult_imp_div_less)
  moreover have "unat (word_of_nat (?n div 256) :: byte) = ?n div 256 mod 256"
    "unat (word_of_nat ?n :: byte) = ?n mod 256"
    by (simp_all add: unsigned_of_nat take_bit_eq_mod)
  moreover have "?n div 65536 * 65536 + ?n div 256 mod 256 * 256 + ?n mod 256 = ?n"
  proof -
    have "?n div 65536 = ?n div 256 div 256" using div_mult2_eq [of ?n 256 256] by simp
    then show ?thesis
      using div_mult_mod_eq [of "?n div 256" 256] div_mult_mod_eq [of ?n 256] by linarith
  qed
  ultimately show ?thesis by (simp add: hs_body_def tls_handshake_bytes_def Let_def)
qed

definition hello_ja3 :: string where
  "hello_ja3 = ''771,4865-4866-49199-49200-156,0-10-11,23,0''"

lemma hello_build_ja3:
  assumes "length host \<le> 60000"
  shows "build_ja3 (tls_handshake_bytes 1 (hello_body host)) = Some hello_ja3"
proof -
  let ?b = "hello_body host"
  have len: "length ?b = 74 + length host" by (simp add: length_hello_body)
  have b: "hs_body (tls_handshake_bytes 1 ?b) = ?b"
    using assms by (intro hs_body_bytes) (simp add: len)
  have h: "\<not> length (tls_handshake_bytes 1 ?b) < 4" "tls_handshake_bytes 1 ?b ! 0 = 1"
    by (simp_all add: tls_handshake_bytes_def)
  have un: "unat (word_of_nat (23 + length host) :: u16) = 23 + length host"
    using assms by (intro unat_of_nat_u16) simp
  have tail: "ja3_tail ?b 49 v cs = Some (ja3_text v cs ([dec 0, dec 10, dec 11], [dec 23], [dec 0]))"
    for v cs
    using hello_ja3_exts [OF assms] hello_reads(5) [of host] un len
    by (simp add: ja3_tail_def Let_def)
  show ?thesis
    using h b len hello_reads [of host] tail
    by (simp add: build_ja3_def Let_def is_grease_def ja3_text_def hello_ja3_def dec.simps
        digit_char_def)
qed

lemma hello_parse:
  assumes "length host \<le> 60000"
  shows "\<exists>m fs'. parse_client_hello (hello_body host) fs = Some (m, fs') \<and> m \<noteq> [] \<and>
    map_of fs' ''server_name'' = Some host \<and> fget fs' ''handshake'' = fget fs ''handshake''"
proof -
  let ?b = "hello_body host"
  have len: "length ?b = 74 + length host" by (simp add: length_hello_body)
  have un: "unat (word_of_nat (23 + length host) :: u16) = 23 + length host"
    using assms by (intro unat_of_nat_u16) simp
  show ?thesis
    using hello_reads [of host] len un hello_ch_exts [OF assms]
    by (simp add: parse_client_hello_def ch_tail_def Let_def)
qed

lemma hello_handshake:
  assumes "length host \<le> 60000"
  shows "\<exists>m fs'. parse_tls_handshake (tls_handshake_bytes 1 (hello_body host)) fs = Some (m, fs') \<and>
    m \<noteq> [] \<and> map_of fs' ''server_name'' = Some host \<and> fget fs' ''handshake'' = ''ClientHello''"
proof -
  let ?h = "tls_handshake_bytes 1 (hello_body host)"
  have b: "hs_body ?h = hello_body host"
    using assms by (intro hs_body_bytes) (simp add: length_hello_body)
  have h: "\<not> length ?h < 4" "?h ! 0 = 1" by (simp_all add: tls_handshake_bytes_def)
  have n: "map_of tls_handshake_types 1 = Some ''ClientHello''" by (simp add: tls_handshake_types_def)
  show ?thesis
    unfolding parse_tls_handshake_def h(2) b n Let_def
    using h(1) hello_parse [OF assms, of "fset ''handshake_len'' (dec (unat (?h ! 1) * 65536 +
      unat (?h ! 2) * 256 + unat (?h ! 3))) (fset ''handshake'' ''ClientHello'' fs)"]
    by simp
qed

lemma client_hello_split:
  "tls_client_hello host = [22, 3, 1] @ put_be16 (word_of_nat (78 + length host))
     @ tls_handshake_bytes 1 (hello_body host)"
  "length (tls_handshake_bytes 1 (hello_body host)) = 78 + length host"
  by (simp_all add: tls_client_hello_def hello_body_def hello_exts_def tls_handshake_bytes_def Let_def
      length_hello_prefix build_sni_extension_def)

section \<open>Properties\<close>

text \<open>C20: a name in its wire form, anywhere in a message, is read as RFC 1035 has it, with the position
  behind it: one of at most 63 labels and pointers, compressed in any way, whose labels are not empty
  and shorter than 192 bytes, so also every name of at most 63 such labels as \<open>fluxtap gen\<close> encodes
  it; a name of more labels is cut behind the first 64 of them, and the reader stops there.\<close>

theorem dns_name_roundtrip:
  "(wire_name data pos n ls stop \<and> n < 64 \<longrightarrow> read_dns_name data pos = Some (join ''.'' ls, stop)) \<and>
   (dns_name_ok name \<longrightarrow> read_dns_name (pre @ encode_dns_name name @ post) (length pre)
      = Some (name, length pre + length (encode_dns_name name))) \<and>
   (list_all (\<lambda>l. l \<noteq> [] \<and> length l < 192) (split ''.'' name) \<and> 64 \<le> length (split ''.'' name) \<longrightarrow>
      read_dns_name (pre @ encode_dns_name name @ post) (length pre)
      = Some (join ''.'' (take 64 (split ''.'' name)), length pre + length (label_bytes (take 64 (split ''.'' name)))))"
  using read_wire_name read_encoded_name read_long_name by blast

text \<open>For the witness: \<open>www\<close> in front of a pointer to \<open>example.com\<close> at 2.\<close>

lemma demo_wire_name:
  "wire_name ([7, 7] @ encode_dns_name ''example.com'' @ [3, 119, 119, 119, 0xC0, 2]) 15 4
     [''www'', ''example'', ''com''] 21"
proof -
  let ?e = "encode_dns_name ''example.com''"
  have sp: "split ''.'' ''example.com'' = [''example'', ''com'']"
    by (simp add: split_def sub_eval numeral_2_eq_2)
  then have e: "?e = label_bytes [''example'', ''com''] @ [0]" and l: "length ?e = 13"
    by (simp_all add: encode_dns_name_def label_bytes_def)
  let ?d = "[7, 7] @ ?e @ [3, 119, 119, 119, 0xC0, 2]"
  have w: "bytes_of ''www'' = [119, 119, 119]" by code_simp
  have "wire_name ?d 2 2 [''example'', ''com''] 15"
    using wire_labels [of "[''example'', ''com'']" "[7, 7]" "[3, 119, 119, 119, 0xC0, 2]"]
    by (simp add: e label_bytes_def numeral_eq_Suc)
  then have "wire_name ?d 19 (Suc 2) [''example'', ''com''] (19 + 2)"
    by (rule wire_name.pointer [rotated 2]) (simp_all add: bytes_at_def l put_be16_def)
  then have "wire_name ?d (15 + 1 + length ''www'') (Suc 2) [''example'', ''com''] 21" by simp
  then have "wire_name ?d 15 (Suc (Suc 2)) [''www'', ''example'', ''com''] 21"
    by (rule wire_name.label [rotated 3]) (simp_all add: bytes_at_def l w)
  then show ?thesis by (simp add: numeral_eq_Suc)
qed

lemma dns_name_roundtrip_witness:
  "read_dns_name ([7, 7] @ encode_dns_name ''example.com'' @ [3, 119, 119, 119, 0xC0, 2]) 15
     = Some (''www.example.com'', 21)"
proof -
  have "join ''.'' [''www'', ''example'', ''com''] = ''www.example.com''" by code_simp
  then show ?thesis
    using dns_name_roundtrip [of "[7, 7] @ encode_dns_name ''example.com'' @ [3, 119, 119, 119, 0xC0, 2]" 15 4]
      demo_wire_name by auto
qed

text \<open>C18: a DNS query packet as \<open>fluxtap gen\<close> writes it, for any well-formed name, type, hosts and
  client port, dissects without a panic to Ethernet, IPv4, UDP and DNS layers, and the frame
  names the protocol, the hosts, the ports, the queried name and its type.\<close>

theorem demo_dns_query_dissects:
  assumes "dns_name_ok name" "sp \<noteq> 5353"
  shows "\<exists>f. dissect ul d no ts cl ol 1
      (eth_frame 0x0800 (ipv4udp src dst sp 53 (dns_query name qtype))) = Some f \<and>
    map l_name (f_layers f) = [''Ethernet'', ''IPv4'', ''UDP'', ''DNS''] \<and>
    f_protocol f = ''DNS'' \<and> f_info f = ''query '' @ dns_type_name qtype @ '' '' @ name \<and>
    f_src f = ip_string (ip4_bytes src) \<and> f_dst f = ip_string (ip4_bytes dst) \<and>
    f_meta f = [''ip_src'' \<mapsto> ip_string (ip4_bytes src), ''ip_dst'' \<mapsto> ip_string (ip4_bytes dst),
      ''ip_proto'' \<mapsto> ''UDP'', ''ttl'' \<mapsto> ''64'', ''sport'' \<mapsto> dec (unat sp), ''dport'' \<mapsto> dec 53,
      ''dns_qry'' \<mapsto> name, ''dns_qtype'' \<mapsto> dns_type_name qtype]"
proof -
  let ?d = "eth_frame 0x0800 (ipv4udp src dst sp 53 (dns_query name qtype))"
  from dissect_dns_query_frame [OF assms, of ul d no ts cl ol ?d src dst qtype]
  obtain g off where "dissect_link ul (start_frame d no ts cl ol ?d) 1 ?d = Some (g, off)"
    "map l_name (f_layers g) = [''Ethernet'', ''IPv4'', ''UDP'', ''DNS'']" "f_protocol g = ''DNS''"
    "f_info g = ''query '' @ dns_type_name qtype @ '' '' @ name"
    "f_src g = ip_string (ip4_bytes src)" "f_dst g = ip_string (ip4_bytes dst)"
    "f_meta g = [''ip_src'' \<mapsto> ip_string (ip4_bytes src), ''ip_dst'' \<mapsto> ip_string (ip4_bytes dst),
      ''ip_proto'' \<mapsto> ''UDP'', ''ttl'' \<mapsto> ''64'', ''sport'' \<mapsto> dec (unat sp), ''dport'' \<mapsto> dec 53,
      ''dns_qry'' \<mapsto> name, ''dns_qtype'' \<mapsto> dns_type_name qtype]"
    by auto
  then show ?thesis by (simp add: dissect_def finish_frame_def Let_def)
qed

lemma demo_dns_query_witness:
  "\<exists>f. dissect id new_dissector 1 0 71 71 1
      (eth_frame 0x0800 (ipv4udp client_ip dns_ip 53000 53 (dns_query ''a.b'' 1))) = Some f \<and>
    f_protocol f = ''DNS''"
  using demo_dns_query_dissects [of "''a.b''" 53000 id new_dissector 1 0 71 71 client_ip dns_ip 1]
  by (auto simp: dns_name_ok_def split_def sub_eval)

text \<open>C19: the ClientHello that \<open>fluxtap gen\<close> writes for any host name of up to 60000 bytes gives
  a TLS frame whose metadata holds exactly that name and the MD5 of a JA3 string which does not
  depend on the name.\<close>

theorem client_hello_sni:
  assumes "length host \<le> 60000"
  shows "\<exists>g. dissect_tls f (tls_client_hello host) off = Some (g, off + length (tls_client_hello host)) \<and>
    f_protocol g = ''TLS'' \<and> f_meta g ''sni'' = Some host \<and> f_meta g ''ja3'' = Some (md5hex hello_ja3)"
proof -
  let ?h = "tls_handshake_bytes 1 (hello_body host)" and ?d = "tls_client_hello host"
  have len: "length ?d = 83 + length host" by (simp add: client_hello_split)
  have u: "u16 ?d 3 = word_of_nat (78 + length host)" "idx ?d 0 = Some 22"
    unfolding client_hello_split using u16_put [of 3 "[22, 3, 1]"] by (simp_all add: idx_def)
  have un: "unat (word_of_nat (78 + length host) :: u16) = 78 + length host"
    using assms by (intro unat_of_nat_u16) simp
  have sl: "slice ?d 5 (83 + length host) = Some ?h"
    unfolding client_hello_split(1) by (simp add: slice_def client_hello_split(2))
  obtain m fs where p: "parse_tls_handshake ?h [] = Some (m, fs)" "m \<noteq> []"
    "map_of fs ''server_name'' = Some host" "fget fs ''handshake'' = ''ClientHello''"
    using hello_handshake [OF assms, of "[]"] by blast
  have ne: "hello_ja3 \<noteq> []" by (simp add: hello_ja3_def)
  define fs' where "fs' = fset ''ja3_hash'' (md5hex hello_ja3) (fset ''ja3'' hello_ja3 fs)"
  define f' where "f' = add_tags [''ja3''] (meta_set ''ja3'' (md5hex hello_ja3) f)"
  have rec: "tls_handshake_record ?h r ([], [], f) = Some (m, fs', hello_ja3, f')" for r
    using p ne hello_build_ja3 [OF assms]
    by (simp add: tls_handshake_record_def fs'_def f'_def Let_def)
  have "tls_record ?d 0 ([], [], f) = Some (m, fs', hello_ja3, f')"
    using u un sl len rec by (simp add: tls_record_def Let_def)
  then have "tls_records ?d 12 0 [] ([], [], f) = Some ([m], fs', hello_ja3, f')"
    using u un len by (simp add: numeral_eq_Suc Let_def)
  moreover have "map_of fs' ''server_name'' = Some host" "length (fget fs' ''ja3_hash'') = 32"
    using p(3) by (simp_all add: fs'_def length_md5hex)
  ultimately show ?thesis
    using ne by (simp add: dissect_tls_def slice_def Let_def f'_def add_layer_def)
qed

lemma client_hello_sni_witness:
  "\<exists>g. dissect_tls (blank_frame 1 0 0 0 []) (tls_client_hello ''www.google.com'') 54
       = Some (g, 54 + length (tls_client_hello ''www.google.com'')) \<and>
     f_protocol g = ''TLS'' \<and> f_meta g ''sni'' = Some ''www.google.com'' \<and>
     f_meta g ''ja3'' = Some (md5hex hello_ja3)"
  by (rule client_hello_sni) simp

end
