(* ===== verification/Pcap.thy ===== *)
theory Pcap
  imports Frame
begin

text \<open>
  \<open>internal/pcap/reader.go\<close> and \<open>writer.go\<close>: the classic PCAP and PCAPNG reader and the
  classic PCAP writer. The file behind the reader is the list of bytes not read yet; reading
  errors other than the end of the file do not occur. A reader call returns its result and
  the new reader; the result \<open>Panic\<close> is Go's slice panic. Every loop consumes input, which is
  the measure of its termination. The file behind the writer is the bytes written so far;
  \<open>None\<close> is the nil handle. The writer's mutex is not modelled (its calls are atomic here).
\<close>

section \<open>Byte orders\<close>

datatype endian = LE | BE

fun get16 :: "endian \<Rightarrow> bytes \<Rightarrow> nat \<Rightarrow> u16" where
  "get16 BE b i = be16 (b ! i) (b ! (i + 1))"
| "get16 LE b i = be16 (b ! (i + 1)) (b ! i)"

fun get32 :: "endian \<Rightarrow> bytes \<Rightarrow> nat \<Rightarrow> u32" where
  "get32 BE b i = be32 (b ! i) (b ! (i + 1)) (b ! (i + 2)) (b ! (i + 3))"
| "get32 LE b i = be32 (b ! (i + 3)) (b ! (i + 2)) (b ! (i + 1)) (b ! i)"

declare get16.simps [simp del] get32.simps [simp del]

definition put_le16 :: "u16 \<Rightarrow> bytes" where
  "put_le16 w = rev (put_be16 w)"

definition put_le32 :: "u32 \<Rightarrow> bytes" where
  "put_le32 w = rev (put_be32 w)"

lemma length_put_le [simp]: "length (put_le16 w) = 2" "length (put_le32 v) = 4"
  by (simp_all add: put_le16_def put_le32_def put_be16_def put_be32_def)

lemma get32_put: "length a = i \<Longrightarrow> get32 LE (a @ put_le32 w @ b) i = w"
  using be32_put [of w] by (simp add: get32.simps put_le32_def put_be32_def nth_append)

lemma get32_put_be: "length a = i \<Longrightarrow> get32 BE (a @ put_be32 w @ b) i = w"
  using be32_put [of w] by (simp add: get32.simps put_be32_def nth_append)

section \<open>Reader\<close>

datatype rd_error = EOF | Unexpected_EOF | Err_Unsupported u32 | Err_Truncated string

datatype 'a rd_result = Ret (the_ret: 'a) | Err rd_error | Panic

record packet =
  p_no :: u64
  p_timestamp :: gotime
  p_cap_len :: u32
  p_orig_len :: u32
  p_data :: bytes
  p_link_type :: u32

record reader =
  r_in :: bytes
  r_order :: endian
  r_nano :: bool
  r_link_type :: u32
  r_snap_len :: u32
  r_is_ng :: bool
  r_count :: u64
  r_iface_map :: "(u32 \<times> u32) list"

text \<open>\<open>io.ReadFull\<close> of \<open>n\<close> bytes: the bytes or the error, and what is left of the input.\<close>

definition read_full :: "nat \<Rightarrow> bytes \<Rightarrow> (rd_error + bytes) \<times> bytes" where
  "read_full n inp =
     (if n \<le> length inp then (Inr (take n inp), drop n inp)
      else if inp = [] then (Inl EOF, []) else (Inl Unexpected_EOF, []))"

definition magic_pcap_le :: u32 where "magic_pcap_le = 0xa1b2c3d4"
definition magic_pcap_be :: u32 where "magic_pcap_be = 0xd4c3b2a1"
definition magic_pcap_ns_le :: u32 where "magic_pcap_ns_le = 0xa1b23c4d"
definition magic_pcap_ns_be :: u32 where "magic_pcap_ns_be = 0x4d3cb2a1"
definition magic_pcapng :: u32 where "magic_pcapng = 0x0a0d0d0a"
definition link_type_ethernet :: u32 where "link_type_ethernet = 1"
definition max_block :: nat where "max_block = 16777216"

definition init_classic :: "reader \<Rightarrow> u32 \<Rightarrow> reader rd_result" where
  "init_classic rd magic =
     (let rd = (if magic = magic_pcap_le then rd\<lparr>r_order := LE\<rparr>
                else if magic = magic_pcap_ns_le then rd\<lparr>r_order := LE, r_nano := True\<rparr>
                else if magic = magic_pcap_be then rd\<lparr>r_order := BE\<rparr>
                else if magic = magic_pcap_ns_be then rd\<lparr>r_order := BE, r_nano := True\<rparr>
                else rd) in
      case read_full 20 (r_in rd) of
        (Inl e, _) \<Rightarrow> Err e
      | (Inr hdr, rest) \<Rightarrow>
          Ret (rd\<lparr>r_in := rest, r_snap_len := get32 (r_order rd) hdr 12,
                  r_link_type := get32 (r_order rd) hdr 16\<rparr>))"

definition init_ng :: "reader \<Rightarrow> reader rd_result" where
  "init_ng rd =
     (let rd = rd\<lparr>r_is_ng := True\<rparr> in
      case read_full 4 (r_in rd) of
        (Inl e, _) \<Rightarrow> Err e
      | (Inr rest, inp) \<Rightarrow>
          let total_len = get32 LE rest 0;
              (total_len, order) = (if unat total_len < 28 then (get32 BE rest 0, BE)
                                    else (total_len, LE))
          in if max_block < unat total_len \<or> unat total_len < 28 then
               Err (Err_Truncated (''shb len '' @ dec (unat total_len)))
             else
               case read_full (unat total_len - 8) inp of
                 (Inl e, _) \<Rightarrow> Err e
               | (Inr body, inp) \<Rightarrow>
                   let bom = get32 LE body 0;
                       order = (if bom = 0x1a2b3c4d then LE
                                else if bom = 0x4d3c2b1a then BE else order)
                   in Ret (rd\<lparr>r_in := inp, r_order := order, r_link_type := link_type_ethernet\<rparr>))"

text \<open>The byte order of the fresh reader is a placeholder (Go's nil): \<open>init_classic\<close> and
  \<open>init_ng\<close> assign it before it is used.\<close>

definition fresh_reader :: "bytes \<Rightarrow> reader" where
  "fresh_reader inp = \<lparr>r_in = inp, r_order = LE, r_nano = False, r_link_type = 0,
     r_snap_len = 0, r_is_ng = False, r_count = 0, r_iface_map = []\<rparr>"

definition new_reader :: "bytes \<Rightarrow> reader rd_result" where
  "new_reader inp =
     (case read_full 4 inp of
        (Inl e, _) \<Rightarrow> Err e
      | (Inr buf, rest) \<Rightarrow>
          let rd = fresh_reader rest; magic = get32 LE buf 0 in
          if magic = magic_pcap_le \<or> magic = magic_pcap_ns_le \<or> magic = magic_pcap_be
             \<or> magic = magic_pcap_ns_be then init_classic rd magic
          else if magic = magic_pcapng then init_ng rd
          else if magic = 0x1a2b3c4d \<or> magic = get32 BE [0x0a, 0x0d, 0x0d, 0x0a] 0 then init_ng rd
          else Err (Err_Unsupported magic))"

section \<open>Packets\<close>

definition next_packet_no :: "reader \<Rightarrow> reader" where
  "next_packet_no rd = rd\<lparr>r_count := r_count rd + 1\<rparr>"

definition next_classic :: "reader \<Rightarrow> packet rd_result \<times> reader" where
  "next_classic rd =
     (case read_full 16 (r_in rd) of
        (Inl e, rest) \<Rightarrow> (Err e, rd\<lparr>r_in := rest\<rparr>)
      | (Inr hdr, rest) \<Rightarrow>
          let ts_sec = get32 (r_order rd) hdr 0;
              ts_frac = get32 (r_order rd) hdr 4;
              cap_len = get32 (r_order rd) hdr 8;
              orig_len = get32 (r_order rd) hdr 12
          in if max_block < unat cap_len then
               (Err (Err_Truncated (''caplen '' @ dec (unat cap_len))), rd\<lparr>r_in := rest\<rparr>)
             else
               case read_full (unat cap_len) rest of
                 (Inl e, rest) \<Rightarrow> (Err e, rd\<lparr>r_in := rest\<rparr>)
               | (Inr data, rest) \<Rightarrow>
                   let ts = (if r_nano rd
                             then int (unat ts_sec) * 1000000000 + int (unat ts_frac)
                             else int (unat ts_sec) * 1000000000 + int (unat ts_frac) * 1000);
                       rd = next_packet_no (rd\<lparr>r_in := rest\<rparr>)
                   in (Ret \<lparr>p_no = r_count rd, p_timestamp = ts, p_cap_len = cap_len,
                            p_orig_len = orig_len, p_data = data, p_link_type = r_link_type rd\<rparr>,
                       rd))"

text \<open>One PCAPNG block: \<open>None\<close> is \<open>continue\<close>. \<open>int64\<close> microseconds times 1000 wraps at 64
  bits. Of a simple packet block the code computes an aligned length it never uses.\<close>

definition iface_block :: "reader \<Rightarrow> bytes \<Rightarrow> reader" where
  "iface_block rd body =
     (if 4 \<le> length body then
        let link = ucast (get16 (r_order rd) body 0);
            iface = word_of_nat (length (r_iface_map rd))
        in rd\<lparr>r_iface_map := AList.update iface link (r_iface_map rd), r_link_type := link\<rparr>
      else rd)"

definition enhanced_block :: "reader \<Rightarrow> bytes \<Rightarrow> packet rd_result option \<times> reader" where
  "enhanced_block rd body =
     (if length body < 20 then (None, rd)
      else
        let iface = get32 (r_order rd) body 0;
            ts_high = get32 (r_order rd) body 4;
            ts_low = get32 (r_order rd) body 8;
            cap_len = get32 (r_order rd) body 12;
            orig_len = get32 (r_order rd) body 16
        in if length body < unat (20 + cap_len) then (Some (Err (Err_Truncated ''epb data'')), rd)
           else
             case slice body 20 (unat (20 + cap_len)) of
               None \<Rightarrow> (Some Panic, rd)
             | Some data \<Rightarrow>
                 let ts64 = (push_bit 32 (ucast ts_high) OR ucast ts_low :: u64);
                     ts = sint (ts64 * 1000);
                     link = (case map_of (r_iface_map rd) iface of
                               Some l \<Rightarrow> l | None \<Rightarrow> r_link_type rd);
                     rd = next_packet_no rd
                 in (Some (Ret \<lparr>p_no = r_count rd, p_timestamp = ts, p_cap_len = cap_len,
                                p_orig_len = orig_len, p_data = data, p_link_type = link\<rparr>), rd))"

definition simple_block :: "gotime \<Rightarrow> reader \<Rightarrow> bytes \<Rightarrow> packet rd_result option \<times> reader" where
  "simple_block now rd body =
     (if length body < 4 then (None, rd)
      else
        let orig_len = get32 (r_order rd) body 0;
            cap_len = word_of_nat (length body - 4);
            rd = next_packet_no rd
        in (Some (Ret \<lparr>p_no = r_count rd, p_timestamp = now, p_cap_len = cap_len,
                       p_orig_len = orig_len, p_data = drop 4 body,
                       p_link_type = r_link_type rd\<rparr>), rd))"

definition ng_block :: "gotime \<Rightarrow> reader \<Rightarrow> u32 \<Rightarrow> bytes \<Rightarrow> packet rd_result option \<times> reader" where
  "ng_block now rd block_type body =
     (if block_type = 1 then (None, iface_block rd body)
      else if block_type = 6 then enhanced_block rd body
      else if block_type = 2 then simple_block now rd body
      else (None, rd))"

text \<open>The framing of a block: type, length, body and trailing length.\<close>

definition read_block :: "reader \<Rightarrow> (rd_error + u32 \<times> bytes) \<times> reader" where
  "read_block rd =
     (case read_full 8 (r_in rd) of
        (Inl e, inp) \<Rightarrow> (Inl e, rd\<lparr>r_in := inp\<rparr>)
      | (Inr bh, inp) \<Rightarrow>
          let block_type = get32 (r_order rd) bh 0;
              block_len = get32 (r_order rd) bh 4
          in if unat block_len < 12 \<or> max_block < unat block_len then
               (Inl (Err_Truncated (''block len '' @ dec (unat block_len))), rd\<lparr>r_in := inp\<rparr>)
             else
               case read_full (unat block_len - 12) inp of
                 (Inl e, inp) \<Rightarrow> (Inl e, rd\<lparr>r_in := inp\<rparr>)
               | (Inr body, inp) \<Rightarrow>
                   (case read_full 4 inp of
                      (Inl e, inp) \<Rightarrow> (Inl e, rd\<lparr>r_in := inp\<rparr>)
                    | (Inr trail, inp) \<Rightarrow> (Inr (block_type, body), rd\<lparr>r_in := inp\<rparr>)))"

lemma read_full_Inr: "read_full n inp = (Inr b, rest) \<longleftrightarrow> n \<le> length inp \<and> b = take n inp \<and> rest = drop n inp"
  by (auto simp: read_full_def)

lemma read_full_rest: "read_full n inp = (r, rest) \<Longrightarrow> length rest \<le> length inp"
  by (auto simp: read_full_def split: if_splits)

lemma read_block_shrinks:
  "read_block rd = (Inr b, rd') \<Longrightarrow> length (r_in rd') < length (r_in rd)"
  by (auto simp: read_block_def Let_def read_full_Inr split: prod.splits sum.splits if_splits)

lemma ng_block_in: "ng_block now rd t body = (r, rd') \<Longrightarrow> r_in rd' = r_in rd"
  by (auto simp: ng_block_def iface_block_def enhanced_block_def simple_block_def next_packet_no_def
      Let_def split: if_splits option.splits)

function next_ng :: "gotime \<Rightarrow> reader \<Rightarrow> packet rd_result \<times> reader" where
  "next_ng now rd =
     (case read_block rd of
        (Inl e, rd) \<Rightarrow> (Err e, rd)
      | (Inr (block_type, body), rd) \<Rightarrow>
          (case ng_block now rd block_type body of
             (Some r, rd) \<Rightarrow> (r, rd)
           | (None, rd) \<Rightarrow> next_ng now rd))"
  by pat_completeness auto
termination
  by (relation "measure (\<lambda>(now, rd). length (r_in rd))")
    (auto dest!: read_block_shrinks [OF sym] ng_block_in [OF sym])

declare next_ng.simps [simp del]

definition next_packet :: "gotime \<Rightarrow> reader \<Rightarrow> packet rd_result \<times> reader" where
  "next_packet now rd = (if r_is_ng rd then next_ng now rd else next_classic rd)"

text \<open>Every packet returned consumed input, so \<open>All\<close> ends. \<open>clock\<close> gives \<open>time.Now\<close> after each
  packet count; \<open>None\<close> is a panic.\<close>

lemma next_classic_shrinks:
  "next_classic rd = (Ret p, rd') \<Longrightarrow> length (r_in rd') < length (r_in rd)"
  by (auto simp: next_classic_def Let_def read_full_Inr next_packet_no_def
      split: prod.splits sum.splits if_splits)

lemma next_ng_shrinks:
  "next_ng now rd = (Ret p, rd') \<Longrightarrow> length (r_in rd') < length (r_in rd)"
proof (induction now rd rule: next_ng.induct)
  case (1 now rd)
  from "1.prems" obtain t body rd1 where b: "read_block rd = (Inr (t, body), rd1)"
    by (subst (asm) next_ng.simps) (auto split: prod.splits sum.splits)
  obtain r rd2 where n: "ng_block now rd1 t body = (r, rd2)" by fastforce
  have l: "length (r_in rd2) < length (r_in rd)"
    using read_block_shrinks [OF b] ng_block_in [OF n] by simp
  show ?case
  proof (cases r)
    case None
    with "1.prems" b n have "next_ng now rd2 = (Ret p, rd')"
      by (subst (asm) next_ng.simps) simp
    with "1.IH" [OF b [symmetric] refl refl, of r rd2] n None l show ?thesis by simp
  next
    case (Some x)
    with "1.prems" b n l show ?thesis by (subst (asm) next_ng.simps) simp
  qed
qed

lemma next_packet_shrinks:
  "next_packet now rd = (Ret p, rd') \<Longrightarrow> length (r_in rd') < length (r_in rd)"
  by (auto simp: next_packet_def next_classic_shrinks next_ng_shrinks split: if_splits)

function all_packets ::
  "(u64 \<Rightarrow> gotime) \<Rightarrow> reader \<Rightarrow> packet list \<Rightarrow> (packet list \<times> rd_error option) option" where
  "all_packets clock rd out =
     (case next_packet (clock (r_count rd)) rd of
        (Panic, _) \<Rightarrow> None
      | (Err e, _) \<Rightarrow> Some (out, if e = EOF then None else Some e)
      | (Ret p, rd) \<Rightarrow> all_packets clock rd (out @ [p]))"
  by pat_completeness auto
termination
  by (relation "measure (\<lambda>(clock, rd, out). length (r_in rd))")
    (auto dest!: next_packet_shrinks [OF sym])

declare all_packets.simps [simp del]

section \<open>Writer\<close>

record writer =
  w_file :: "bytes option"
  w_link_type :: u32
  w_n :: u64

text \<open>The zero \<open>time.Time\<close>: 1 January of year 1.\<close>

definition zero_time :: gotime where "zero_time = - 62135596800 * 1000000000"

definition file_header :: "u32 \<Rightarrow> bytes" where
  "file_header link_type =
     put_le32 0xa1b2c3d4 @ put_le16 2 @ put_le16 4 @ put_le32 0 @ put_le32 0
     @ put_le32 65535 @ put_le32 link_type"

definition create_writer :: "u32 \<Rightarrow> writer" where
  "create_writer link_type =
     (let link_type = (if link_type = 0 then link_type_ethernet else link_type)
      in \<lparr>w_file = Some (file_header link_type), w_link_type = link_type, w_n = 0\<rparr>)"

definition record_header :: "gotime \<Rightarrow> bytes \<Rightarrow> bytes" where
  "record_header ts data =
     put_le32 (word_of_int (ts div 1000000000))
     @ put_le32 (word_of_int (ts mod 1000000000 div 1000))
     @ put_le32 (word_of_nat (length data)) @ put_le32 (word_of_nat (length data))"

definition write_packet :: "gotime \<Rightarrow> writer \<Rightarrow> gotime \<Rightarrow> bytes \<Rightarrow> (string + unit) \<times> writer" where
  "write_packet now w ts data =
     (case w_file w of
        None \<Rightarrow> (Inl ''pcap writer closed'', w)
      | Some file \<Rightarrow>
          let ts = (if ts = zero_time then now else ts) in
          (Inr (), w\<lparr>w_file := Some (file @ record_header ts data @ data), w_n := w_n w + 1\<rparr>))"

definition writer_count :: "writer option \<Rightarrow> u64" where
  "writer_count w = (case w of None \<Rightarrow> 0 | Some w \<Rightarrow> w_n w)"

definition close_writer :: "writer \<Rightarrow> writer" where
  "close_writer w = w\<lparr>w_file := None\<rparr>"

fun write_all :: "gotime \<Rightarrow> writer \<Rightarrow> (gotime \<times> bytes) list \<Rightarrow> writer" where
  "write_all now w [] = w"
| "write_all now w ((ts, data) # ps) = write_all now (snd (write_packet now w ts data)) ps"

section \<open>What the classic reader returns\<close>

lemma next_classic_packet:
  assumes "next_classic rd = (Ret p, rd')"
  shows "length (p_data p) = unat (p_cap_len p)" "length (p_data p) \<le> max_block"
    "p_no p = r_count rd + 1" "r_count rd' = r_count rd + 1" "p_link_type p = r_link_type rd"
  using assms
  by (auto simp: next_classic_def Let_def read_full_Inr next_packet_no_def
      split: prod.splits sum.splits if_splits)

lemma next_classic_no_panic: "fst (next_classic rd) \<noteq> Panic"
  by (auto simp: next_classic_def Let_def split: prod.splits sum.splits)

text \<open>A record the writer wrote is read back.\<close>

lemma length_record_header [simp]: "length (record_header ts data) = 16"
  by (simp add: record_header_def)

lemma record_header_get:
  "get32 LE (record_header ts data) 0 = word_of_int (ts div 1000000000)"
  "get32 LE (record_header ts data) 4 = word_of_int (ts mod 1000000000 div 1000)"
  "get32 LE (record_header ts data) 8 = word_of_nat (length data)"
  "get32 LE (record_header ts data) 12 = word_of_nat (length data)"
proof -
  let ?a = "put_le32 (word_of_int (ts div 1000000000))"
  let ?b = "put_le32 (word_of_int (ts mod 1000000000 div 1000))"
  let ?c = "put_le32 (word_of_nat (length data))"
  note g = get32_put
  show "get32 LE (record_header ts data) 0 = word_of_int (ts div 1000000000)"
    using g [of "[]" 0] by (simp add: record_header_def)
  show "get32 LE (record_header ts data) 4 = word_of_int (ts mod 1000000000 div 1000)"
    using g [of ?a 4] by (simp add: record_header_def)
  show "get32 LE (record_header ts data) 8 = word_of_nat (length data)"
    using g [of "?a @ ?b" 8] by (simp add: record_header_def)
  show "get32 LE (record_header ts data) 12 = word_of_nat (length data)"
    using g [of "?a @ ?b @ ?c" 12 _ "[]"] by (simp add: record_header_def)
qed

text \<open>The timestamp the format keeps: whole microseconds.\<close>

definition micros :: "gotime \<Rightarrow> gotime" where "micros ts = ts div 1000 * 1000"

definition writable :: "gotime \<times> bytes \<Rightarrow> bool" where
  "writable = (\<lambda>(ts, data). 0 \<le> ts \<and> ts < 4294967296 * 1000000000 \<and> length data \<le> max_block)"

definition written_packet :: "u32 \<Rightarrow> u64 \<Rightarrow> gotime \<times> bytes \<Rightarrow> packet" where
  "written_packet link no = (\<lambda>(ts, data).
     \<lparr>p_no = no, p_timestamp = micros ts, p_cap_len = word_of_nat (length data),
      p_orig_len = word_of_nat (length data), p_data = data, p_link_type = link\<rparr>)"

lemma micros_split:
  "ts div 1000000000 * 1000000000 + ts mod 1000000000 div 1000 * 1000 = micros ts"
proof -
  let ?q = "ts div 1000000000" and ?r = "ts mod 1000000000"
  have "ts = (?q * 1000000) * 1000 + ?r" by simp
  then have "ts div 1000 = ?q * 1000000 + ?r div 1000"
    using div_mult_self3 [of 1000 "?q * 1000000" ?r] by presburger
  then show ?thesis unfolding micros_def by linarith
qed

lemma next_classic_written:
  assumes "r_in rd = record_header ts data @ data @ rest" "r_order rd = LE" "\<not> r_nano rd"
    "writable (ts, data)"
  shows "next_classic rd = (Ret (written_packet (r_link_type rd) (r_count rd + 1) (ts, data)),
           next_packet_no (rd\<lparr>r_in := rest\<rparr>))"
proof -
  let ?h = "record_header ts data"
  have w: "0 \<le> ts" "ts < 4294967296 * 1000000000" "length data \<le> 16777216"
    using assms(4) by (simp_all add: writable_def max_block_def)
  have n: "unat (word_of_nat (length data) :: u32) = length data"
    using w by (intro unat_of_nat_u32) simp
  have sec: "int (unat (word_of_int (ts div 1000000000) :: u32)) = ts div 1000000000"
    using w by (intro unat_of_int_u32) simp_all
  have frac: "int (unat (word_of_int (ts mod 1000000000 div 1000) :: u32)) = ts mod 1000000000 div 1000"
    by (intro unat_of_int_u32) simp_all
  have h: "read_full 16 (r_in rd) = (Inr ?h, data @ rest)"
    using assms(1) by (simp add: read_full_def)
  have d: "read_full (length data) (data @ rest) = (Inr data, rest)"
    by (simp add: read_full_def)
  show ?thesis
    using assms(2,3) w(3) h n d sec frac micros_split [of ts]
    by (simp add: next_classic_def record_header_get written_packet_def next_packet_no_def
        max_block_def Let_def)
qed

text \<open>The records of a capture and the packets they give, numbered from \<open>k + 1\<close>.\<close>

definition records :: "(gotime \<times> bytes) list \<Rightarrow> bytes" where
  "records ps = concat (map (\<lambda>(ts, data). record_header ts data @ data) ps)"

definition numbered :: "u32 \<Rightarrow> nat \<Rightarrow> (gotime \<times> bytes) list \<Rightarrow> packet list" where
  "numbered link k ps = map (\<lambda>(i, p). written_packet link (word_of_nat i) p) (enumerate (Suc k) ps)"

lemma write_all_file:
  "w_file w = Some fl \<Longrightarrow> list_all writable ps \<Longrightarrow>
   w_file (write_all now w ps) = Some (fl @ records ps) \<and>
   w_n (write_all now w ps) = w_n w + word_of_nat (length ps)"
proof (induction ps arbitrary: w fl)
  case (Cons p ps)
  obtain ts data where p: "p = (ts, data)" by fastforce
  with Cons.prems have "ts \<noteq> zero_time" by (auto simp: writable_def zero_time_def)
  with Cons p show ?case by (simp add: write_packet_def records_def algebra_simps)
qed (simp add: records_def)

lemma file_header_read:
  "new_reader (file_header link @ rest) = Ret ((fresh_reader rest)
     \<lparr>r_order := LE, r_snap_len := 65535, r_link_type := link\<rparr>)"
proof -
  let ?h = "put_le16 2 @ put_le16 4 @ put_le32 0 @ put_le32 0 @ put_le32 65535 @ put_le32 link"
  have m: "get32 LE (put_le32 w) 0 = w" for w using get32_put [of "[]" 0 w "[]"] by simp
  have l: "get32 LE ?h 16 = link"
    using get32_put [of "put_le16 2 @ put_le16 4 @ put_le32 0 @ put_le32 0 @ put_le32 65535" 16 link "[]"]
    by simp
  have sn: "get32 LE ?h 12 = 65535"
    using get32_put [of "put_le16 2 @ put_le16 4 @ put_le32 0 @ put_le32 0" 12 65535 "put_le32 link"]
    by simp
  have r: "read_full 4 (file_header link @ rest) = (Inr (put_le32 0xa1b2c3d4), ?h @ rest)"
    by (simp add: read_full_def file_header_def)
  have r20: "read_full 20 (?h @ rest) = (Inr ?h, rest)"
    by (simp add: read_full_def)
  show ?thesis
    unfolding new_reader_def r
    using r20 l sn by (simp add: m init_classic_def magic_pcap_le_def magic_pcap_be_def
      magic_pcap_ns_le_def magic_pcap_ns_be_def fresh_reader_def Let_def)
qed

section \<open>Numbers and lengths, in both formats\<close>

definition good_packet :: "reader \<Rightarrow> packet \<times> reader \<Rightarrow> bool" where
  "good_packet rd = (\<lambda>(p, rd'). p_no p = r_count rd + 1 \<and> r_count rd' = r_count rd + 1 \<and>
     length (p_data p) = unat (p_cap_len p) \<and> length (p_data p) \<le> max_block)"

lemma read_block_body:
  "read_block rd = (Inr (t, body), rd') \<Longrightarrow> length body \<le> max_block \<and> r_count rd' = r_count rd"
  by (auto simp: read_block_def Let_def read_full_Inr split: prod.splits sum.splits if_splits)

lemma enhanced_block_len:
  assumes "length body \<ge> unat (20 + cl :: u32)" "slice body 20 (unat (20 + cl)) = Some data"
  shows "length data = unat cl"
proof -
  have "20 \<le> unat (20 + cl)" using assms(2) by (simp add: slice_def split: if_splits)
  moreover have "unat (20 + cl) = (20 + unat cl) mod 4294967296"
    by (simp add: unat_word_ariths)
  moreover have "unat cl < 4294967296" by (rule unat_u32_less)
  ultimately have "unat (20 + cl) = 20 + unat cl" by (auto simp: mod_if split: if_splits)
  with assms(2) show ?thesis by (auto simp: slice_def split: if_splits)
qed

lemma ng_block_good:
  assumes "ng_block now rd t body = (r, rd')" "length body \<le> max_block"
  shows "r = None \<Longrightarrow> r_count rd' = r_count rd"
    "r = Some (Ret p) \<Longrightarrow> good_packet rd (p, rd')"
proof -
  show "r = None \<Longrightarrow> r_count rd' = r_count rd"
    using assms(1) by (auto simp: ng_block_def iface_block_def enhanced_block_def simple_block_def
        Let_def split: if_splits option.splits)
  assume "r = Some (Ret p)"
  then consider "enhanced_block rd body = (Some (Ret p), rd')" | "simple_block now rd body = (Some (Ret p), rd')"
    using assms(1) by (auto simp: ng_block_def split: if_splits)
  then show "good_packet rd (p, rd')"
  proof cases
    case 1
    let ?cl = "get32 (r_order rd) body 12"
    from 1 obtain data where d: "unat (20 + ?cl) \<le> length body"
      "slice body 20 (unat (20 + ?cl)) = Some data" "p_data p = data" "p_cap_len p = ?cl"
      "p_no p = r_count rd + 1" "r_count rd' = r_count rd + 1"
      by (auto simp: enhanced_block_def Let_def next_packet_no_def split: if_splits option.splits)
    moreover from d(2) have "length data \<le> length body" by (auto dest: slice_eq_SomeD)
    ultimately show ?thesis
      using enhanced_block_len [OF d(1,2)] assms(2) by (simp add: good_packet_def)
  next
    case 2
    then have "length body - 4 < 4294967296" using assms(2) by (simp add: max_block_def)
    then have "unat (word_of_nat (length body - 4) :: u32) = length body - 4" by (rule unat_of_nat_u32)
    with 2 assms(2) show ?thesis
      by (auto simp: simple_block_def Let_def next_packet_no_def good_packet_def split: if_splits)
  qed
qed

lemma next_ng_good: "next_ng now rd = (Ret p, rd') \<Longrightarrow> good_packet rd (p, rd')"
proof (induction now rd rule: next_ng.induct)
  case (1 now rd)
  from "1.prems" obtain t body rd1 where b: "read_block rd = (Inr (t, body), rd1)"
    by (subst (asm) next_ng.simps) (auto split: prod.splits sum.splits)
  obtain r rd2 where n: "ng_block now rd1 t body = (r, rd2)" by fastforce
  note body = read_block_body [OF b]
  note good = ng_block_good [OF n conjunct1 [OF body]]
  show ?case
  proof (cases r)
    case None
    with "1.prems" b n have "next_ng now rd2 = (Ret p, rd')"
      by (subst (asm) next_ng.simps) simp
    with "1.IH" [OF b [symmetric] refl refl, of r rd2] n None have "good_packet rd2 (p, rd')" by simp
    with good(1) [OF None] body show ?thesis by (simp add: good_packet_def)
  next
    case (Some x)
    with "1.prems" b n have "x = Ret p \<and> rd2 = rd'" by (subst (asm) next_ng.simps) simp
    then have "x = Ret p" "rd2 = rd'" by simp_all
    with good(2) [of p] Some body show ?thesis by (simp add: good_packet_def)
  qed
qed

lemma next_packet_good: "next_packet now rd = (Ret p, rd') \<Longrightarrow> good_packet rd (p, rd')"
  using next_classic_packet [of rd p rd'] next_ng_good [of now rd p rd']
  by (auto simp: next_packet_def good_packet_def split: if_splits)

lemma all_packets_good:
  assumes "all_packets clock rd out = Some (ps, e)"
  shows "\<exists>qs. ps = out @ qs \<and> (\<forall>i < length qs. p_no (qs ! i) = r_count rd + word_of_nat (Suc i) \<and>
           length (p_data (qs ! i)) = unat (p_cap_len (qs ! i)) \<and>
           length (p_data (qs ! i)) \<le> max_block)"
  using assms
proof (induction clock rd out rule: all_packets.induct)
  case (1 clock rd out)
  obtain r rd' where n: "next_packet (clock (r_count rd)) rd = (r, rd')" by fastforce
  show ?case
  proof (cases r)
    case (Ret p)
    have g: "good_packet rd (p, rd')" using next_packet_good n Ret by simp
    from "1.prems" n Ret have "all_packets clock rd' (out @ [p]) = Some (ps, e)"
      by (subst (asm) all_packets.simps) simp
    from "1.IH" [OF n [symmetric] Ret this] obtain qs where q: "ps = (out @ [p]) @ qs"
      "\<forall>i < length qs. p_no (qs ! i) = r_count rd' + word_of_nat (Suc i) \<and>
           length (p_data (qs ! i)) = unat (p_cap_len (qs ! i)) \<and>
           length (p_data (qs ! i)) \<le> max_block" by blast
    with g show ?thesis
      by (intro exI [of _ "p # qs"]) (auto simp: good_packet_def nth_Cons' less_Suc_eq_0_disj algebra_simps)
  next
    case (Err x)
    with "1.prems" n show ?thesis by (subst (asm) all_packets.simps) simp
  next
    case Panic
    with "1.prems" n show ?thesis by (subst (asm) all_packets.simps) simp
  qed
qed

section \<open>Failures\<close>

lemma enhanced_block_panic:
  "fst (enhanced_block rd body) = Some Panic \<longleftrightarrow>
   20 \<le> length body \<and> 4294967276 \<le> unat (get32 (r_order rd) body 12)"
proof (cases "20 \<le> length body")
  case True
  let ?cl = "get32 (r_order rd) body 12"
  have m: "unat (20 + ?cl) = (20 + unat ?cl) mod 4294967296" by (simp add: unat_word_ariths)
  have b: "unat ?cl < 4294967296" by (rule unat_u32_less)
  show ?thesis
  proof (cases "4294967276 \<le> unat ?cl")
    case True
    with m b have "unat (20 + ?cl) < 20" by (auto simp: mod_if)
    with True \<open>20 \<le> length body\<close> show ?thesis by (simp add: enhanced_block_def slice_def Let_def)
  next
    case False
    with m have e: "unat (20 + ?cl) = 20 + unat ?cl" by simp
    show ?thesis using True False by (simp add: enhanced_block_def slice_def e Let_def)
  qed
qed (simp add: enhanced_block_def)

text \<open>Records that are followed by something that does not give a packet.\<close>

lemma all_packets_prefix:
  assumes "r_in rd = records ps @ rest" "r_order rd = LE" "\<not> r_nano rd" "\<not> r_is_ng rd"
    "r_count rd = word_of_nat k" "list_all writable ps"
  shows "\<exists>rd'. r_in rd' = rest \<and> r_order rd' = LE \<and> \<not> r_nano rd' \<and> \<not> r_is_ng rd' \<and>
    all_packets clock rd out = all_packets clock rd' (out @ numbered (r_link_type rd) k ps)"
  using assms
proof (induction ps arbitrary: rd out k)
  case Nil
  then show ?case by (intro exI [of _ rd]) (simp add: records_def numbered_def)
next
  case (Cons p ps)
  obtain ts data where p: "p = (ts, data)" by fastforce
  let ?rd = "next_packet_no (rd\<lparr>r_in := records ps @ rest\<rparr>)"
  let ?p = "written_packet (r_link_type rd) (r_count rd + 1) (ts, data)"
  have "next_classic rd = (Ret ?p, ?rd)"
    using Cons.prems p by (intro next_classic_written) (simp_all add: records_def)
  then have a: "all_packets clock rd out = all_packets clock ?rd (out @ [?p])"
    using Cons.prems(4) by (subst all_packets.simps) (simp add: next_packet_def)
  have n: "(out @ [?p]) @ numbered (r_link_type ?rd) (Suc k) ps
      = out @ numbered (r_link_type rd) k (p # ps)"
    using Cons.prems(5) p by (simp add: numbered_def next_packet_no_def add.commute)
  have "\<exists>rd'. r_in rd' = rest \<and> r_order rd' = LE \<and> \<not> r_nano rd' \<and> \<not> r_is_ng rd' \<and>
      all_packets clock ?rd (out @ [?p])
        = all_packets clock rd' ((out @ [?p]) @ numbered (r_link_type ?rd) (Suc k) ps)"
    using Cons.prems by (intro Cons.IH) (simp_all add: next_packet_no_def)
  then show ?case unfolding a n .
qed

lemma all_packets_written:
  assumes "r_in rd = records ps" "r_order rd = LE" "\<not> r_nano rd" "\<not> r_is_ng rd"
    "r_count rd = word_of_nat k" "list_all writable ps"
  shows "all_packets clock rd out = Some (out @ numbered (r_link_type rd) k ps, None)"
proof -
  have "next_packet now rd' = (Err EOF, rd'\<lparr>r_in := []\<rparr>)" if "r_in rd' = []" "\<not> r_is_ng rd'" for rd' now
    using that by (simp add: next_packet_def next_classic_def read_full_def)
  with all_packets_prefix [of rd ps "[]" k clock out] assms show ?thesis
    by (auto simp: all_packets.simps)
qed

lemma next_classic_cut:
  assumes "r_in rd = record_header ts data" "r_order rd = LE" "data \<noteq> []" "length data \<le> max_block"
  shows "fst (next_classic rd) = Err EOF"
proof -
  have n: "unat (word_of_nat (length data) :: u32) = length data"
    using assms(4) by (intro unat_of_nat_u32) (simp add: max_block_def)
  show ?thesis
    using assms n by (simp add: next_classic_def read_full_def record_header_get Let_def)
qed

lemma put_be32_le:
  "unat (get32 LE (put_be32 w) 0) = ((unat w mod 256 * 256 + unat w div 256 mod 256) * 256
     + unat w div 65536 mod 256) * 256 + unat w div 16777216"
  using unat_u32_less [of w]
  by (simp add: get32.simps put_be32_def unat_be32 unat_of_nat_byte less_mult_imp_div_less)

lemma digits_bound:
  "((a * 256 + b) * 256 + c) * 256 + d \<le> 16777216 \<Longrightarrow> 0 < a \<Longrightarrow>
   a = 1 \<and> b = 0 \<and> c = 0 \<and> d = (0 :: nat)"
proof -
  assume "((a * 256 + b) * 256 + c) * 256 + d \<le> 16777216" "0 < a"
  then have "16777216 * a + 65536 * b + 256 * c + d \<le> 16777216" by (simp add: algebra_simps)
  with \<open>0 < a\<close> have "a \<le> 1" "b \<le> 0" "c \<le> 0" "d \<le> 0" by linarith+
  with \<open>0 < a\<close> show ?thesis by simp
qed

lemma init_ng_be:
  assumes "28 \<le> unat len" "unat len mod 256 \<noteq> 0" and inp: "r_in rd = put_be32 len @ rest"
  shows "\<exists>why. init_ng rd = Err (Err_Truncated why)"
proof -
  have "max_block < unat (get32 LE (put_be32 len) 0)"
  proof (rule ccontr)
    assume "\<not> ?thesis"
    moreover have "0 < unat len mod 256" using assms(2) by simp
    ultimately have "unat len mod 256 = 1 \<and> unat len div 256 mod 256 = 0 \<and>
        unat len div 65536 mod 256 = 0 \<and> unat len div 16777216 = 0"
      unfolding put_be32_le max_block_def not_less by (intro digits_bound)
    then have "unat len = 1" using be32_digits [OF unat_u32_less [of len]] by simp
    with assms(1) show False by simp
  qed
  then show ?thesis
    using inp by (simp add: init_ng_def read_full_def max_block_def Let_def)
qed

lemma new_reader_count: "new_reader inp = Ret rd \<Longrightarrow> r_count rd = 0"
  by (auto simp: new_reader_def init_classic_def init_ng_def fresh_reader_def Let_def
      split: prod.splits sum.splits if_splits)

section \<open>Properties\<close>

text \<open>C21: what the writer writes, the reader reads: the same packets in order, numbered from 1,
  with the link type of the file and timestamps cut to whole microseconds, and no error.\<close>

theorem pcap_roundtrip:
  assumes "list_all writable ps"
  shows "\<exists>fl rd. w_file (write_all now (create_writer link) ps) = Some fl \<and> new_reader fl = Ret rd \<and>
    all_packets clock rd [] = Some (numbered (w_link_type (create_writer link)) 0 ps, None) \<and>
    w_n (write_all now (create_writer link) ps) = word_of_nat (length ps)"
proof -
  let ?w = "create_writer link" and ?l = "w_link_type (create_writer link)"
  have f: "w_file ?w = Some (file_header ?l)" "w_n ?w = 0"
    by (simp_all add: create_writer_def Let_def)
  let ?rd = "(fresh_reader (records ps))\<lparr>r_order := LE, r_snap_len := 65535, r_link_type := ?l\<rparr>"
  have "all_packets clock ?rd [] = Some ([] @ numbered (r_link_type ?rd) 0 ps, None)"
    using assms by (intro all_packets_written) (simp_all add: fresh_reader_def)
  with f write_all_file [OF f(1) assms, of now] file_header_read [of ?l "records ps"]
  show ?thesis by simp
qed

lemma pcap_roundtrip_witness:
  "\<exists>fl rd. w_file (write_all 0 (create_writer 0) [(1234567, [1, 2]), (5000000000, [])]) = Some fl \<and>
     new_reader fl = Ret rd \<and>
     all_packets (\<lambda>_. 0) rd [] =
       Some (numbered (w_link_type (create_writer 0)) 0 [(1234567, [1, 2]), (5000000000, [])], None) \<and>
     w_n (write_all 0 (create_writer 0) [(1234567, [1, 2]), (5000000000, [])]) = word_of_nat (Suc (Suc 0))"
  using pcap_roundtrip [of "[(1234567, [1, 2]), (5000000000, [])]" 0 0 "\<lambda>_. 0"]
  by (simp add: writable_def max_block_def)

text \<open>C32: reading a whole capture, of either format and whatever its bytes, numbers the packets
  1, 2, 3 and so on, and no packet is longer than 16 MiB or than its captured length says.\<close>

theorem all_packets_bounded:
  assumes "new_reader inp = Ret rd" "all_packets clock rd [] = Some (ps, e)" "i < length ps"
  shows "p_no (ps ! i) = word_of_nat (Suc i) \<and> unat (p_cap_len (ps ! i)) \<le> 16777216 \<and>
    length (p_data (ps ! i)) = unat (p_cap_len (ps ! i))"
proof -
  have "\<forall>i < length ps. p_no (ps ! i) = r_count rd + word_of_nat (Suc i) \<and>
      length (p_data (ps ! i)) = unat (p_cap_len (ps ! i)) \<and> length (p_data (ps ! i)) \<le> max_block"
    using all_packets_good [OF assms(2)] by fastforce
  with assms(3) have "p_no (ps ! i) = r_count rd + word_of_nat (Suc i) \<and>
      length (p_data (ps ! i)) = unat (p_cap_len (ps ! i)) \<and> length (p_data (ps ! i)) \<le> max_block"
    by blast
  with new_reader_count [OF assms(1)] show ?thesis by (auto simp: max_block_def)
qed

lemma all_packets_bounded_witness:
  "p_no (numbered 1 0 [(0, [7]), (5000, [])] ! 1) = word_of_nat (Suc 1) \<and>
   unat (p_cap_len (numbered 1 0 [(0, [7]), (5000, [])] ! 1)) \<le> 16777216 \<and>
   length (p_data (numbered 1 0 [(0, [7]), (5000, [])] ! 1))
     = unat (p_cap_len (numbered 1 0 [(0, [7]), (5000, [])] ! 1))"
proof (rule all_packets_bounded [OF file_header_read])
  let ?ps = "[(0, [7]), (5000, [])] :: (gotime \<times> bytes) list"
  let ?rd = "(fresh_reader (records ?ps))\<lparr>r_order := LE, r_snap_len := 65535, r_link_type := 1\<rparr>"
  have "all_packets (\<lambda>_. 0) ?rd [] = Some ([] @ numbered (r_link_type ?rd) 0 ?ps, None)"
    by (intro all_packets_written) (simp_all add: fresh_reader_def writable_def max_block_def)
  then show "all_packets (\<lambda>_. 0) ?rd [] = Some (numbered 1 0 ?ps, None)" by simp
qed (simp add: numbered_def)

text \<open>C33: an enhanced packet block makes the reader panic exactly when its captured length is
  within 20 of \<open>2^32\<close>: the bound check adds 20 in 32 bits.\<close>

theorem epb_panic:
  "fst (ng_block now rd 6 body) = Some Panic \<longleftrightarrow>
   20 \<le> length body \<and> 4294967276 \<le> unat (get32 (r_order rd) body 12)"
  by (simp add: ng_block_def enhanced_block_panic)

text \<open>A big-endian PCAPNG file is rejected as truncated (its section header length is read
  in little-endian order first), unless that length is a multiple of 256.\<close>

theorem pcapng_be_rejected:
  assumes "28 \<le> unat len" "unat len mod 256 \<noteq> 0"
  shows "\<exists>why. new_reader ([0x0a, 0x0d, 0x0d, 0x0a] @ put_be32 len @ rest) = Err (Err_Truncated why)"
proof -
  have m: "get32 LE [0x0a, 0x0d, 0x0d, 0x0a] 0 = magic_pcapng"
    by (simp add: get32.simps be32_def magic_pcapng_def)
  have r: "read_full 4 ([0x0a, 0x0d, 0x0d, 0x0a] @ put_be32 len @ rest)
      = (Inr [0x0a, 0x0d, 0x0d, 0x0a], put_be32 len @ rest)"
    by (simp add: read_full_def)
  show ?thesis
    using init_ng_be [OF assms, of "fresh_reader (put_be32 len @ rest)" rest] m
    unfolding new_reader_def r
    by (simp add: fresh_reader_def magic_pcapng_def magic_pcap_le_def magic_pcap_ns_le_def
        magic_pcap_be_def magic_pcap_ns_be_def)
qed

lemma pcapng_be_rejected_witness:
  "\<exists>why. new_reader ([0x0a, 0x0d, 0x0d, 0x0a] @ put_be32 28 @ [0x1a, 0x2b, 0x3c, 0x4d])
     = Err (Err_Truncated why)"
  by (rule pcapng_be_rejected) simp_all

text \<open>C34: a capture cut right behind a record header ends without an error: the packet is lost
  and the reader reports a complete file.\<close>

theorem cut_capture_not_reported:
  assumes "list_all writable ps" "length data \<le> max_block" "data \<noteq> []"
  shows "\<exists>rd. new_reader (file_header link @ records ps @ record_header ts data) = Ret rd \<and>
    all_packets clock rd [] = Some (numbered link 0 ps, None)"
proof -
  let ?rest = "records ps @ record_header ts data"
  let ?rd = "(fresh_reader ?rest)\<lparr>r_order := LE, r_snap_len := 65535, r_link_type := link\<rparr>"
  have "\<exists>rd'. r_in rd' = record_header ts data \<and> r_order rd' = LE \<and> \<not> r_nano rd' \<and> \<not> r_is_ng rd' \<and>
      all_packets clock ?rd [] = all_packets clock rd' ([] @ numbered (r_link_type ?rd) 0 ps)"
    using assms(1) by (intro all_packets_prefix) (simp_all add: fresh_reader_def)
  then obtain rd' where rd': "r_in rd' = record_header ts data" "r_order rd' = LE" "\<not> r_is_ng rd'"
    and a: "all_packets clock ?rd [] = all_packets clock rd' (numbered link 0 ps)" by auto
  obtain rd'' where "next_classic rd' = (Err EOF, rd'')"
    using next_classic_cut [OF rd'(1,2) assms(3,2)] by (cases "next_classic rd'") auto
  then have "all_packets clock rd' (numbered link 0 ps) = Some (numbered link 0 ps, None)"
    using rd'(3) by (subst all_packets.simps) (simp add: next_packet_def)
  with a file_header_read [of link ?rest] show ?thesis by simp
qed

lemma cut_capture_witness:
  "\<exists>rd. new_reader (file_header 1 @ records [(0, [7])] @ record_header 2000 [1, 2, 3]) = Ret rd \<and>
     all_packets (\<lambda>_. 0) rd [] = Some (numbered 1 0 [(0, [7])], None)"
  by (rule cut_capture_not_reported) (simp_all add: writable_def max_block_def)

end
