(* ===== verification/Fifo.thy ===== *)
theory Fifo
  imports Frame "HOL-Library.Multiset"
begin

text \<open>
  What \<open>flow.Tracker\<close> and \<open>session.Player\<close> share: a table of bounded size keyed by the flow
  key, that drops the key it saw first when a new key finds it full, and the selection sort by
  bytes that lists it. A Go map is an association list with distinct keys; the order in which
  Go iterates over it is a parameter of what depends on it. The locale states the contract of
  such a table and proves its invariant, that observing never panics, and that it refines a
  queue of key-value pairs.
\<close>

section \<open>Selection sort by a key, in descending order\<close>

definition max_from :: "('a \<Rightarrow> u64) \<Rightarrow> 'a list \<Rightarrow> nat \<Rightarrow> nat" where
  "max_from key all i =
     fold (\<lambda>j m. if key (all ! j) > key (all ! m) then j else m) [i + 1..<length all] i"

definition swap_at :: "'a list \<Rightarrow> nat \<Rightarrow> nat \<Rightarrow> 'a list" where
  "swap_at all i j = all[i := all ! j, j := all ! i]"

definition selection_sort :: "('a \<Rightarrow> u64) \<Rightarrow> 'a list \<Rightarrow> 'a list" where
  "selection_sort key all = fold (\<lambda>i xs. swap_at xs i (max_from key xs i)) [0..<length all] all"

definition top_n :: "('a \<Rightarrow> u64) \<Rightarrow> int \<Rightarrow> 'a list \<Rightarrow> 'a list" where
  "top_n key n all =
     (let all = selection_sort key all in
      if 0 < n \<and> n < int (length all) then take (nat n) all else all)"

lemma fold_max:
  "m < length xs \<Longrightarrow> \<forall>j \<in> set js. j < length xs \<Longrightarrow>
   (let r = fold (\<lambda>j m. if key (xs ! j) > key (xs ! m) then j else m) js m in
    r \<in> insert m (set js) \<and> (\<forall>j \<in> insert m (set js). key (xs ! j) \<le> (key (xs ! r) :: u64)))"
proof (induction js arbitrary: m)
  case (Cons j js)
  let ?m = "if key (xs ! j) > key (xs ! m) then j else m"
  have "?m < length xs" using Cons.prems by simp
  from Cons.IH [OF this] Cons.prems show ?case
    by (auto simp: Let_def split: if_splits)
qed simp

lemma max_from_spec:
  assumes "i < length xs"
  shows "i \<le> max_from key xs i" "max_from key xs i < length xs"
    "i \<le> j \<Longrightarrow> j < length xs \<Longrightarrow> key (xs ! j) \<le> key (xs ! max_from key xs i)"
proof -
  have "\<forall>j \<in> set [i + 1..<length xs]. j < length xs" by simp
  note m = fold_max [OF assms this, of key, folded max_from_def, unfolded Let_def]
  from m have r: "max_from key xs i \<in> insert i (set [i + 1..<length xs])" by blast
  then show "i \<le> max_from key xs i" "max_from key xs i < length xs" using assms by auto
  assume "i \<le> j" "j < length xs"
  then have "j \<in> insert i (set [i + 1..<length xs])" by auto
  with m show "key (xs ! j) \<le> key (xs ! max_from key xs i)" by blast
qed

lemma mset_swap_at: "i < length xs \<Longrightarrow> j < length xs \<Longrightarrow> mset (swap_at xs i j) = mset xs"
  by (simp add: swap_at_def mset_swap)

lemma length_swap_at [simp]: "length (swap_at xs i j) = length xs"
  by (simp add: swap_at_def)

text \<open>After \<open>k\<close> rounds the first \<open>k\<close> elements are in order and none after them is larger.\<close>

definition sorted_upto :: "('a \<Rightarrow> u64) \<Rightarrow> nat \<Rightarrow> 'a list \<Rightarrow> bool" where
  "sorted_upto key k xs = (\<forall>i j. i < j \<longrightarrow> j < length xs \<longrightarrow> i < k \<longrightarrow> key (xs ! j) \<le> key (xs ! i))"

lemma sorted_upto_step:
  assumes "sorted_upto key k xs" "k < length xs"
  shows "sorted_upto key (Suc k) (swap_at xs k (max_from key xs k))"
proof -
  let ?m = "max_from key xs k"
  note m = max_from_spec [OF assms(2), where key = key]
  have e: "swap_at xs k ?m ! j = xs ! (if j = k then ?m else if j = ?m then k else j)"
    if "j < length xs" for j
    using that m(2) assms(2) by (auto simp: swap_at_def nth_list_update)
  show ?thesis
    unfolding sorted_upto_def
  proof (intro allI impI)
    fix i j assume i: "i < j" "j < length (swap_at xs k ?m)" "i < Suc k"
    let ?j = "if j = k then ?m else if j = ?m then k else j"
    have j: "j < length xs" using i by simp
    show "key (swap_at xs k ?m ! j) \<le> key (swap_at xs k ?m ! i)"
    proof (cases "i = k")
      case True
      have "k \<le> ?j" "?j < length xs" using True i m(1,2) assms(2) j by auto
      with True m(3) [of ?j] show ?thesis using e [OF j] e [of k] assms(2) by simp
    next
      case False
      then have "i < k" using i by simp
      moreover have "i < ?j" "?j < length xs" using \<open>i < k\<close> i m(1,2) assms(2) j by auto
      ultimately have "key (xs ! ?j) \<le> key (xs ! i)" using assms(1) by (simp add: sorted_upto_def)
      moreover have "i \<noteq> ?m" using \<open>i < k\<close> m(1) by simp
      ultimately show ?thesis using e [OF j] e [of i] \<open>i < k\<close> assms(2) by simp
    qed
  qed
qed

lemma selection_rounds:
  "k \<le> length xs \<Longrightarrow>
   (let r = fold (\<lambda>i xs. swap_at xs i (max_from key xs i)) [0..<k] xs in
    mset r = mset xs \<and> sorted_upto key k r)"
proof (induction k)
  case (Suc k)
  let ?r = "fold (\<lambda>i xs. swap_at xs i (max_from key xs i)) [0..<k] xs"
  have IH: "mset ?r = mset xs" "sorted_upto key k ?r" using Suc by (simp_all add: Let_def)
  have k: "k < length ?r" using Suc.prems mset_eq_length [OF IH(1)] by simp
  show ?case
    using IH sorted_upto_step [OF IH(2) k] max_from_spec(2) [OF k, where key = key] k
    by (simp add: Let_def mset_swap_at)
qed (simp add: sorted_upto_def)

lemma selection_sort_mset [simp]: "mset (selection_sort key xs) = mset xs"
  using selection_rounds [of "length xs" xs key] by (simp add: selection_sort_def Let_def)

lemma length_selection_sort [simp]: "length (selection_sort key xs) = length xs"
  by (rule mset_eq_length) simp

lemma selection_sort_sorted: "sorted_wrt (\<lambda>a b. key b \<le> key a) (selection_sort key xs)"
proof -
  have "sorted_upto key (length xs) (selection_sort key xs)"
    using selection_rounds [of "length xs" xs key] by (simp add: selection_sort_def Let_def)
  then show ?thesis by (simp add: sorted_upto_def sorted_wrt_iff_nth_less)
qed

lemma top_n_spec:
  "length (top_n key n xs) = (if 0 < n then min (nat n) (length xs) else length xs)"
  "sorted_wrt (\<lambda>a b. key b \<le> key a) (top_n key n xs)"
  "\<exists>rest. mset xs = mset (top_n key n xs) + mset rest \<and>
     (\<forall>a \<in> set (top_n key n xs). \<forall>b \<in> set rest. key b \<le> key a)"
proof -
  let ?s = "selection_sort key xs"
  have s: "sorted_wrt (\<lambda>a b. key b \<le> key a) ?s" by (rule selection_sort_sorted)
  show "length (top_n key n xs) = (if 0 < n then min (nat n) (length xs) else length xs)"
    by (auto simp: top_n_def Let_def)
  show "sorted_wrt (\<lambda>a b. key b \<le> key a) (top_n key n xs)"
    using s by (simp add: top_n_def Let_def sorted_wrt_take)
  let ?k = "if 0 < n \<and> n < int (length ?s) then nat n else length ?s"
  have t: "top_n key n xs = take ?k ?s" by (simp add: top_n_def Let_def)
  have "mset xs = mset (take ?k ?s) + mset (drop ?k ?s)"
    by (metis append_take_drop_id mset_append selection_sort_mset)
  moreover have "\<forall>a \<in> set (take ?k ?s). \<forall>b \<in> set (drop ?k ?s). key b \<le> key a"
    using s by (metis append_take_drop_id sorted_wrt_append)
  ultimately show "\<exists>rest. mset xs = mset (top_n key n xs) + mset rest \<and>
      (\<forall>a \<in> set (top_n key n xs). \<forall>b \<in> set rest. key b \<le> key a)"
    unfolding t by blast
qed

section \<open>The bounded table\<close>

text \<open>The abstract table: a queue of pairs, oldest key first.\<close>

definition fifo_put :: "int \<Rightarrow> string \<Rightarrow> ('v \<Rightarrow> 'v) \<Rightarrow> 'v \<Rightarrow> (string \<times> 'v) list \<Rightarrow> (string \<times> 'v) list" where
  "fifo_put lim k upd new q =
     (if k \<in> fst ` set q then map (\<lambda>(k', v). (k', if k' = k then upd v else v)) q
      else (if lim \<le> int (length q) then tl q else q) @ [(k, upd new)])"

definition fifo_run ::
  "int \<Rightarrow> (frame \<Rightarrow> bool) \<Rightarrow> (frame \<Rightarrow> 'v \<Rightarrow> 'v) \<Rightarrow> (frame \<Rightarrow> 'v) \<Rightarrow> frame list
   \<Rightarrow> (string \<times> 'v) list \<Rightarrow> (string \<times> 'v) list" where
  "fifo_run lim acc upd new fs q =
     fold (\<lambda>f q. if acc f then fifo_put lim (f_flow_key f) (upd f) (new f) q else q) fs q"

text \<open>What the frames of one key make of its entry.\<close>

definition entry_run ::
  "(frame \<Rightarrow> 'v \<Rightarrow> 'v) \<Rightarrow> (frame \<Rightarrow> 'v) \<Rightarrow> frame list \<Rightarrow> 'v option \<Rightarrow> 'v option" where
  "entry_run upd new fs v =
     fold (\<lambda>f v. Some (upd f (case v of None \<Rightarrow> new f | Some x \<Rightarrow> x))) fs v"

lemma entry_run_Some: "\<exists>w. entry_run upd new fs (Some v) = Some w"
  unfolding entry_run_def by (induction fs arbitrary: v) auto

lemma map_of_upd_value:
  "map_of (map (\<lambda>(k', v). (k', if k' = k then u v else v)) q) k' =
   (if k' = k then map_option u (map_of q k) else map_of q k')"
  by (induction q) auto

lemma fifo_put_keys:
  "map fst (fifo_put lim k upd new q) =
   (if k \<in> fst ` set q then map fst q
    else (if lim \<le> int (length q) then tl (map fst q) else map fst q) @ [k])"
  by (auto simp: fifo_put_def map_tl comp_def split_beta)

lemma fifo_put_lookup:
  assumes "k \<in> fst ` set q \<or> int (length q) < lim"
  shows "map_of (fifo_put lim k upd new q) k' =
    (if k' = k then Some (upd (case map_of q k of None \<Rightarrow> new | Some v \<Rightarrow> v)) else map_of q k')"
proof (cases "k \<in> fst ` set q")
  case True
  then obtain v where "map_of q k = Some v" by (metis map_of_eq_None_iff option.exhaust)
  with True show ?thesis by (simp add: fifo_put_def map_of_upd_value)
next
  case False
  then have "map_of q k = None" by (simp add: map_of_eq_None_iff)
  with False assms show ?thesis by (auto simp: fifo_put_def map_add_def split: option.split)
qed

lemma fifo_put_bound:
  assumes "distinct (map fst q)" "int (length q) \<le> lim" "0 < lim"
  shows "distinct (map fst (fifo_put lim k upd new q))" "int (length (fifo_put lim k upd new q)) \<le> lim"
proof -
  show "distinct (map fst (fifo_put lim k upd new q))"
    using assms(1) unfolding fifo_put_keys by (cases q) auto
  show "int (length (fifo_put lim k upd new q)) \<le> lim"
    using assms(2,3) by (auto simp: fifo_put_def)
qed

text \<open>As long as the keys fit into the table, nothing is dropped and an entry holds what the
  frames of its key made of it.\<close>

lemma fifo_run_lookup:
  assumes "distinct (map fst q)"
    and "int (card (fst ` set q \<union> f_flow_key ` set (filter acc fs))) \<le> lim"
  shows "map_of (fifo_run lim acc upd new fs q) k =
    entry_run upd new (filter (\<lambda>f. acc f \<and> f_flow_key f = k) fs) (map_of q k)"
  using assms
proof (induction fs arbitrary: q)
  case (Cons f fs)
  show ?case
  proof (cases "acc f")
    case False
    with Cons show ?thesis by (simp add: fifo_run_def)
  next
    case True
    let ?k = "f_flow_key f" and ?K = "f_flow_key ` set (filter acc fs)"
    let ?q = "fifo_put lim ?k (upd f) (new f) q"
    have card: "int (card (insert ?k (fst ` set q \<union> ?K))) \<le> lim"
      using Cons.prems(2) True by simp
    have room: "?k \<in> fst ` set q \<or> int (length q) < lim"
    proof (rule disjCI)
      assume "\<not> int (length q) < lim"
      then have "lim \<le> int (card (fst ` set q))"
        using Cons.prems(1) by (metis distinct_card length_map not_le set_map)
      show "?k \<in> fst ` set q"
      proof (rule ccontr)
        assume "?k \<notin> fst ` set q"
        then have "card (insert ?k (fst ` set q)) = Suc (card (fst ` set q))" by simp
        moreover have "card (insert ?k (fst ` set q)) \<le> card (insert ?k (fst ` set q \<union> ?K))"
          by (intro card_mono) auto
        ultimately show False using card \<open>lim \<le> int (card (fst ` set q))\<close> by simp
      qed
    qed
    have keys: "map fst ?q = (if ?k \<in> fst ` set q then map fst q else map fst q @ [?k])"
      using room by (auto simp: fifo_put_keys)
    then have ks: "fst ` set ?q = insert ?k (fst ` set q)"
      by (auto simp flip: set_map split: if_splits)
    have d: "distinct (map fst ?q)" using Cons.prems(1) keys by (auto simp flip: set_map)
    have "map_of (fifo_run lim acc upd new fs ?q) k =
        entry_run upd new (filter (\<lambda>f. acc f \<and> f_flow_key f = k) fs) (map_of ?q k)"
      using d card ks by (intro Cons.IH) (simp_all add: Un_commute)
    with True show ?thesis
      by (simp add: fifo_run_def entry_run_def fifo_put_lookup [OF room])
  qed
qed (simp add: fifo_run_def entry_run_def)

text \<open>The concrete table: a map and the order its keys came in.\<close>

definition fifo_inv :: "int \<Rightarrow> (string \<times> 'v) list \<Rightarrow> string list \<Rightarrow> bool" where
  "fifo_inv lim tab order = (distinct (map fst tab) \<and> distinct order \<and> set order = fst ` set tab \<and>
     int (length tab) \<le> lim \<and> 0 < lim)"

definition fifo_abs :: "(string \<times> 'v) list \<Rightarrow> string list \<Rightarrow> (string \<times> 'v) list" where
  "fifo_abs tab order = map (\<lambda>k. (k, the (map_of tab k))) order"

lemma fifo_abs_keys: "map fst (fifo_abs tab order) = order"
  by (simp add: fifo_abs_def comp_def)

lemma fifo_inv_length: "fifo_inv lim tab order \<Longrightarrow> length order = length tab"
  by (metis distinct_card fifo_inv_def length_map set_map)

lemma map_of_fifo_abs: "set order = fst ` set tab \<Longrightarrow> map_of (fifo_abs tab order) = map_of tab"
proof
  fix k assume o: "set order = fst ` set tab"
  show "map_of (fifo_abs tab order) k = map_of tab k"
  proof (cases "k \<in> set order")
    case True
    then have "map_of (fifo_abs tab order) k = Some (the (map_of tab k))"
      unfolding fifo_abs_def by (induction order) auto
    with True o show ?thesis by (metis domIff dom_map_of_conv_image_fst option.collapse)
  next
    case False
    then have "map_of (fifo_abs tab order) k = None" "map_of tab k = None"
      using o by (auto simp: map_of_eq_None_iff fifo_abs_keys simp flip: set_map)
    then show ?thesis by simp
  qed
qed

lemma fifo_inv_hit:
  assumes "fifo_inv lim tab order" "map_of tab k = Some v"
  shows "fifo_inv lim (AList.update k x tab) order"
proof -
  have "k \<in> fst ` set tab" using assms(2) by (force dest: map_of_SomeD)
  then have "map fst (AList.update k x tab) = map fst tab" by (simp add: update_keys)
  with assms(1) show ?thesis
    unfolding fifo_inv_def by (metis length_map set_map)
qed

lemma fifo_abs_hit:
  assumes "fifo_inv lim tab order" "map_of tab k = Some v"
  shows "fifo_abs (AList.update k (u v) tab) order
    = map (\<lambda>(k', v). (k', if k' = k then u v else v)) (fifo_abs tab order)"
  using assms(2) by (auto simp: fifo_abs_def update_conv')

lemma alist_update_new: "k \<notin> fst ` set al \<Longrightarrow> AList.update k v al = al @ [(k, v)]"
  by (induction al) auto

lemma alist_delete_dom: "fst ` set (AList.delete k al) = fst ` set al - {k}"
  by (metis delete_keys set_map set_removeAll)

lemma fifo_add:
  assumes "fifo_inv lim tab order" "k \<notin> fst ` set tab" "int (length tab) < lim"
  shows "fifo_inv lim (AList.update k x tab) (order @ [k])"
    "fifo_abs (AList.update k x tab) (order @ [k]) = fifo_abs tab order @ [(k, x)]"
proof -
  have "AList.update k x tab = tab @ [(k, x)]" using assms(2) by (rule alist_update_new)
  with assms show "fifo_inv lim (AList.update k x tab) (order @ [k])"
    by (auto simp: fifo_inv_def)
  from assms(1,2) have "k \<notin> set order" by (simp add: fifo_inv_def)
  then show "fifo_abs (AList.update k x tab) (order @ [k]) = fifo_abs tab order @ [(k, x)]"
    by (auto simp: fifo_abs_def update_conv')
qed

lemma fifo_drop:
  assumes "fifo_inv lim tab (old # ks)" "k \<notin> fst ` set tab"
  shows "fifo_inv lim (AList.update k x (AList.delete old tab)) (ks @ [k])"
    "fifo_abs (AList.update k x (AList.delete old tab)) (ks @ [k]) = fifo_abs tab ks @ [(k, x)]"
proof -
  let ?t = "AList.delete old tab"
  have o: "old \<in> fst ` set tab" "old \<notin> set ks" and set_ks: "set ks = fst ` set tab - {old}"
    using assms(1) by (auto simp: fifo_inv_def)
  have l: "length ?t < length tab"
    using length_removeAll_less [of old "map fst tab"] o(1)
    by (metis delete_keys length_map set_map)
  have "fifo_inv lim ?t ks"
    using assms(1) set_ks l unfolding fifo_inv_def by (simp add: distinct_delete alist_delete_dom)
  moreover have "k \<notin> fst ` set ?t" using assms(2) by (simp add: alist_delete_dom)
  moreover have "int (length ?t) < lim" using l assms(1) by (simp add: fifo_inv_def)
  ultimately show "fifo_inv lim (AList.update k x ?t) (ks @ [k])"
    "fifo_abs (AList.update k x ?t) (ks @ [k]) = fifo_abs tab ks @ [(k, x)]"
    using fifo_add [of lim ?t ks k x] o by (auto simp: fifo_abs_def delete_conv')
qed

text \<open>The contract: \<open>observe\<close> skips the frames without a key it accepts; it updates the entry of
  a known key in place; a new key is appended, after the oldest was dropped if the table was
  full (\<open>None\<close>: the order was empty and Go panics).\<close>

locale bounded_fifo =
  fixes observe :: "frame \<Rightarrow> 's \<Rightarrow> 's option"
    and table :: "'s \<Rightarrow> (string \<times> 'v) list"
    and order :: "'s \<Rightarrow> string list"
    and limit :: "'s \<Rightarrow> int"
    and accepts :: "frame \<Rightarrow> bool"
    and upd :: "'s \<Rightarrow> frame \<Rightarrow> 'v \<Rightarrow> 'v"
    and new :: "frame \<Rightarrow> 'v"
  assumes skip: "\<not> accepts f \<Longrightarrow> observe f s = Some s"
    and known: "accepts f \<Longrightarrow> map_of (table s) (f_flow_key f) = Some v \<Longrightarrow>
      \<exists>s'. observe f s = Some s' \<and> table s' = AList.update (f_flow_key f) (upd s f v) (table s) \<and>
        order s' = order s \<and> limit s' = limit s \<and> upd s' = upd s"
    and room: "accepts f \<Longrightarrow> map_of (table s) (f_flow_key f) = None \<Longrightarrow>
      int (length (table s)) < limit s \<Longrightarrow>
      \<exists>s'. observe f s = Some s' \<and>
        table s' = AList.update (f_flow_key f) (upd s f (new f)) (table s) \<and>
        order s' = order s @ [f_flow_key f] \<and> limit s' = limit s \<and> upd s' = upd s"
    and full: "accepts f \<Longrightarrow> map_of (table s) (f_flow_key f) = None \<Longrightarrow>
      limit s \<le> int (length (table s)) \<Longrightarrow> order s = old # keys \<Longrightarrow>
      \<exists>s'. observe f s = Some s' \<and>
        table s' = AList.update (f_flow_key f) (upd s f (new f)) (AList.delete old (table s)) \<and>
        order s' = keys @ [f_flow_key f] \<and> limit s' = limit s \<and> upd s' = upd s"
begin

definition inv :: "'s \<Rightarrow> bool" where
  "inv s = fifo_inv (limit s) (table s) (order s)"

definition absq :: "'s \<Rightarrow> (string \<times> 'v) list" where
  "absq s = fifo_abs (table s) (order s)"

text \<open>An observation from a good table does not panic, keeps the invariant and acts on the queue
  as \<open>fifo_put\<close> does.\<close>

lemma observe_refines:
  assumes "inv s"
  shows "\<exists>s'. observe f s = Some s' \<and> inv s' \<and> limit s' = limit s \<and> upd s' = upd s \<and>
    absq s' = (if accepts f then fifo_put (limit s) (f_flow_key f) (upd s f) (new f) (absq s)
               else absq s)"
proof (cases "accepts f")
  case False
  with skip assms show ?thesis by auto
next
  case True
  let ?k = "f_flow_key f"
  have I: "fifo_inv (limit s) (table s) (order s)" using assms by (simp add: inv_def)
  have keys: "fst ` set (absq s) = fst ` set (table s)"
    using I by (metis absq_def fifo_abs_keys fifo_inv_def set_map)
  have len: "length (absq s) = length (table s)"
    using fifo_inv_length [OF I] by (simp add: absq_def fifo_abs_def)
  show ?thesis
  proof (cases "map_of (table s) ?k")
    case (Some v)
    from known [OF True Some] obtain s' where s': "observe f s = Some s'"
      "table s' = AList.update ?k (upd s f v) (table s)" "order s' = order s"
      "limit s' = limit s" "upd s' = upd s" by blast
    have "?k \<in> fst ` set (table s)" using Some by (force dest: map_of_SomeD)
    then show ?thesis
      using s' I Some True fifo_abs_hit [OF I Some, of "upd s f"] fifo_inv_hit [OF I Some] keys
      by (simp add: inv_def absq_def fifo_put_def)
  next
    case None
    then have nk: "?k \<notin> fst ` set (table s)" by (simp add: map_of_eq_None_iff)
    show ?thesis
    proof (cases "int (length (table s)) < limit s")
      case True
      from room [OF \<open>accepts f\<close> None True] obtain s' where s': "observe f s = Some s'"
        "table s' = AList.update ?k (upd s f (new f)) (table s)" "order s' = order s @ [?k]"
        "limit s' = limit s" "upd s' = upd s" by blast
      then show ?thesis
        using fifo_add [OF I nk True, of "upd s f (new f)"] \<open>accepts f\<close> True keys nk len
        by (simp add: inv_def absq_def fifo_put_def)
    next
      case False
      then have "order s \<noteq> []" using I fifo_inv_length [OF I] by (auto simp: fifo_inv_def)
      then obtain old ks where o: "order s = old # ks" by (cases "order s") auto
      from full [OF \<open>accepts f\<close> None _ o] False obtain s' where s': "observe f s = Some s'"
        "table s' = AList.update ?k (upd s f (new f)) (AList.delete old (table s))"
        "order s' = ks @ [?k]" "limit s' = limit s" "upd s' = upd s" by auto
      then show ?thesis
        using fifo_drop [OF I [unfolded o] nk, of "upd s f (new f)"] \<open>accepts f\<close> False keys nk len
        by (simp add: inv_def absq_def fifo_put_def o fifo_abs_def)
    qed
  qed
qed

lemma run_refines:
  "inv s \<Longrightarrow>
   \<exists>s'. run_all observe fs s = Some s' \<and> inv s' \<and> limit s' = limit s \<and> upd s' = upd s \<and>
     absq s' = fifo_run (limit s) accepts (upd s) new fs (absq s)"
proof (induction fs arbitrary: s)
  case (Cons f fs)
  from observe_refines [OF Cons.prems, of f] obtain s1 where s1: "observe f s = Some s1" "inv s1"
    "limit s1 = limit s" "upd s1 = upd s"
    "absq s1 = (if accepts f then fifo_put (limit s) (f_flow_key f) (upd s f) (new f) (absq s)
               else absq s)" by blast
  from Cons.IH [OF s1(2)] s1 show ?case by (auto simp: fifo_run_def)
qed (simp add: fifo_run_def)

lemma run_bounded:
  assumes "inv s" "run_all observe fs s = Some s'"
  shows "int (length (table s')) \<le> limit s" "distinct (map fst (table s'))"
  using run_refines [OF assms(1), of fs] assms(2) by (auto simp: inv_def fifo_inv_def)

lemma run_lookup:
  assumes "inv s" "table s = []" "run_all observe fs s = Some s'"
    and "int (card (f_flow_key ` set (filter accepts fs))) \<le> limit s"
  shows "map_of (table s') k =
    entry_run (upd s) new (filter (\<lambda>f. accepts f \<and> f_flow_key f = k) fs) None"
proof -
  have q: "absq s = []"
    using assms(1,2) fifo_inv_length [of "limit s" "table s" "order s"]
    by (simp add: inv_def absq_def fifo_abs_def)
  from run_refines [OF assms(1), of fs] assms(3)
  have "inv s'" and a: "absq s' = fifo_run (limit s) accepts (upd s) new fs []" by (auto simp: q)
  then have "set (order s') = fst ` set (table s')" by (simp add: inv_def fifo_inv_def)
  then have "map_of (table s') = map_of (absq s')" by (simp add: absq_def map_of_fifo_abs)
  with a assms(4) show ?thesis by (simp add: fifo_run_lookup)
qed

end

end
