(* ===== verification/Flow.thy ===== *)
theory Flow
  imports Fifo
begin

text \<open>
  \<open>internal/flow/tracker.go\<close>: the conversation table. The Go map of pointers is an association
  list of values; a change through the pointer is an update of its entry. \<open>tracker_observe\<close>
  is \<open>None\<close> where \<open>t.order[0]\<close> would panic. \<open>Top\<close> depends on Go's map iteration order, which
  is the permutation \<open>iter\<close>. The tracker is interpreted as a \<open>bounded_fifo\<close>; from it follow
  the bound, the refinement and the totals of a conversation. The read-write mutex makes each
  operation atomic and is not modelled.
\<close>

section \<open>Flag sets\<close>

text \<open>\<open>cur\<close> is \<open>s[start:i]\<close>.\<close>

fun split_flags_from :: "string \<Rightarrow> string \<Rightarrow> string list" where
  "split_flags_from cur [] = (if cur \<noteq> [] then [cur] else [])"
| "split_flags_from cur (c # s) =
     (if c = CHR '','' then (if cur \<noteq> [] then [cur] else []) @ split_flags_from [] s
      else split_flags_from (cur @ [c]) s)"

definition split_flags :: "string \<Rightarrow> string list" where
  "split_flags s = (if s = [] then [] else split_flags_from [] s)"

definition merge_order :: "string list" where
  "merge_order = [''SYN'', ''ACK'', ''PSH'', ''FIN'', ''RST'', ''URG'', ''ECE'', ''CWR'']"

definition merge_flags :: "string \<Rightarrow> string \<Rightarrow> string" where
  "merge_flags a b =
     (let S = split_flags a @ split_flags b in
      fold (\<lambda>n out. if n \<in> set S then (if out \<noteq> [] then out @ '','' else out) @ n else out)
        merge_order [])"

section \<open>Conversations\<close>

record conversation =
  c_key :: string
  c_protocol :: string
  c_src :: string
  c_dst :: string
  c_sport :: string
  c_dport :: string
  c_packets :: u64
  c_bytes :: u64
  c_first_seen :: gotime
  c_last_seen :: gotime
  c_tcp_flags :: string
  c_app_protocol :: string
  c_sni :: string
  c_ja3 :: string

record tracker =
  t_flows :: "(string \<times> conversation) list"
  t_order :: "string list"
  t_limit :: int

definition new_tracker :: "int \<Rightarrow> tracker" where
  "new_tracker limit =
     \<lparr>t_flows = [], t_order = [], t_limit = (if limit \<le> 0 then 5000 else limit)\<rparr>"

text \<open>\<open>LastSeen\<close> of a new conversation is the zero time until it is set a few lines on.\<close>

definition new_conversation :: "frame \<Rightarrow> conversation" where
  "new_conversation f =
     (let src = gget (f_meta f) ''ip_src''; dst = gget (f_meta f) ''ip_dst'' in
      \<lparr>c_key = f_flow_key f, c_protocol = gget (f_meta f) ''ip_proto'',
       c_src = (if src = [] then f_src f else src), c_dst = (if dst = [] then f_dst f else dst),
       c_sport = gget (f_meta f) ''sport'', c_dport = gget (f_meta f) ''dport'',
       c_packets = 0, c_bytes = 0, c_first_seen = f_timestamp f,
       c_last_seen = - 62135596800 * 1000000000, c_tcp_flags = [], c_app_protocol = [],
       c_sni = [], c_ja3 = []\<rparr>)"

definition flow_apps :: "string list" where
  "flow_apps = [''TLS'', ''HTTP'', ''HTTP/2'', ''DNS'', ''QUIC'', ''SSH'']"

definition update_conversation :: "frame \<Rightarrow> conversation \<Rightarrow> conversation" where
  "update_conversation f c =
     (let c = c\<lparr>c_packets := c_packets c + 1, c_bytes := c_bytes c + word_of_nat (f_length f),
                c_last_seen := f_timestamp f\<rparr>;
          flags = gget (f_meta f) ''tcp_flags'';
          c = (if flags \<noteq> [] then c\<lparr>c_tcp_flags := merge_flags (c_tcp_flags c) flags\<rparr> else c);
          c = (if f_protocol f \<in> set flow_apps then c\<lparr>c_app_protocol := f_protocol f\<rparr> else c);
          sni = gget (f_meta f) ''sni'';
          c = (if sni \<noteq> [] then c\<lparr>c_sni := sni\<rparr> else c);
          ja3 = gget (f_meta f) ''ja3''
      in if ja3 \<noteq> [] then c\<lparr>c_ja3 := ja3\<rparr> else c)"

definition tracker_accepts :: "frame \<Rightarrow> bool" where
  "tracker_accepts f = (\<not> (f_flow_key f = [] \<or> f_flow_key f = ''|:-:''))"

definition tracker_observe :: "frame \<Rightarrow> tracker \<Rightarrow> tracker option" where
  "tracker_observe f t =
     (if \<not> tracker_accepts f then Some t
      else do {
        let k = f_flow_key f;
        (t, c) \<leftarrow> (case map_of (t_flows t) k of
            Some c \<Rightarrow> Some (t, c)
          | None \<Rightarrow> do {
              t \<leftarrow> (if t_limit t \<le> int (length (t_flows t)) then do {
                      old \<leftarrow> idx (t_order t) 0;
                      Some (t\<lparr>t_order := tl (t_order t), t_flows := AList.delete old (t_flows t)\<rparr>)
                    }
                    else Some t);
              let c = new_conversation f;
              Some (t\<lparr>t_flows := AList.update k c (t_flows t), t_order := t_order t @ [k]\<rparr>, c)
            });
        Some (t\<lparr>t_flows := AList.update k (update_conversation f c) (t_flows t)\<rparr>)
      })"

definition tracker_top :: "(conversation list \<Rightarrow> conversation list) \<Rightarrow> int \<Rightarrow> tracker \<Rightarrow> conversation list" where
  "tracker_top iter n t = top_n c_bytes n (iter (map snd (t_flows t)))"

definition tracker_count :: "tracker \<Rightarrow> int" where
  "tracker_count t = int (length (t_flows t))"

definition tracker_snapshot :: "(conversation list \<Rightarrow> conversation list) \<Rightarrow> tracker \<Rightarrow> conversation list" where
  "tracker_snapshot iter t = tracker_top iter 0 t"

section \<open>The tracker is a bounded FIFO table\<close>

interpretation conv: bounded_fifo tracker_observe t_flows t_order t_limit tracker_accepts
  "\<lambda>_. update_conversation" new_conversation
proof unfold_locales
  fix f t assume "\<not> tracker_accepts f"
  then show "tracker_observe f t = Some t" by (simp add: tracker_observe_def)
qed (auto simp: tracker_observe_def idx_def Let_def)

lemma new_tracker_inv: "conv.inv (new_tracker n)"
  by (simp add: conv.inv_def fifo_inv_def new_tracker_def)

lemma conversation_run:
  "entry_run update_conversation new_conversation fs (Some c) = Some c' \<Longrightarrow>
   c_packets c' = c_packets c + word_of_nat (length fs) \<and>
   c_bytes c' = c_bytes c + word_of_nat (sum_list (map f_length fs)) \<and>
   c_first_seen c' = c_first_seen c \<and>
   c_last_seen c' = (if fs = [] then c_last_seen c else f_timestamp (last fs))"
proof (induction fs arbitrary: c)
  case (Cons f fs)
  have u: "c_packets (update_conversation f c) = c_packets c + 1"
    "c_bytes (update_conversation f c) = c_bytes c + word_of_nat (f_length f)"
    "c_first_seen (update_conversation f c) = c_first_seen c"
    "c_last_seen (update_conversation f c) = f_timestamp f"
    by (simp_all add: update_conversation_def Let_def)
  from Cons.prems have "entry_run update_conversation new_conversation fs
      (Some (update_conversation f c)) = Some c'" by (simp add: entry_run_def)
  from Cons.IH [OF this] u show ?case by (auto simp: algebra_simps)
qed (simp add: entry_run_def)

lemma new_conversation_fields:
  "c_packets (new_conversation f) = 0" "c_bytes (new_conversation f) = 0"
  "c_first_seen (new_conversation f) = f_timestamp f"
  by (simp_all add: new_conversation_def Let_def)

section \<open>The flag string\<close>

lemma split_flags_from_join:
  "CHR '','' \<notin> set cur \<Longrightarrow> cur \<noteq> [] \<Longrightarrow> CHR '','' \<notin> set x \<Longrightarrow>
   split_flags_from cur (x @ CHR '','' # s) = (cur @ x) # split_flags_from [] s"
  "CHR '','' \<notin> set x \<Longrightarrow> cur @ x \<noteq> [] \<Longrightarrow> split_flags_from cur x = [cur @ x]"
  by (induction x arbitrary: cur) auto

lemma split_flags_join:
  assumes "\<forall>x \<in> set ps. x \<noteq> [] \<and> CHR '','' \<notin> set x"
  shows "split_flags (join '','' ps) = ps"
proof -
  have "split_flags_from [] (join '','' ps) = ps"
    using assms
  proof (induction ps)
    case (Cons p ps)
    then obtain c x where p: "p = c # x" "c \<noteq> CHR '',''" "CHR '','' \<notin> set x" by (cases p) auto
    show ?case
    proof (cases "ps = []")
      case True
      with p show ?thesis by (simp add: split_flags_from_join(2) [of x "[c]", simplified])
    next
      case False
      with p Cons show ?thesis by (simp add: join_Cons split_flags_from_join(1))
    qed
  qed simp
  then show ?thesis by (auto simp: split_flags_def)
qed

lemma merge_flags_join:
  "merge_flags a b = join '','' (filter (\<lambda>n. n \<in> set (split_flags a @ split_flags b)) merge_order)"
proof -
  have "\<forall>x \<in> set merge_order. (\<lambda>x. x) x \<noteq> []" by (simp add: merge_order_def)
  from join_fold [OF this, of "[]" "\<lambda>n. n \<in> set (split_flags a @ split_flags b)" "'',''"]
  show ?thesis by (simp add: merge_flags_def)
qed

lemma split_merge_flags:
  "split_flags (merge_flags a b) = filter (\<lambda>n. n \<in> set (split_flags a @ split_flags b)) merge_order"
  unfolding merge_flags_join by (rule split_flags_join) (auto simp: merge_order_def)

section \<open>Properties\<close>

text \<open>C22: whatever frames arrive, the tracker does not panic, holds at most its limit of
  conversations under distinct keys, and acts as a queue that drops the key it saw first.\<close>

theorem tracker_refines_fifo:
  "\<exists>t. run_all tracker_observe fs (new_tracker n) = Some t \<and>
     int (length (t_flows t)) \<le> t_limit (new_tracker n) \<and> distinct (map fst (t_flows t)) \<and>
     fifo_abs (t_flows t) (t_order t) =
       fifo_run (t_limit (new_tracker n)) tracker_accepts update_conversation new_conversation fs []"
proof -
  have "conv.absq (new_tracker n) = []" by (simp add: conv.absq_def fifo_abs_def new_tracker_def)
  with conv.run_refines [OF new_tracker_inv, of fs n] show ?thesis
    by (auto simp: conv.inv_def fifo_inv_def conv.absq_def)
qed

text \<open>C23: while the flow keys fit into the table, a conversation counts exactly the frames of
  its key and their bytes (modulo \<open>2^64\<close>), from the first one's timestamp to the last one's.\<close>

theorem conversation_totals:
  assumes "run_all tracker_observe fs (new_tracker n) = Some t"
    and "int (card (f_flow_key ` set (filter tracker_accepts fs))) \<le> t_limit (new_tracker n)"
    and "gs = filter (\<lambda>f. tracker_accepts f \<and> f_flow_key f = k) fs" "gs \<noteq> []"
  shows "\<exists>c. map_of (t_flows t) k = Some c \<and> c_packets c = word_of_nat (length gs) \<and>
    c_bytes c = word_of_nat (sum_list (map f_length gs)) \<and>
    c_first_seen c = f_timestamp (hd gs) \<and> c_last_seen c = f_timestamp (last gs)"
proof -
  obtain g hs where g: "gs = g # hs" using assms(4) by (cases gs) auto
  have "t_flows (new_tracker n) = []" by (simp add: new_tracker_def)
  from conv.run_lookup [OF new_tracker_inv this assms(1,2), of k]
  have "map_of (t_flows t) k = entry_run update_conversation new_conversation hs
      (Some (update_conversation g (new_conversation g)))"
    by (simp add: g entry_run_def flip: assms(3))
  moreover obtain c where c: "entry_run update_conversation new_conversation hs
      (Some (update_conversation g (new_conversation g))) = Some c"
    by (metis entry_run_Some)
  ultimately show ?thesis
    using conversation_run [OF c]
    by (auto simp: g update_conversation_def Let_def new_conversation_def algebra_simps)
qed

lemma conversation_totals_witness:
  "\<exists>t c. run_all tracker_observe
       [(blank_frame 1 10 0 0 [])\<lparr>f_flow_key := ''k''\<rparr>, (blank_frame 2 20 0 0 [1, 2])\<lparr>f_flow_key := ''k''\<rparr>]
       (new_tracker 1) = Some t \<and> map_of (t_flows t) ''k'' = Some c \<and>
     c_packets c = 2 \<and> c_bytes c = 2 \<and> c_first_seen c = 10 \<and> c_last_seen c = 20"
proof -
  let ?fs = "[(blank_frame 1 10 0 0 [])\<lparr>f_flow_key := ''k''\<rparr>,
    (blank_frame 2 20 0 0 [1, 2])\<lparr>f_flow_key := ''k''\<rparr>]"
  obtain t where t: "run_all tracker_observe ?fs (new_tracker 1) = Some t"
    using conv.run_refines [OF new_tracker_inv, of ?fs 1] by blast
  have acc: "filter (\<lambda>f. tracker_accepts f \<and> f_flow_key f = ''k'') ?fs = ?fs"
    "filter tracker_accepts ?fs = ?fs" by (simp_all add: tracker_accepts_def)
  have "\<exists>c. map_of (t_flows t) ''k'' = Some c \<and> c_packets c = word_of_nat (length ?fs) \<and>
      c_bytes c = word_of_nat (sum_list (map f_length ?fs)) \<and>
      c_first_seen c = f_timestamp (hd ?fs) \<and> c_last_seen c = f_timestamp (last ?fs)"
    by (rule conversation_totals [OF t _ acc(1) [symmetric]]) (simp_all add: acc(2) new_tracker_def)
  with t show ?thesis by (auto simp: blank_frame_def)
qed

text \<open>\<open>Top(n)\<close> lists the conversations with the most bytes, in descending order: \<open>n\<close> of
  them if there are that many, and none left out has more bytes than one listed, in whatever
  order Go walks the map.\<close>

theorem tracker_top_spec:
  assumes "mset (iter (map snd (t_flows t))) = mset (map snd (t_flows t))"
  shows "sorted_wrt (\<lambda>a b. c_bytes b \<le> c_bytes a) (tracker_top iter n t) \<and>
    int (length (tracker_top iter n t)) = (if 0 < n then min n (tracker_count t) else tracker_count t) \<and>
    (\<exists>rest. mset (map snd (t_flows t)) = mset (tracker_top iter n t) + mset rest \<and>
      (\<forall>a \<in> set (tracker_top iter n t). \<forall>b \<in> set rest. c_bytes b \<le> c_bytes a))"
  using top_n_spec [where key = c_bytes and n = n and xs = "iter (map snd (t_flows t))"]
    mset_eq_length [OF assms] assms
  by (auto simp: tracker_top_def tracker_count_def)

lemma tracker_top_witness:
  "sorted_wrt (\<lambda>a b. c_bytes b \<le> c_bytes a) (tracker_top rev 3 (new_tracker 1)) \<and>
   int (length (tracker_top rev 3 (new_tracker 1))) = 0"
  using tracker_top_spec [of rev "new_tracker 1" 3]
  by (simp add: tracker_count_def new_tracker_def)

text \<open>Merging flag strings is the union of their flags, in a fixed order and without any
  flag outside it; \<open>NS\<close>, which the dissector writes, is lost.\<close>

theorem merge_flags_union:
  "split_flags (merge_flags a b) =
     filter (\<lambda>n. n \<in> set (split_flags a) \<or> n \<in> set (split_flags b)) merge_order \<and>
   ''NS'' \<notin> set (split_flags (merge_flags a b))"
  by (simp add: split_merge_flags) (simp add: merge_order_def)

end
