(* ===== verification/Stats.thy ===== *)
theory Stats
  imports Fifo
begin

text \<open>
  \<open>internal/stats/engine.go\<close>: the traffic counters. The counter maps are partial functions
  (they are only copied), the talkers an association list (\<open>Snapshot\<close> sorts what the iteration
  over the map gives). \<open>now\<close> is the clock in seconds, which \<open>Observe\<close> reads when a frame's
  time is in the first second of 1970. \<open>None\<close> is the panic of an index expression. The rates,
  averages and elapsed seconds of a snapshot, which are floating-point numbers, are left out.
  The lemmas: each counter counts what it says, and the timeline is the last 600 runs of
  frames within the same second.
\<close>

section \<open>State\<close>

record talker =
  tk_addr :: string
  tk_packets :: u64
  tk_bytes :: u64

record bucket =
  b_t :: int
  b_packets :: u64
  b_bytes :: u64

record stats =
  st_packets :: u64
  st_bytes :: u64
  st_started :: gotime
  st_protocols :: "string \<rightharpoonup> u64"
  st_talkers :: "(string \<times> talker) list"
  st_ports :: "string \<rightharpoonup> u64"
  st_severity :: "string \<rightharpoonup> u64"
  st_timeline :: "bucket list"
  st_bucket_sec :: int

record snapshot =
  sn_packets :: u64
  sn_bytes :: u64
  sn_protocols :: "string \<rightharpoonup> u64"
  sn_top_talkers :: "talker list"
  sn_ports :: "string \<rightharpoonup> u64"
  sn_severity :: "string \<rightharpoonup> u64"
  sn_started_at :: gotime
  sn_timeline :: "bucket list"

definition new_stats :: "gotime \<Rightarrow> stats" where
  "new_stats t =
     \<lparr>st_packets = 0, st_bytes = 0, st_started = t, st_protocols = Map.empty, st_talkers = [],
      st_ports = Map.empty, st_severity = Map.empty, st_timeline = [], st_bucket_sec = 0\<rparr>"

section \<open>Observing a frame\<close>

text \<open>The expression \<open>m[k]++\<close>.\<close>

definition getc :: "(string \<rightharpoonup> u64) \<Rightarrow> string \<Rightarrow> u64" where
  "getc m k = (case m k of None \<Rightarrow> 0 | Some v \<Rightarrow> v)"

definition incr :: "string \<Rightarrow> (string \<rightharpoonup> u64) \<Rightarrow> (string \<rightharpoonup> u64)" where
  "incr k m = m(k \<mapsto> getc m k + 1)"

definition count_talker :: "frame \<Rightarrow> string \<Rightarrow> (string \<times> talker) list \<Rightarrow> (string \<times> talker) list" where
  "count_talker f addr ts =
     (if addr = [] then ts
      else
        let t = (case map_of ts addr of
                   Some t \<Rightarrow> t
                 | None \<Rightarrow> \<lparr>tk_addr = addr, tk_packets = 0, tk_bytes = 0\<rparr>)
        in AList.update addr
             (t\<lparr>tk_packets := tk_packets t + 1, tk_bytes := tk_bytes t + word_of_nat (f_length f)\<rparr>) ts)"

definition frame_second :: "int \<Rightarrow> frame \<Rightarrow> int" where
  "frame_second now f =
     (let sec = f_timestamp f div 1000000000 in if sec = 0 then now else sec)"

definition last_at :: "'a list \<Rightarrow> 'a option" where
  "last_at xs = (if xs = [] then None else idx xs (length xs - 1))"

definition observe_timeline :: "int \<Rightarrow> frame \<Rightarrow> bucket list \<Rightarrow> bucket list option" where
  "observe_timeline now f line = do {
     let sec = frame_second now f;
     fresh \<leftarrow> (if line = [] then Some True else do { b \<leftarrow> last_at line; Some (b_t b \<noteq> sec) });
     line \<leftarrow> (if fresh then
              let line = line @ [\<lparr>b_t = sec, b_packets = 0, b_bytes = 0\<rparr>] in
              if 600 < length line then slice line (length line - 600) (length line) else Some line
            else Some line);
     b \<leftarrow> last_at line;
     Some (line[length line - 1 := b\<lparr>b_packets := b_packets b + 1,
                               b_bytes := b_bytes b + word_of_nat (f_length f)\<rparr>])
   }"

definition stats_observe :: "int \<Rightarrow> frame \<Rightarrow> stats \<Rightarrow> stats option" where
  "stats_observe now f s = do {
     let s = s\<lparr>st_packets := st_packets s + 1, st_bytes := st_bytes s + word_of_nat (f_length f)\<rparr>;
     let s = s\<lparr>st_protocols := incr (f_protocol f) (st_protocols s)\<rparr>;
     let s = (if f_severity f = [] then s\<lparr>st_severity := incr ''info'' (st_severity s)\<rparr>
              else s\<lparr>st_severity := incr (f_severity f) (st_severity s)\<rparr>);
     let s = s\<lparr>st_talkers := fold (count_talker f) [gget (f_meta f) ''ip_src'', gget (f_meta f) ''ip_dst'']
                 (st_talkers s)\<rparr>;
     let p = gget (f_meta f) ''dport'';
     let s = (if p \<noteq> [] then s\<lparr>st_ports := incr p (st_ports s)\<rparr> else s);
     line \<leftarrow> observe_timeline now f (st_timeline s);
     Some (s\<lparr>st_timeline := line\<rparr>)
   }"

definition stats_snapshot :: "(talker list \<Rightarrow> talker list) \<Rightarrow> stats \<Rightarrow> snapshot" where
  "stats_snapshot iter s =
     (let talkers = selection_sort tk_bytes (iter (map snd (st_talkers s)));
          talkers = (if 15 < length talkers then take 15 talkers else talkers)
      in \<lparr>sn_packets = st_packets s, sn_bytes = st_bytes s, sn_protocols = st_protocols s,
          sn_top_talkers = talkers, sn_ports = st_ports s, sn_severity = st_severity s,
          sn_started_at = st_started s, sn_timeline = st_timeline s\<rparr>)"

definition stats_reset :: "gotime \<Rightarrow> stats \<Rightarrow> stats" where
  "stats_reset now s =
     s\<lparr>st_packets := 0, st_bytes := 0, st_started := now, st_protocols := Map.empty,
       st_talkers := [], st_ports := Map.empty, st_severity := Map.empty,
       st_timeline := take 0 (st_timeline s)\<rparr>"

section \<open>The timeline\<close>

text \<open>The runs of neighbouring elements with the same key.\<close>

fun runs :: "('a \<Rightarrow> int) \<Rightarrow> 'a list \<Rightarrow> 'a list list" where
  "runs key [] = []"
| "runs key (x # xs) =
     (case runs key xs of
        [] \<Rightarrow> [[x]]
      | r # rs \<Rightarrow> if key (hd r) = key x then (x # r) # rs else [x] # r # rs)"

definition run_bucket :: "(int \<times> frame) list \<Rightarrow> bucket" where
  "run_bucket r =
     \<lparr>b_t = (case hd r of (now, f) \<Rightarrow> frame_second now f), b_packets = word_of_nat (length r),
      b_bytes = word_of_nat (sum_list (map (f_length \<circ> snd) r))\<rparr>"

definition run_buckets :: "(int \<times> frame) list \<Rightarrow> bucket list" where
  "run_buckets fs = map run_bucket (runs (\<lambda>(now, f). frame_second now f) fs)"

lemma runs_Nil_iff [simp]: "runs key xs = [] \<longleftrightarrow> xs = []"
  by (cases xs) (auto split: list.splits)

lemma runs_nonempty: "r \<in> set (runs key xs) \<Longrightarrow> r \<noteq> [] \<and> (\<forall>x \<in> set r. key x = key (hd r))"
proof (induction xs arbitrary: r)
  case (Cons x xs)
  show ?case
  proof (cases "runs key xs")
    case Nil
    with Cons.prems show ?thesis by simp
  next
    case R: (Cons q qs)
    have "q \<in> set (runs key xs)" using R by simp
    then have q: "\<forall>y \<in> set q. key y = key (hd q)" by (rule conjunct2 [OF Cons.IH])
    show ?thesis
    proof (cases "r \<in> set (runs key xs)")
      case True
      then show ?thesis by (rule Cons.IH)
    next
      case False
      then have "r = x # q \<and> key (hd q) = key x \<or> r = [x]"
        using Cons.prems R by (simp split: if_splits)
      with q show ?thesis by auto
    qed
  qed
qed simp

lemma concat_runs: "concat (runs key xs) = xs"
  by (induction xs) (auto split: list.splits)

lemma runs_snoc:
  "runs key (xs @ [y]) =
   (if xs \<noteq> [] \<and> key (hd (last (runs key xs))) = key y
    then butlast (runs key xs) @ [last (runs key xs) @ [y]] else runs key xs @ [[y]])"
proof (induction xs)
  case (Cons x xs)
  show ?case
  proof (cases "runs key xs")
    case Nil
    then show ?thesis by auto
  next
    case (Cons r rs)
    then have "xs \<noteq> []" by auto
    moreover have "r \<noteq> []" using Cons runs_nonempty [of r key xs] by simp
    ultimately show ?thesis using Cons Cons.IH by (cases rs) auto
  qed
qed simp

lemma run_bucket_snoc:
  "r \<noteq> [] \<Longrightarrow> run_bucket (r @ [(now, f)]) =
   (run_bucket r)\<lparr>b_packets := b_packets (run_bucket r) + 1,
     b_bytes := b_bytes (run_bucket r) + word_of_nat (f_length f)\<rparr>"
  by (simp add: run_bucket_def)

lemma run_buckets_Nil [simp]: "run_buckets [] = []"
  by (simp add: run_buckets_def)

lemma run_buckets_snoc:
  "run_buckets (fs @ [(now, f)]) =
   (if fs \<noteq> [] \<and> b_t (last (run_buckets fs)) = frame_second now f
    then let b = last (run_buckets fs) in
         butlast (run_buckets fs) @ [b\<lparr>b_packets := b_packets b + 1,
           b_bytes := b_bytes b + word_of_nat (f_length f)\<rparr>]
    else run_buckets fs @ [\<lparr>b_t = frame_second now f, b_packets = 1,
           b_bytes = word_of_nat (f_length f)\<rparr>])"
proof (cases "fs = []")
  case True
  then show ?thesis by (simp add: run_buckets_def run_bucket_def)
next
  case False
  let ?key = "\<lambda>(now, f). frame_second now f"
  have ne: "runs ?key fs \<noteq> []" using False by simp
  then have l: "last (runs ?key fs) \<noteq> []" using runs_nonempty last_in_set by metis
  have "b_t (last (run_buckets fs)) = ?key (hd (last (runs ?key fs)))"
    using ne by (simp add: run_buckets_def last_map run_bucket_def split: prod.split)
  then show ?thesis
    using False ne l
    by (simp add: run_buckets_def runs_snoc Let_def last_map map_butlast run_bucket_snoc)
      (simp add: run_bucket_def)
qed

text \<open>The last \<open>n\<close> elements of a list.\<close>

definition last_n :: "nat \<Rightarrow> 'a list \<Rightarrow> 'a list" where
  "last_n n xs = drop (length xs - n) xs"

lemma length_last_n: "length (last_n n xs) = min n (length xs)"
  by (simp add: last_n_def)

lemma last_n_all: "length xs \<le> n \<Longrightarrow> last_n n xs = xs"
  by (simp add: last_n_def)

lemma last_last_n: "0 < n \<Longrightarrow> xs \<noteq> [] \<Longrightarrow> last (last_n n xs) = last xs"
  by (simp add: last_n_def)

lemma last_n_snoc: "0 < n \<Longrightarrow> last_n n (xs @ [x]) = last_n (n - 1) xs @ [x]"
  by (simp add: last_n_def Suc_diff_le not_le Suc_diff_Suc)

lemma last_n_last_n: "m \<le> n \<Longrightarrow> last_n m (last_n n xs) = last_n m xs"
  by (auto simp: last_n_def intro: arg_cong [where f = "\<lambda>k. drop k xs"])

lemma last_n_butlast:
  "0 < n \<Longrightarrow> xs \<noteq> [] \<Longrightarrow> last_n n (butlast xs @ [x]) = butlast (last_n n xs) @ [x]"
  by (cases xs rule: rev_cases) (auto simp: last_n_def Suc_diff_le not_le butlast_append)

lemma last_at_last: "xs \<noteq> [] \<Longrightarrow> last_at xs = Some (last xs)"
  by (simp add: last_at_def idx_def last_conv_nth)

lemma observe_timeline_runs:
  "observe_timeline now f (last_n 600 (run_buckets fs)) =
   Some (last_n 600 (run_buckets (fs @ [(now, f)])))"
proof -
  let ?tl = "last_n 600 (run_buckets fs)"
  let ?b = "\<lparr>b_t = frame_second now f, b_packets = 0, b_bytes = 0\<rparr>"
  let ?b1 = "\<lparr>b_t = frame_second now f, b_packets = 1, b_bytes = word_of_nat (f_length f)\<rparr>"
  have ne: "run_buckets fs = [] \<longleftrightarrow> fs = []" by (simp add: run_buckets_def)
  have ne': "?tl = [] \<longleftrightarrow> fs = []"
    unfolding ne [symmetric] by (cases "run_buckets fs") (simp_all add: last_n_def)
  have upd: "xs \<noteq> [] \<Longrightarrow> xs[length xs - 1 := y] = butlast xs @ [y]" for xs :: "bucket list" and y
    by (cases xs rule: rev_cases) simp_all
  note l = last_n_snoc [of 600 _ "_ :: bucket", simplified]
  show ?thesis
  proof (cases "fs \<noteq> [] \<and> b_t (last (run_buckets fs)) = frame_second now f")
    case True
    then have a: "run_buckets fs \<noteq> []" "?tl \<noteq> []" using ne ne' by blast+
    have b: "last ?tl = last (run_buckets fs)" using a(1) by (simp add: last_last_n)
    have t: "b_t (last ?tl) = frame_second now f" using True b by simp
    have "observe_timeline now f ?tl = Some (butlast ?tl @ [(last ?tl)\<lparr>b_packets := b_packets (last ?tl) + 1,
        b_bytes := b_bytes (last ?tl) + word_of_nat (f_length f)\<rparr>])"
      by (simp add: observe_timeline_def a(2) last_at_last t upd [OF a(2), simplified] Let_def)
    also have "\<dots> = Some (last_n 600 (run_buckets (fs @ [(now, f)])))"
      unfolding b run_buckets_snoc Let_def if_P [OF True] last_n_butlast [OF zero_less_numeral a(1)] by (rule refl)
    finally show ?thesis .
  next
    case False
    have s: "(if 600 < length (?tl @ [?b]) then slice (?tl @ [?b]) (length (?tl @ [?b]) - 600) (length (?tl @ [?b]))
        else Some (?tl @ [?b])) = Some (last_n 600 (?tl @ [?b]))"
      by (simp add: last_n_def slice_def)
    have "(if ?tl = [] then Some True else do { b \<leftarrow> last_at ?tl; Some (b_t b \<noteq> frame_second now f) }) = Some True"
      using False ne ne' by (auto simp: last_at_last last_last_n)
    then have "observe_timeline now f ?tl = Some (last_n 599 ?tl @ [?b1])"
      unfolding observe_timeline_def Let_def by (simp only: bind.bind_lunit if_True s) (simp add: l last_at_last)
    moreover have "last_n 600 (run_buckets (fs @ [(now, f)])) = last_n 600 (?tl @ [?b1])"
      using False by (auto simp: run_buckets_snoc l last_n_last_n)
    ultimately show ?thesis by (simp add: l)
  qed
qed

section \<open>The counters\<close>

lemma getc_incr: "getc (incr k m) k' = getc m k' + (if k' = k then 1 else 0)"
  by (simp add: getc_def incr_def)

text \<open>How often, and with how many bytes, an address is an end of a frame.\<close>

definition endpoint_count :: "string \<Rightarrow> frame \<Rightarrow> nat" where
  "endpoint_count a f =
     (if gget (f_meta f) ''ip_src'' = a then 1 else 0) + (if gget (f_meta f) ''ip_dst'' = a then 1 else 0)"

definition frame_severity :: "frame \<Rightarrow> string" where
  "frame_severity f = (if f_severity f = [] then ''info'' else f_severity f)"

definition talker_inv :: "(string \<times> talker) list \<Rightarrow> bool" where
  "talker_inv ts = (distinct (map fst ts) \<and> (\<forall>(a, t) \<in> set ts. a \<noteq> [] \<and> tk_addr t = a))"

definition talker_packets :: "(string \<times> talker) list \<Rightarrow> string \<Rightarrow> u64" where
  "talker_packets ts a = (case map_of ts a of None \<Rightarrow> 0 | Some t \<Rightarrow> tk_packets t)"

definition talker_bytes :: "(string \<times> talker) list \<Rightarrow> string \<Rightarrow> u64" where
  "talker_bytes ts a = (case map_of ts a of None \<Rightarrow> 0 | Some t \<Rightarrow> tk_bytes t)"

lemma count_talker_inv: "talker_inv ts \<Longrightarrow> talker_inv (count_talker f a ts)"
proof (cases "a = []")
  case False
  assume ts: "talker_inv ts"
  let ?t = "case map_of ts a of Some t \<Rightarrow> t | None \<Rightarrow> \<lparr>tk_addr = a, tk_packets = 0, tk_bytes = 0\<rparr>"
  have "tk_addr ?t = a" using ts map_of_SomeD [of ts a]
    by (auto simp: talker_inv_def split: option.split)
  moreover have "set (AList.update a u ts) \<subseteq> insert (a, u) (set ts)" for u :: talker
    by (induction ts) auto
  ultimately show ?thesis
    using ts False by (fastforce simp: talker_inv_def count_talker_def Let_def distinct_update)
qed (simp add: count_talker_def)

lemma count_talker_values:
  "talker_packets (count_talker f a ts) k = talker_packets ts k + (if k \<noteq> [] \<and> k = a then 1 else 0)"
  "talker_bytes (count_talker f a ts) k =
     talker_bytes ts k + (if k \<noteq> [] \<and> k = a then word_of_nat (f_length f) else 0)"
  by (simp_all add: count_talker_def talker_packets_def talker_bytes_def update_conv' Let_def
      split: option.split)

text \<open>What the counters hold after the frames \<open>fs\<close>.\<close>

definition counts :: "frame list \<Rightarrow> stats \<Rightarrow> bool" where
  "counts fs s =
     (st_packets s = word_of_nat (length fs) \<and>
      st_bytes s = word_of_nat (sum_list (map f_length fs)) \<and>
      (\<forall>p. getc (st_protocols s) p = word_of_nat (length (filter (\<lambda>f. f_protocol f = p) fs))) \<and>
      (\<forall>v. getc (st_severity s) v = word_of_nat (length (filter (\<lambda>f. frame_severity f = v) fs))) \<and>
      (\<forall>p. getc (st_ports s) p =
         (if p = [] then 0 else word_of_nat (length (filter (\<lambda>f. gget (f_meta f) ''dport'' = p) fs)))) \<and>
      (\<forall>a. talker_packets (st_talkers s) a =
         (if a = [] then 0 else word_of_nat (sum_list (map (endpoint_count a) fs)))) \<and>
      (\<forall>a. talker_bytes (st_talkers s) a =
         (if a = [] then 0 else word_of_nat (sum_list (map (\<lambda>f. endpoint_count a f * f_length f) fs)))))"

lemma stats_observe_counts:
  assumes "stats_observe now f s = Some s'" "counts fs s"
  shows "counts (fs @ [f]) s'"
proof -
  have e: "st_packets s' = st_packets s + 1" "st_bytes s' = st_bytes s + word_of_nat (f_length f)"
    "st_protocols s' = incr (f_protocol f) (st_protocols s)"
    "st_severity s' = incr (frame_severity f) (st_severity s)"
    "st_talkers s' = count_talker f (gget (f_meta f) ''ip_dst'')
       (count_talker f (gget (f_meta f) ''ip_src'') (st_talkers s))"
    "st_ports s' = (if gget (f_meta f) ''dport'' \<noteq> [] then incr (gget (f_meta f) ''dport'') (st_ports s)
       else st_ports s)"
    using assms(1) by (auto simp: stats_observe_def Let_def frame_severity_def bind_eq_Some_conv)
  show ?thesis
    using assms(2)
    by (auto simp: counts_def e getc_incr count_talker_values endpoint_count_def algebra_simps)
qed

lemma stats_observe_timeline:
  assumes "observe_timeline now f (st_timeline s) = Some line"
  shows "\<exists>s'. stats_observe now f s = Some s' \<and> st_timeline s' = line \<and> st_started s' = st_started s \<and>
    (talker_inv (st_talkers s) \<longrightarrow> talker_inv (st_talkers s'))"
  using assms by (simp add: stats_observe_def Let_def count_talker_inv)

lemma stats_run:
  assumes "counts (map snd gs) s" "st_timeline s = last_n 600 (run_buckets gs)" "talker_inv (st_talkers s)"
  shows "\<exists>s'. run_all (\<lambda>(now, f). stats_observe now f) fs s = Some s' \<and> counts (map snd (gs @ fs)) s' \<and>
    st_timeline s' = last_n 600 (run_buckets (gs @ fs)) \<and> talker_inv (st_talkers s') \<and>
    st_started s' = st_started s"
  using assms
proof (induction fs arbitrary: gs s)
  case (Cons x fs)
  obtain now f where x: "x = (now, f)" by fastforce
  from Cons.prems(2) observe_timeline_runs [of now f gs]
  have "observe_timeline now f (st_timeline s) = Some (last_n 600 (run_buckets (gs @ [x])))"
    by (simp add: x)
  from stats_observe_timeline [OF this] obtain s1 where s1: "stats_observe now f s = Some s1"
    "st_timeline s1 = last_n 600 (run_buckets (gs @ [x]))" "talker_inv (st_talkers s1)"
    "st_started s1 = st_started s"
    using Cons.prems(3) by blast
  have c: "counts (map snd (gs @ [x])) s1"
    using stats_observe_counts [OF s1(1) Cons.prems(1)] by (simp add: x)
  from Cons.IH [OF c s1(2,3)] s1(1,4) show ?case by (simp add: x)
qed simp

lemma stats_run_reset:
  "\<exists>s'. run_all (\<lambda>(now, f). stats_observe now f) fs (stats_reset t s) = Some s' \<and>
    counts (map snd fs) s' \<and> st_timeline s' = last_n 600 (run_buckets fs) \<and>
    talker_inv (st_talkers s') \<and> st_started s' = t"
proof -
  have "counts (map snd []) (stats_reset t s)" "st_timeline (stats_reset t s) = last_n 600 (run_buckets [])"
    "talker_inv (st_talkers (stats_reset t s))" "st_started (stats_reset t s) = t"
    by (simp_all add: counts_def stats_reset_def getc_def talker_packets_def talker_bytes_def
        talker_inv_def last_n_def)
  from stats_run [OF this(1-3), of fs] this(4) show ?thesis by simp
qed

lemma new_stats_reset: "new_stats t = stats_reset t (new_stats t)"
  by (simp add: new_stats_def stats_reset_def)

section \<open>Properties\<close>

text \<open>C30: observing never panics, and from a reset on, whatever was counted before, every counter
  is the number of frames, bytes, protocols, severities, destination ports and ends of frames
  observed since (modulo \<open>2^64\<close>).\<close>

theorem stats_counts:
  "\<exists>s'. run_all (\<lambda>(now, f). stats_observe now f) fs (stats_reset t s) = Some s' \<and>
     st_packets s' = word_of_nat (length fs) \<and>
     st_bytes s' = word_of_nat (sum_list (map (f_length \<circ> snd) fs)) \<and>
     getc (st_protocols s') p = word_of_nat (length (filter (\<lambda>(_, f). f_protocol f = p) fs)) \<and>
     getc (st_severity s') v = word_of_nat (length (filter (\<lambda>(_, f). frame_severity f = v) fs)) \<and>
     getc (st_ports s') q = (if q = [] then 0
       else word_of_nat (length (filter (\<lambda>(_, f). gget (f_meta f) ''dport'' = q) fs))) \<and>
     talker_packets (st_talkers s') a = (if a = [] then 0
       else word_of_nat (sum_list (map (\<lambda>(_, f). endpoint_count a f) fs))) \<and>
     talker_bytes (st_talkers s') a = (if a = [] then 0
       else word_of_nat (sum_list (map (\<lambda>(_, f). endpoint_count a f * f_length f) fs)))"
proof -
  have f: "length (filter P (map snd fs)) = length (filter (\<lambda>(_, f). P f) fs)" for P :: "frame \<Rightarrow> bool"
    by (simp add: filter_map comp_def case_prod_beta')
  have m: "sum_list (map g (map snd fs)) = sum_list (map (\<lambda>(_, f). g f) fs)" for g :: "frame \<Rightarrow> nat"
    by (simp add: comp_def case_prod_beta')
  obtain s' where "run_all (\<lambda>(now, f). stats_observe now f) fs (stats_reset t s) = Some s'"
    "counts (map snd fs) s'"
    using stats_run_reset [of fs t s] by blast
  then show ?thesis
    unfolding counts_def f m by (intro exI [of _ s']) (simp add: comp_def case_prod_beta')
qed

text \<open>C31: the timeline is the last 600 maximal runs of frames that fall into the same second, in
  the order of arrival: the packets and bytes of each. A second that comes back is a bucket of its
  own.\<close>

theorem stats_timeline:
  "map_option st_timeline (run_all (\<lambda>(now, f). stats_observe now f) fs (new_stats t)) =
   Some (last_n 600 (map run_bucket (runs (\<lambda>(now, f). frame_second now f) fs)))"
  using stats_run_reset [of fs t "new_stats t"]
  by (auto simp: run_buckets_def simp flip: new_stats_reset)

text \<open>A snapshot lists the at most 15 addresses with the most bytes, in descending order,
  each address once and none left out with more bytes than one listed.\<close>

theorem stats_top_talkers:
  assumes "run_all (\<lambda>(now, f). stats_observe now f) fs (new_stats t) = Some s"
    and "mset (iter (map snd (st_talkers s))) = mset (map snd (st_talkers s))"
  shows "sorted_wrt (\<lambda>a b. tk_bytes b \<le> tk_bytes a) (sn_top_talkers (stats_snapshot iter s)) \<and>
    length (sn_top_talkers (stats_snapshot iter s)) = min 15 (length (st_talkers s)) \<and>
    distinct (map tk_addr (sn_top_talkers (stats_snapshot iter s))) \<and>
    (\<exists>rest. mset (map snd (st_talkers s)) = mset (sn_top_talkers (stats_snapshot iter s)) + mset rest \<and>
      (\<forall>a \<in> set (sn_top_talkers (stats_snapshot iter s)). \<forall>b \<in> set rest. tk_bytes b \<le> tk_bytes a))"
proof -
  let ?top = "sn_top_talkers (stats_snapshot iter s)"
  have top: "?top = top_n tk_bytes 15 (iter (map snd (st_talkers s)))"
    by (simp add: stats_snapshot_def top_n_def Let_def)
  note spec = top_n_spec [where key = tk_bytes and n = 15 and xs = "iter (map snd (st_talkers s))",
      folded top, unfolded assms(2)]
  have len: "length ?top = min 15 (length (st_talkers s))"
    using spec(1) mset_eq_length [OF assms(2)] by simp
  have inv: "talker_inv (st_talkers s)"
    using stats_run_reset [of fs t "new_stats t"] assms(1) by (simp flip: new_stats_reset)
  then have m: "map (tk_addr \<circ> snd) (st_talkers s) = map fst (st_talkers s)"
    by (auto simp: talker_inv_def)
  have "distinct (map tk_addr (map snd (st_talkers s)))"
    unfolding map_map m using inv by (simp add: talker_inv_def)
  moreover obtain rest where r: "mset (map snd (st_talkers s)) = mset ?top + mset rest"
    "\<forall>a \<in> set ?top. \<forall>b \<in> set rest. tk_bytes b \<le> tk_bytes a" using spec(3) by blast
  moreover have "mset (map tk_addr (map snd (st_talkers s))) = mset (map tk_addr (?top @ rest))"
    using r(1) by (metis mset_append mset_map)
  ultimately have "distinct (map tk_addr (?top @ rest))" by (metis mset_eq_imp_distinct_iff)
  then have "distinct (map tk_addr ?top)" by simp
  with spec(2) len r show ?thesis by blast
qed

lemma stats_top_talkers_witness:
  "\<exists>s. run_all (\<lambda>(now, f). stats_observe now f)
       [(5, (blank_frame 1 0 0 0 [7])\<lparr>f_meta := [''ip_src'' \<mapsto> ''10.0.0.1'']\<rparr>),
        (6, (blank_frame 2 0 0 0 [7, 8])\<lparr>f_meta := [''ip_src'' \<mapsto> ''10.0.0.2'']\<rparr>)] (new_stats 0) = Some s \<and>
     sorted_wrt (\<lambda>a b. tk_bytes b \<le> tk_bytes a) (sn_top_talkers (stats_snapshot rev s)) \<and>
     distinct (map tk_addr (sn_top_talkers (stats_snapshot rev s)))"
proof -
  let ?fs = "[(5, (blank_frame 1 0 0 0 [7])\<lparr>f_meta := [''ip_src'' \<mapsto> ''10.0.0.1'']\<rparr>),
        (6, (blank_frame 2 0 0 0 [7, 8])\<lparr>f_meta := [''ip_src'' \<mapsto> ''10.0.0.2'']\<rparr>)]"
  obtain s where s: "run_all (\<lambda>(now, f). stats_observe now f) ?fs (new_stats 0) = Some s"
    using stats_run_reset [of ?fs 0 "new_stats 0"] unfolding new_stats_reset [symmetric] by blast
  have "mset (rev (map snd (st_talkers s))) = mset (map snd (st_talkers s))" by simp
  from stats_top_talkers [where iter = rev, OF s this] show ?thesis using s by blast
qed

end
