(* ===== verification/Security.thy ===== *)
theory Security
  imports Frame
begin

text \<open>
  \<open>internal/security/analyzer.go\<close>: the analyzer, which counts SYNs and long DNS names per source
  and reports port scans, DNS tunnels, cleartext credentials and outdated TLS. \<open>Observe\<close> changes
  the frame it is given (its severity and tags) and returns the findings it raised; its model
  returns the analyzer, the frame and these. The counters are association lists with distinct
  keys (only their length and their entries are used); their values are Go's \<open>int\<close>, far from
  overflow. The lemmas: what one observation does, in closed form; the findings kept are the
  newest ones; a source is reported at its thirtieth SYN.
\<close>

section \<open>State\<close>

record finding =
  fi_time :: gotime
  fi_frame_no :: u64
  fi_severity :: string
  fi_rule :: string
  fi_message :: string
  fi_src :: string
  fi_dst :: string

record analyzer =
  a_findings :: "finding list"
  a_syn_count :: "(string \<times> int) list"
  a_dns_long :: "(string \<times> int) list"
  a_limit :: int

definition new_analyzer :: analyzer where
  "new_analyzer = \<lparr>a_findings = [], a_syn_count = [], a_dns_long = [], a_limit = 500\<rparr>"

definition sec_trunc :: "string \<Rightarrow> nat \<Rightarrow> string" where
  "sec_trunc s n = (if length s \<le> n then s else take n s @ ellipsis)"

section \<open>Observing a frame\<close>

definition geti :: "(string \<times> int) list \<Rightarrow> string \<Rightarrow> int" where
  "geti m k = (case map_of m k of None \<Rightarrow> 0 | Some v \<Rightarrow> v)"

text \<open>\<open>m[src]++\<close>, and a fresh map with only this entry when the map has grown past 10000.\<close>

definition bump :: "string \<Rightarrow> (string \<times> int) list \<Rightarrow> (string \<times> int) list" where
  "bump src m =
     (let m = AList.update src (geti m src + 1) m in
      if 10000 < length m then [(src, geti m src)] else m)"

definition add_finding ::
  "frame \<Rightarrow> string \<Rightarrow> string \<Rightarrow> string \<Rightarrow> string \<Rightarrow> string \<Rightarrow> analyzer \<Rightarrow> (analyzer \<times> finding) option" where
  "add_finding f sev rule msg src dst a = do {
     a \<leftarrow> (if a_limit a \<le> int (length (a_findings a)) then do {
             kept \<leftarrow> slice (a_findings a) (nat (int (length (a_findings a)) - a_limit a div 2))
               (length (a_findings a));
             Some (a\<lparr>a_findings := kept\<rparr>)
           }
           else Some a);
     let x = \<lparr>fi_time = f_timestamp f, fi_frame_no = f_no f, fi_severity = sev, fi_rule = rule,
              fi_message = msg, fi_src = src, fi_dst = dst\<rparr>;
     Some (a\<lparr>a_findings := a_findings a @ [x]\<rparr>, x)
   }"

text \<open>What \<open>Observe\<close> carries along: the analyzer, the frame and the findings raised so far.\<close>

type_synonym watch = "analyzer \<times> frame \<times> finding list"

definition raise_finding :: "string \<Rightarrow> string \<Rightarrow> string \<Rightarrow> string \<Rightarrow> string \<Rightarrow> watch \<Rightarrow> watch option" where
  "raise_finding sev rule msg src dst w = (case w of (a, f, raised) \<Rightarrow> do {
     (a, x) \<leftarrow> add_finding f sev rule msg src dst a;
     Some (a, f, raised @ [x])
   })"

definition mark :: "string \<Rightarrow> string \<Rightarrow> watch \<Rightarrow> watch" where
  "mark sev tag w = (case w of (a, f, raised) \<Rightarrow>
     (a, f\<lparr>f_severity := sev, f_tags := f_tags f @ [tag]\<rparr>, raised))"

definition check_syn :: "string \<Rightarrow> string \<Rightarrow> watch \<Rightarrow> watch option" where
  "check_syn src dst w = (case w of (a, f, raised) \<Rightarrow>
     let flags = gget (f_meta f) ''tcp_flags'' in
     if contains_sub flags ''SYN'' \<and> \<not> contains_sub flags ''ACK'' then
       let a = a\<lparr>a_syn_count := bump src (a_syn_count a)\<rparr> in
       if geti (a_syn_count a) src = 30
       then raise_finding ''alert'' ''port_scan'' (''Possible SYN scan: '' @ src @ '' opened many SYNs'')
              src dst (a, f, raised)
       else Some (a, f, raised)
     else Some (a, f, raised))"

definition check_dns :: "string \<Rightarrow> string \<Rightarrow> watch \<Rightarrow> watch option" where
  "check_dns src dst w = (case w of (a, f, raised) \<Rightarrow>
     let q = gget (f_meta f) ''dns_qry'' in
     if 60 < length q then do {
       let a = a\<lparr>a_dns_long := bump src (a_dns_long a)\<rparr>;
       w \<leftarrow> (if geti (a_dns_long a) src = 3
             then raise_finding ''warn'' ''dns_tunnel''
               (''Long DNS labels from '' @ src @ '' (possible tunneling): '' @ sec_trunc q 80)
               src dst (a, f, raised)
             else Some (a, f, raised));
       Some (mark ''warn'' ''dns-tunnel-hint'' w)
     }
     else Some (a, f, raised))"

definition check_http :: "(nat \<Rightarrow> nat) \<Rightarrow> string \<Rightarrow> string \<Rightarrow> layer \<Rightarrow> watch \<Rightarrow> watch option" where
  "check_http ul src dst l w =
     (if l_name l \<noteq> ''HTTP'' then Some w
      else case map_of (l_fields l) ''hdr_authorization'' of
          None \<Rightarrow> Some w
        | Some auth \<Rightarrow>
            if has_prefix (to_lower ul auth) ''basic '' then do {
              w \<leftarrow> raise_finding ''alert'' ''cleartext_auth'' ''HTTP Basic auth over cleartext'' src dst w;
              Some (mark ''alert'' ''credential-leak'' w)
            }
            else Some w)"

definition check_tls :: "string \<Rightarrow> string \<Rightarrow> layer \<Rightarrow> watch \<Rightarrow> watch option" where
  "check_tls src dst l w =
     (if l_name l \<noteq> ''TLS'' then Some w
      else
        let v = fget (l_fields l) ''client_version'' in
        if v = ''SSL 3.0'' \<or> v = ''TLS 1.0'' \<or> v = ''TLS 1.1'' then do {
          w \<leftarrow> raise_finding ''warn'' ''weak_tls'' (''Outdated TLS version: '' @ v) src dst w;
          Some (mark ''warn'' ''weak-tls'' w)
        }
        else Some w)"

definition analyzer_observe :: "(nat \<Rightarrow> nat) \<Rightarrow> frame \<Rightarrow> analyzer \<Rightarrow> watch option" where
  "analyzer_observe ul f a = do {
     let src = gget (f_meta f) ''ip_src'';
     let dst = gget (f_meta f) ''ip_dst'';
     w \<leftarrow> check_syn src dst (a, f, []);
     w \<leftarrow> check_dns src dst w;
     w \<leftarrow> run_all (check_http ul src dst) (f_layers f) w;
     (a, f, raised) \<leftarrow> run_all (check_tls src dst) (f_layers f) w;
     Some (a, if f_protocol f = ''ICMP'' \<and> f_info f \<noteq> [] then add_tags [''icmp''] f else f, raised)
   }"

definition analyzer_findings :: "analyzer \<Rightarrow> finding list" where
  "analyzer_findings a = a_findings a"

section \<open>What one observation does\<close>

definition keep :: "finding \<Rightarrow> finding list \<Rightarrow> finding list" where
  "keep x xs = (if 500 \<le> length xs then drop (length xs - 250) xs else xs) @ [x]"

definition report :: "frame \<Rightarrow> string \<Rightarrow> string \<Rightarrow> string \<Rightarrow> finding" where
  "report f sev rule msg =
     \<lparr>fi_time = f_timestamp f, fi_frame_no = f_no f, fi_severity = sev, fi_rule = rule,
      fi_message = msg, fi_src = gget (f_meta f) ''ip_src'', fi_dst = gget (f_meta f) ''ip_dst''\<rparr>"

definition is_syn :: "frame \<Rightarrow> bool" where
  "is_syn f =
     (contains_sub (gget (f_meta f) ''tcp_flags'') ''SYN'' \<and>
      \<not> contains_sub (gget (f_meta f) ''tcp_flags'') ''ACK'')"

definition long_dns :: "frame \<Rightarrow> bool" where
  "long_dns f = (60 < length (gget (f_meta f) ''dns_qry''))"

definition basic_layer :: "(nat \<Rightarrow> nat) \<Rightarrow> layer \<Rightarrow> bool" where
  "basic_layer ul l = (l_name l = ''HTTP'' \<and>
     (\<exists>auth. map_of (l_fields l) ''hdr_authorization'' = Some auth \<and> has_prefix (to_lower ul auth) ''basic ''))"

definition weak_layer :: "layer \<Rightarrow> bool" where
  "weak_layer l = (l_name l = ''TLS'' \<and>
     fget (l_fields l) ''client_version'' \<in> {''SSL 3.0'', ''TLS 1.0'', ''TLS 1.1''})"

definition syn_reports :: "(string \<times> int) list \<Rightarrow> frame \<Rightarrow> finding list" where
  "syn_reports m f =
     (let src = gget (f_meta f) ''ip_src'' in
      if is_syn f \<and> geti (bump src m) src = 30
      then [report f ''alert'' ''port_scan'' (''Possible SYN scan: '' @ src @ '' opened many SYNs'')]
      else [])"

definition dns_reports :: "(string \<times> int) list \<Rightarrow> frame \<Rightarrow> finding list" where
  "dns_reports m f =
     (let src = gget (f_meta f) ''ip_src'' in
      if long_dns f \<and> geti (bump src m) src = 3
      then [report f ''warn'' ''dns_tunnel'' (''Long DNS labels from '' @ src @ '' (possible tunneling): ''
              @ sec_trunc (gget (f_meta f) ''dns_qry'') 80)]
      else [])"

definition layer_reports :: "(nat \<Rightarrow> nat) \<Rightarrow> frame \<Rightarrow> finding list" where
  "layer_reports ul f =
     map (\<lambda>_. report f ''alert'' ''cleartext_auth'' ''HTTP Basic auth over cleartext'')
       (filter (basic_layer ul) (f_layers f))
     @ map (\<lambda>l. report f ''warn'' ''weak_tls'' (''Outdated TLS version: '' @ fget (l_fields l) ''client_version''))
       (filter weak_layer (f_layers f))"

definition marks :: "(nat \<Rightarrow> nat) \<Rightarrow> frame \<Rightarrow> string \<times> string list" where
  "marks ul f =
     (let basic = filter (basic_layer ul) (f_layers f); weak = filter weak_layer (f_layers f) in
      (if weak \<noteq> [] then ''warn'' else if basic \<noteq> [] then ''alert''
       else if long_dns f then ''warn'' else f_severity f,
       f_tags f @ (if long_dns f then [''dns-tunnel-hint''] else [])
         @ map (\<lambda>_. ''credential-leak'') basic @ map (\<lambda>_. ''weak-tls'') weak
         @ (if f_protocol f = ''ICMP'' \<and> f_info f \<noteq> [] then [''icmp''] else [])))"

lemma report_marked [simp]:
  "report (f\<lparr>f_severity := s\<rparr>) = report f" "report (f\<lparr>f_tags := t\<rparr>) = report f"
  by (simp_all add: report_def fun_eq_iff)

lemma raise_keep:
  assumes "a_limit a = 500" "gget (f_meta f) ''ip_src'' = src" "gget (f_meta f) ''ip_dst'' = dst"
  shows "raise_finding sev rule msg src dst (a, f, raised) =
    Some (a\<lparr>a_findings := keep (report f sev rule msg) (a_findings a)\<rparr>, f,
      raised @ [report f sev rule msg])"
proof -
  have "nat (int n - 250) = n - 250" for n by linarith
  with assms show ?thesis
    by (simp add: raise_finding_def add_finding_def keep_def report_def slice_def Let_def)
qed

lemma check_syn_result:
  assumes "a_limit a = 500" "gget (f_meta f) ''ip_src'' = src" "gget (f_meta f) ''ip_dst'' = dst"
  shows "check_syn src dst (a, f, raised) =
    Some (a\<lparr>a_syn_count := (if is_syn f then bump src (a_syn_count a) else a_syn_count a),
            a_findings := fold keep (syn_reports (a_syn_count a) f) (a_findings a)\<rparr>,
          f, raised @ syn_reports (a_syn_count a) f)"
  using assms by (simp add: check_syn_def syn_reports_def is_syn_def raise_keep Let_def)

lemma check_dns_result:
  assumes "a_limit a = 500" "gget (f_meta f) ''ip_src'' = src" "gget (f_meta f) ''ip_dst'' = dst"
  shows "check_dns src dst (a, f, raised) =
    Some (a\<lparr>a_dns_long := (if long_dns f then bump src (a_dns_long a) else a_dns_long a),
            a_findings := fold keep (dns_reports (a_dns_long a) f) (a_findings a)\<rparr>,
          f\<lparr>f_severity := (if long_dns f then ''warn'' else f_severity f),
            f_tags := f_tags f @ (if long_dns f then [''dns-tunnel-hint''] else [])\<rparr>,
          raised @ dns_reports (a_dns_long a) f)"
  using assms by (simp add: check_dns_def dns_reports_def long_dns_def raise_keep mark_def Let_def)

lemma check_http_step:
  assumes "a_limit a = 500" "gget (f_meta f) ''ip_src'' = src" "gget (f_meta f) ''ip_dst'' = dst"
  shows "check_http ul src dst l (a, f, raised) =
    (if basic_layer ul l
     then let x = report f ''alert'' ''cleartext_auth'' ''HTTP Basic auth over cleartext'' in
       Some (a\<lparr>a_findings := keep x (a_findings a)\<rparr>,
         f\<lparr>f_severity := ''alert'', f_tags := f_tags f @ [''credential-leak'']\<rparr>, raised @ [x])
     else Some (a, f, raised))"
  using assms by (auto simp: check_http_def basic_layer_def raise_keep mark_def Let_def split: option.split)

lemma check_http_run:
  assumes "a_limit a = 500" "gget (f_meta f) ''ip_src'' = src" "gget (f_meta f) ''ip_dst'' = dst"
  shows "run_all (check_http ul src dst) ls (a, f, raised) =
    (let bs = filter (basic_layer ul) ls;
         rs = map (\<lambda>_. report f ''alert'' ''cleartext_auth'' ''HTTP Basic auth over cleartext'') bs in
     Some (a\<lparr>a_findings := fold keep rs (a_findings a)\<rparr>,
       f\<lparr>f_severity := (if bs \<noteq> [] then ''alert'' else f_severity f),
         f_tags := f_tags f @ map (\<lambda>_. ''credential-leak'') bs\<rparr>, raised @ rs))"
  using assms
proof (induction ls arbitrary: a f raised)
  case (Cons l ls)
  from Cons.prems show ?case
    by (simp add: check_http_step Cons.IH Let_def)
qed simp

lemma check_tls_step:
  assumes "a_limit a = 500" "gget (f_meta f) ''ip_src'' = src" "gget (f_meta f) ''ip_dst'' = dst"
  shows "check_tls src dst l (a, f, raised) =
    (if weak_layer l
     then let x = report f ''warn'' ''weak_tls'' (''Outdated TLS version: '' @ fget (l_fields l) ''client_version'') in
       Some (a\<lparr>a_findings := keep x (a_findings a)\<rparr>,
         f\<lparr>f_severity := ''warn'', f_tags := f_tags f @ [''weak-tls'']\<rparr>, raised @ [x])
     else Some (a, f, raised))"
  using assms unfolding check_tls_def weak_layer_def insert_iff empty_iff
  by (simp only: Let_def raise_keep mark_def bind.bind_lunit prod.case de_Morgan_conj if_bool_eq_conj) simp

lemma check_tls_run:
  assumes "a_limit a = 500" "gget (f_meta f) ''ip_src'' = src" "gget (f_meta f) ''ip_dst'' = dst"
  shows "run_all (check_tls src dst) ls (a, f, raised) =
    (let ws = filter weak_layer ls;
         rs = map (\<lambda>l. report f ''warn'' ''weak_tls''
                (''Outdated TLS version: '' @ fget (l_fields l) ''client_version'')) ws in
     Some (a\<lparr>a_findings := fold keep rs (a_findings a)\<rparr>,
       f\<lparr>f_severity := (if ws \<noteq> [] then ''warn'' else f_severity f),
         f_tags := f_tags f @ map (\<lambda>_. ''weak-tls'') ws\<rparr>, raised @ rs))"
  using assms
proof (induction ls arbitrary: a f raised)
  case (Cons l ls)
  from Cons.prems show ?case
    by (simp add: check_tls_step Cons.IH Let_def)
qed simp

definition observe_reports :: "(nat \<Rightarrow> nat) \<Rightarrow> frame \<Rightarrow> analyzer \<Rightarrow> finding list" where
  "observe_reports ul f a =
     syn_reports (a_syn_count a) f @ dns_reports (a_dns_long a) f @ layer_reports ul f"

definition observed :: "(nat \<Rightarrow> nat) \<Rightarrow> frame \<Rightarrow> analyzer \<Rightarrow> analyzer" where
  "observed ul f a =
     (let src = gget (f_meta f) ''ip_src'' in
      a\<lparr>a_syn_count := (if is_syn f then bump src (a_syn_count a) else a_syn_count a),
        a_dns_long := (if long_dns f then bump src (a_dns_long a) else a_dns_long a),
        a_findings := fold keep (observe_reports ul f a) (a_findings a)\<rparr>)"

lemma analyzer_observe_result:
  assumes "a_limit a = 500"
  shows "analyzer_observe ul f a =
    Some (observed ul f a, f\<lparr>f_severity := fst (marks ul f), f_tags := snd (marks ul f)\<rparr>,
      observe_reports ul f a)"
  using assms
  by (simp add: analyzer_observe_def check_syn_result check_dns_result check_http_run check_tls_run
      observed_def observe_reports_def layer_reports_def marks_def Let_def fold_append)

section \<open>Runs\<close>

text \<open>The frames of a capture one after the other: the analyzer at the end, the frames as it left
  them and all findings it returned.\<close>

fun analyze_all ::
  "(nat \<Rightarrow> nat) \<Rightarrow> frame list \<Rightarrow> analyzer \<Rightarrow> (analyzer \<times> frame list \<times> finding list) option" where
  "analyze_all ul [] a = Some (a, [], [])"
| "analyze_all ul (f # fs) a = do {
     (a, f, raised) \<leftarrow> analyzer_observe ul f a;
     (a, fs, rest) \<leftarrow> analyze_all ul fs a;
     Some (a, f # fs, raised @ rest)
   }"

definition marked :: "(nat \<Rightarrow> nat) \<Rightarrow> frame \<Rightarrow> frame" where
  "marked ul f = f\<lparr>f_severity := fst (marks ul f), f_tags := snd (marks ul f)\<rparr>"

fun reports :: "(nat \<Rightarrow> nat) \<Rightarrow> frame list \<Rightarrow> analyzer \<Rightarrow> finding list" where
  "reports ul [] a = []"
| "reports ul (f # fs) a = observe_reports ul f a @ reports ul fs (observed ul f a)"

lemma observed_limit [simp]: "a_limit (observed ul f a) = a_limit a"
  by (simp add: observed_def Let_def)

lemma analyze_all_result:
  "a_limit a = 500 \<Longrightarrow>
   analyze_all ul fs a = Some (fold (observed ul) fs a, map (marked ul) fs, reports ul fs a)"
  by (induction fs arbitrary: a) (simp_all add: analyzer_observe_result marked_def)

lemma reports_append: "reports ul (fs @ gs) a = reports ul fs a @ reports ul gs (fold (observed ul) fs a)"
  by (induction fs arbitrary: a) simp_all

subsection \<open>The findings kept\<close>

definition window :: "finding list \<Rightarrow> finding list \<Rightarrow> bool" where
  "window rs xs = (length xs \<le> 500 \<and> (\<exists>old. rs = old @ xs \<and> (old = [] \<or> 250 < length xs)))"

lemma window_keep: "window rs xs \<Longrightarrow> window (rs @ [x]) (keep x xs)"
proof -
  assume "window rs xs"
  then obtain old where l: "length xs \<le> 500" and o: "rs = old @ xs" "old = [] \<or> 250 < length xs"
    by (auto simp: window_def)
  show ?thesis
  proof (cases "500 \<le> length xs")
    case True
    let ?k = "length xs - 250"
    have "rs @ [x] = (old @ take ?k xs) @ keep x xs"
      using True o(1) by (simp add: keep_def)
    moreover have "length (keep x xs) = 251" using True l by (simp add: keep_def)
    ultimately show ?thesis
      unfolding window_def by (intro conjI exI [of _ "old @ take ?k xs"]) simp_all
  next
    case False
    then show ?thesis using o by (auto simp: window_def keep_def)
  qed
qed

lemma window_fold: "window rs xs \<Longrightarrow> window (rs @ ys) (fold keep ys xs)"
  by (induction ys arbitrary: rs xs) (simp, metis append_Cons append_Nil append_assoc fold_simps(2) window_keep)

lemma window_run:
  "window rs (a_findings a) \<Longrightarrow> window (rs @ reports ul fs a) (a_findings (fold (observed ul) fs a))"
proof (induction fs arbitrary: rs a)
  case (Cons f fs)
  have "a_findings (observed ul f a) = fold keep (observe_reports ul f a) (a_findings a)"
    by (simp add: observed_def Let_def)
  then have "window (rs @ observe_reports ul f a) (a_findings (observed ul f a))"
    using window_fold [OF Cons.prems] by simp
  from Cons.IH [OF this] show ?case by simp
qed simp

subsection \<open>The counters per source\<close>

definition source :: "frame \<Rightarrow> string" where
  "source f = gget (f_meta f) ''ip_src''"

definition bump_run :: "(frame \<Rightarrow> bool) \<Rightarrow> frame list \<Rightarrow> (string \<times> int) list \<Rightarrow> (string \<times> int) list" where
  "bump_run P fs m = fold (\<lambda>f m. if P f then bump (source f) m else m) fs m"

lemma observed_counts:
  "a_syn_count (fold (observed ul) fs a) = bump_run is_syn fs (a_syn_count a)"
  "a_dns_long (fold (observed ul) fs a) = bump_run long_dns fs (a_dns_long a)"
  by (induction fs arbitrary: a) (simp_all add: bump_run_def observed_def source_def Let_def)

lemma bump_room:
  assumes "distinct (map fst m)" "card (insert s (fst ` set m)) \<le> 10000"
  shows "distinct (map fst (bump s m))" "fst ` set (bump s m) = insert s (fst ` set m)"
    "geti (bump s m) k = geti m k + (if k = s then 1 else 0)"
proof -
  let ?u = "AList.update s (geti m s + 1) m"
  have k: "fst ` set ?u = insert s (fst ` set m)" by (simp add: dom_update)
  have d: "distinct (map fst ?u)" using assms(1) by (rule distinct_update)
  then have "length ?u = card (insert s (fst ` set m))"
    using k by (metis distinct_card length_map set_map)
  then have b: "bump s m = ?u" using assms(2) by (simp add: bump_def Let_def)
  show "distinct (map fst (bump s m))" "fst ` set (bump s m) = insert s (fst ` set m)"
    "geti (bump s m) k = geti m k + (if k = s then 1 else 0)"
    using d k by (simp_all add: b geti_def update_conv')
qed

lemma bump_run_counts:
  assumes "distinct (map fst m)" "card (fst ` set m \<union> source ` set (filter P fs)) \<le> 10000"
  shows "geti (bump_run P fs m) s = geti m s + int (length (filter (\<lambda>f. P f \<and> source f = s) fs))"
  using assms
proof (induction fs arbitrary: m)
  case (Cons f fs)
  show ?case
  proof (cases "P f")
    case True
    let ?U = "fst ` set m \<union> source ` set (filter P (f # fs))"
    have "card (insert (source f) (fst ` set m)) \<le> card ?U"
      using True by (intro card_mono) auto
    then have c: "card (insert (source f) (fst ` set m)) \<le> 10000" using Cons.prems(2) by simp
    note b = bump_room [OF Cons.prems(1) c]
    have "fst ` set (bump (source f) m) \<union> source ` set (filter P fs) = ?U"
      using True by (auto simp: b(2))
    with Cons.IH [OF b(1)] Cons.prems(2) True show ?thesis
      by (simp add: bump_run_def b(3))
  qed (use Cons in \<open>simp add: bump_run_def\<close>)
qed (simp add: bump_run_def)

lemma rules:
  "x \<in> set (dns_reports m f) \<Longrightarrow> fi_rule x \<noteq> ''port_scan''"
  "x \<in> set (layer_reports ul f) \<Longrightarrow> fi_rule x \<noteq> ''port_scan''"
  by (auto simp: dns_reports_def layer_reports_def report_def Let_def split: if_splits)

lemma port_scans_of_frame:
  "filter (\<lambda>x. fi_rule x = ''port_scan'' \<and> fi_src x = s) (observe_reports ul f a) =
   (if source f = s then syn_reports (a_syn_count a) f else [])"
proof -
  have "filter (\<lambda>x. fi_rule x = ''port_scan'' \<and> fi_src x = s) (dns_reports m f) = []"
    "filter (\<lambda>x. fi_rule x = ''port_scan'' \<and> fi_src x = s) (layer_reports ul f) = []" for m
    unfolding filter_empty_conv using rules by blast+
  then show ?thesis
    by (simp add: observe_reports_def syn_reports_def report_def source_def Let_def)
qed

lemma take1_drop_snoc:
  "take 1 (drop n (xs @ [x])) = (if length xs = n then [x] else take 1 (drop n xs))"
  by (cases "length xs \<le> n") (auto simp: not_le)

lemma port_scans_run:
  assumes "card (source ` set (filter is_syn fs)) \<le> 10000"
  shows "filter (\<lambda>x. fi_rule x = ''port_scan'' \<and> fi_src x = s) (reports ul fs new_analyzer) =
    map (\<lambda>f. report f ''alert'' ''port_scan'' (''Possible SYN scan: '' @ s @ '' opened many SYNs''))
      (take 1 (drop 29 (filter (\<lambda>f. is_syn f \<and> source f = s) fs)))"
  using assms
proof (induction fs rule: rev_induct)
  case (snoc f fs)
  let ?p = "\<lambda>x. fi_rule x = ''port_scan'' \<and> fi_src x = s"
  let ?a = "fold (observed ul) fs new_analyzer"
  have "card (source ` set (filter is_syn fs)) \<le> card (source ` set (filter is_syn (fs @ [f])))"
    by (intro card_mono) auto
  then have IH: "filter ?p (reports ul fs new_analyzer) =
      map (\<lambda>f. report f ''alert'' ''port_scan'' (''Possible SYN scan: '' @ s @ '' opened many SYNs''))
        (take 1 (drop 29 (filter (\<lambda>f. is_syn f \<and> source f = s) fs)))"
    using snoc by simp
  have m: "a_syn_count ?a = bump_run is_syn fs []"
    by (simp add: observed_counts(1)) (simp add: new_analyzer_def)
  have "geti (bump s (a_syn_count ?a)) s = int (length (filter (\<lambda>f. is_syn f \<and> source f = s) fs)) + 1"
    if "is_syn f" "source f = s"
    using bump_run_counts [of "[]" is_syn "fs @ [f]" s] snoc.prems that m
    by (simp add: bump_run_def geti_def)
  then have "filter ?p (observe_reports ul f ?a) =
      (if is_syn f \<and> source f = s \<and> length (filter (\<lambda>f. is_syn f \<and> source f = s) fs) = 29
       then [report f ''alert'' ''port_scan'' (''Possible SYN scan: '' @ s @ '' opened many SYNs'')] else [])"
    unfolding port_scans_of_frame by (auto simp: syn_reports_def Let_def source_def)
  then show ?case
    using IH by (auto simp: reports_append take1_drop_snoc)
qed simp

section \<open>Properties\<close>

text \<open>C29: over any capture the analyzer never panics; it keeps the newest of the findings it
  raised, in order: all of them until there are 500, then at least 251 and at most 500.\<close>

theorem analyzer_keeps_newest:
  "\<exists>a gs rs. analyze_all ul fs new_analyzer = Some (a, gs, rs) \<and>
     length (analyzer_findings a) \<le> 500 \<and>
     (\<exists>old. rs = old @ analyzer_findings a \<and> (old = [] \<or> 250 < length (analyzer_findings a)))"
proof -
  have "a_limit new_analyzer = 500" "window [] (a_findings new_analyzer)"
    by (simp_all add: new_analyzer_def window_def)
  from analyze_all_result [OF this(1)] window_run [OF this(2), of ul fs] show ?thesis
    by (auto simp: window_def analyzer_findings_def)
qed

text \<open>C28: a source is reported as a port scanner once, at the thirtieth frame of it whose flags
  have SYN and not ACK, and no source is that sent fewer, as long as there are at most 10000 sources
  of such frames.\<close>

theorem port_scan_thirtieth:
  assumes "analyze_all ul fs new_analyzer = Some (a, gs, rs)"
    and "card (source ` set (filter is_syn fs)) \<le> 10000"
  shows "map fi_frame_no (filter (\<lambda>x. fi_rule x = ''port_scan'' \<and> fi_src x = s) rs) =
    map f_no (take 1 (drop 29 (filter (\<lambda>f. is_syn f \<and> source f = s) fs)))"
proof -
  have "a_limit new_analyzer = 500" by (simp add: new_analyzer_def)
  with assms(1) have "rs = reports ul fs new_analyzer" by (simp add: analyze_all_result)
  with port_scans_run [OF assms(2), of s ul] show ?thesis by (simp add: comp_def report_def)
qed

text \<open>Frame \<open>n\<close> of the witnesses: a SYN from the source \<open>s\<close>.\<close>

definition syn_from :: "string \<Rightarrow> nat \<Rightarrow> frame" where
  "syn_from s n =
     (blank_frame (word_of_nat n) 0 0 0 [])\<lparr>f_meta := [''tcp_flags'' \<mapsto> ''SYN'', ''ip_src'' \<mapsto> s]\<rparr>"

lemma syn_from_simps [simp]:
  "is_syn (syn_from s n)" "source (syn_from s n) = s" "f_no (syn_from s n) = word_of_nat n"
  "\<not> long_dns (syn_from s n)" "f_layers (syn_from s n) = []"
  by (simp_all add: syn_from_def is_syn_def source_def long_dns_def blank_frame_def gget_def sub_eval)

lemma port_scan_witness:
  "\<exists>a gs rs. analyze_all id (map (syn_from ''x'') [0..<40]) new_analyzer = Some (a, gs, rs) \<and>
     map fi_frame_no (filter (\<lambda>x. fi_rule x = ''port_scan'' \<and> fi_src x = ''x'') rs) = [29]"
proof -
  let ?fs = "map (syn_from ''x'') [0..<40]"
  obtain a gs rs where r: "analyze_all id ?fs new_analyzer = Some (a, gs, rs)"
    using analyzer_keeps_newest [of id ?fs] by blast
  have f: "filter is_syn ?fs = ?fs" "filter (\<lambda>f. is_syn f \<and> source f = ''x'') ?fs = ?fs"
    by (simp_all add: filter_map comp_def)
  have "card (source ` set (filter is_syn ?fs)) \<le> 10000"
    unfolding f using card_mono [of "{''x''}" "source ` set ?fs"] by (simp add: image_subset_iff)
  from port_scan_thirtieth [OF r this, of "''x''"] have
    "map fi_frame_no (filter (\<lambda>x. fi_rule x = ''port_scan'' \<and> fi_src x = ''x'') rs) = [29]"
    unfolding f by (simp add: upt_rec)
  with r show ?thesis by (intro exI [of _ a] exI [of _ gs] exI [of _ rs] conjI)
qed

text \<open>The frames come back with their layers and addresses as they were. Their severity is
  that of the last mark set (outdated TLS before cleartext credentials before a long DNS name), and
  each cause adds its tag; a cleartext credential or an outdated TLS version is reported for each
  layer that has it.\<close>

theorem analyzer_marks:
  assumes "analyze_all ul fs new_analyzer = Some (a, gs, rs)"
  shows "gs = map (\<lambda>f. f\<lparr>f_severity := fst (marks ul f), f_tags := snd (marks ul f)\<rparr>) fs \<and>
    filter (\<lambda>x. fi_rule x \<in> {''cleartext_auth'', ''weak_tls''}) rs = concat (map (layer_reports ul) fs)"
proof -
  have l: "a_limit new_analyzer = 500" by (simp add: new_analyzer_def)
  let ?p = "\<lambda>x. fi_rule x \<in> {''cleartext_auth'', ''weak_tls''}"
  have "filter ?p (observe_reports ul f a) = layer_reports ul f" for f a
    by (auto simp: observe_reports_def syn_reports_def dns_reports_def layer_reports_def report_def
        Let_def filter_id_conv)
  then have "filter ?p (reports ul fs a) = concat (map (layer_reports ul) fs)" for a
    by (induction fs arbitrary: a) (simp_all only: reports.simps filter_append list.map concat.simps filter.simps)
  moreover have "gs = map (marked ul) fs" "rs = reports ul fs new_analyzer"
    using assms by (simp_all add: analyze_all_result [OF l])
  ultimately show ?thesis by (simp add: marked_def [abs_def])
qed

lemma analyzer_marks_witness:
  "\<exists>a gs rs. analyze_all id [syn_from ''x'' 1,
       (syn_from ''x'' 2)\<lparr>f_layers := [\<lparr>l_name = ''TLS'', l_summary = [],
          l_fields = [(''client_version'', ''TLS 1.0'')], l_raw = [], l_offset = 0, l_length = 0,
          l_color = []\<rparr>]\<rparr>] new_analyzer = Some (a, gs, rs) \<and>
     map f_severity gs = [[], ''warn''] \<and> map f_tags gs = [[], [''weak-tls'']]"
proof -
  let ?l = "\<lparr>l_name = ''TLS'', l_summary = [], l_fields = [(''client_version'', ''TLS 1.0'')],
    l_raw = [], l_offset = 0, l_length = 0, l_color = []\<rparr>"
  let ?fs = "[syn_from ''x'' 1, (syn_from ''x'' 2)\<lparr>f_layers := [?l]\<rparr>]"
  have m: "filter weak_layer [?l] = [?l]" "filter (basic_layer id) [?l] = []"
    by (simp_all add: weak_layer_def basic_layer_def gget_def)
  obtain a gs rs where r: "analyze_all id ?fs new_analyzer = Some (a, gs, rs)"
    using analyzer_keeps_newest [of id ?fs] by blast
  from analyzer_marks [OF r] have "map f_severity gs = [[], ''warn''] \<and> map f_tags gs = [[], [''weak-tls'']]"
    by (simp add: marks_def m del: filter.simps)
      (simp add: syn_from_def blank_frame_def long_dns_def gget_def)
  with r show ?thesis by (elim conjE) (intro exI [of _ a] exI [of _ gs] exI [of _ rs] conjI)
qed

end
