(* ===== verification/Session.thy ===== *)
theory Session
  imports Fifo
begin

text \<open>
  \<open>internal/session/player.go\<close>: the session player, which keeps a timeline of events for each
  conversation. As in \<open>Flow\<close>, the map of pointers is an association list of values, and
  \<open>player_observe\<close> is \<open>None\<close> where \<open>p.order[0]\<close> would panic. The copies that \<open>List\<close> and \<open>Get\<close>
  make of the slices are values here. The player is interpreted as a \<open>bounded_fifo\<close>.
\<close>

section \<open>Strings\<close>

text \<open>The package's own \<open>indexOf\<close>: the first position, or -1.\<close>

definition index_of :: "string \<Rightarrow> string \<Rightarrow> int" where
  "index_of s sub =
     (case find (\<lambda>i. take (length sub) (drop i s) = sub) [0..<length s + 1 - length sub] of
        Some i \<Rightarrow> int i
      | None \<Rightarrow> - 1)"

definition contains_str :: "string \<Rightarrow> string \<Rightarrow> bool" where
  "contains_str s sub =
     (length sub \<le> length s \<and> (s = sub \<or> sub = [] \<or> (s \<noteq> [] \<and> 0 \<le> index_of s sub)))"

definition trunc :: "string \<Rightarrow> nat \<Rightarrow> string" where
  "trunc s n = (if length s \<le> n then s else take n s @ ellipsis)"

section \<open>Events and sessions\<close>

record event =
  e_at :: gotime
  e_frame_no :: u64
  e_kind :: string
  e_summary :: string
  e_dir :: string

record session =
  s_key :: string
  s_protocol :: string
  s_app :: string
  s_src :: string
  s_dst :: string
  s_sport :: string
  s_dport :: string
  s_packets :: u64
  s_bytes :: u64
  s_first_seen :: gotime
  s_last_seen :: gotime
  s_sni :: string
  s_ja3 :: string
  s_events :: "event list"
  s_frame_nos :: "u64 list"
  s_client_bytes :: u64
  s_server_bytes :: u64

record player =
  p_by_key :: "(string \<times> session) list"
  p_order :: "string list"
  p_limit :: int
  p_max_ev :: int
  p_max_fr :: int

definition new_player :: "int \<Rightarrow> player" where
  "new_player limit =
     \<lparr>p_by_key = [], p_order = [], p_limit = (if limit \<le> 0 then 2000 else limit),
      p_max_ev = 80, p_max_fr = 200\<rparr>"

text \<open>An event whose time, number and direction are still the zero values.\<close>

definition mk_event :: "string \<Rightarrow> string \<Rightarrow> event" where
  "mk_event kind summary =
     \<lparr>e_at = - 62135596800 * 1000000000, e_frame_no = 0, e_kind = kind, e_summary = summary,
      e_dir = []\<rparr>"

definition classify_app :: "frame \<Rightarrow> event" where
  "classify_app f =
     (if f_protocol f = ''TLS'' then
        let sum = f_info f;
            sni = gget (f_meta f) ''sni'';
            sum = (if sni \<noteq> [] then ''TLS SNI='' @ sni else sum);
            ja3 = gget (f_meta f) ''ja3'';
            sum = (if ja3 \<noteq> [] then sum @ '' JA3='' @ take (min 8 (length ja3)) ja3 else sum)
        in mk_event ''tls'' (trunc sum 120)
      else if f_protocol f = ''HTTP'' then mk_event ''http'' (trunc (f_info f) 120)
      else if f_protocol f = ''HTTP/2'' then mk_event ''http2'' (trunc (f_info f) 120)
      else if f_protocol f = ''DNS'' \<or> f_protocol f = ''mDNS'' then mk_event ''dns'' (trunc (f_info f) 120)
      else if f_protocol f = ''QUIC'' then mk_event ''quic'' (trunc (f_info f) 120)
      else if 60 < f_length f \<and> (f_protocol f = ''TCP'' \<or> f_protocol f = ''UDP'')
        then mk_event ''data'' (f_protocol f @ '' payload'')
      else mk_event [] [])"

definition classify :: "frame \<Rightarrow> event" where
  "classify f =
     (let flags = gget (f_meta f) ''tcp_flags'' in
      if flags \<noteq> [] \<and> contains_str flags ''SYN'' \<and> \<not> contains_str flags ''ACK''
        then mk_event ''syn'' ''TCP SYN''
      else if flags \<noteq> [] \<and> contains_str flags ''SYN'' \<and> contains_str flags ''ACK''
        then mk_event ''synack'' ''TCP SYN-ACK''
      else if flags \<noteq> [] \<and> contains_str flags ''FIN'' then mk_event ''fin'' ''TCP FIN''
      else if flags \<noteq> [] \<and> contains_str flags ''RST'' then mk_event ''rst'' ''TCP RST''
      else classify_app f)"

section \<open>Observing a frame\<close>

definition session_protocols :: "string list" where
  "session_protocols = [''DNS'', ''TLS'', ''HTTP'', ''HTTP/2'', ''QUIC'']"

definition player_accepts :: "frame \<Rightarrow> bool" where
  "player_accepts f =
     (if f_flow_key f = [] then False
      else
        let proto = gget (f_meta f) ''ip_proto'' in
        if proto \<noteq> ''TCP'' \<and> proto \<noteq> ''UDP'' \<and> f_protocol f \<notin> set session_protocols
        then proto \<noteq> [] else True)"

definition new_session :: "frame \<Rightarrow> session" where
  "new_session f =
     (let src = gget (f_meta f) ''ip_src''; dst = gget (f_meta f) ''ip_dst'' in
      \<lparr>s_key = f_flow_key f, s_protocol = gget (f_meta f) ''ip_proto'', s_app = [],
       s_src = (if src = [] then f_src f else src), s_dst = (if dst = [] then f_dst f else dst),
       s_sport = gget (f_meta f) ''sport'', s_dport = gget (f_meta f) ''dport'',
       s_packets = 0, s_bytes = 0, s_first_seen = f_timestamp f,
       s_last_seen = - 62135596800 * 1000000000, s_sni = [], s_ja3 = [], s_events = [],
       s_frame_nos = [], s_client_bytes = 0, s_server_bytes = 0\<rparr>)"

definition session_apps :: "string list" where
  "session_apps = [''TLS'', ''HTTP'', ''HTTP/2'', ''DNS'', ''QUIC'', ''SSH'', ''DHCP'']"

text \<open>The direction of a frame in its session, and the byte count it goes to.\<close>

definition count_direction :: "frame \<Rightarrow> session \<Rightarrow> string \<times> session" where
  "count_direction f s =
     (let src = gget (f_meta f) ''ip_src''; n = word_of_nat (f_length f) in
      if src = s_src s then (''c2s'', s\<lparr>s_client_bytes := s_client_bytes s + n\<rparr>)
      else if src = s_dst s then (''s2c'', s\<lparr>s_server_bytes := s_server_bytes s + n\<rparr>)
      else (em_dash, s))"

definition session_counts :: "int \<Rightarrow> frame \<Rightarrow> session \<Rightarrow> session" where
  "session_counts max_fr f s =
     (let s = s\<lparr>s_packets := s_packets s + 1, s_bytes := s_bytes s + word_of_nat (f_length f),
                s_last_seen := f_timestamp f\<rparr>;
          s = (if int (length (s_frame_nos s)) < max_fr
               then s\<lparr>s_frame_nos := s_frame_nos s @ [f_no f]\<rparr> else s);
          sni = gget (f_meta f) ''sni'';
          s = (if sni \<noteq> [] then s\<lparr>s_sni := sni\<rparr> else s);
          ja3 = gget (f_meta f) ''ja3'';
          s = (if ja3 \<noteq> [] then s\<lparr>s_ja3 := ja3\<rparr> else s)
      in if f_protocol f \<in> set session_apps then s\<lparr>s_app := f_protocol f\<rparr> else s)"

definition add_event :: "int \<Rightarrow> frame \<Rightarrow> string \<Rightarrow> session \<Rightarrow> session" where
  "add_event max_ev f dir s =
     (let ev = classify f in
      if e_kind ev \<noteq> [] \<and> int (length (s_events s)) < max_ev
      then s\<lparr>s_events := s_events s
               @ [ev\<lparr>e_at := f_timestamp f, e_frame_no := f_no f, e_dir := dir\<rparr>]\<rparr>
      else s)"

definition update_session :: "int \<Rightarrow> int \<Rightarrow> frame \<Rightarrow> session \<Rightarrow> session" where
  "update_session max_fr max_ev f s =
     (let (dir, s) = count_direction f (session_counts max_fr f s) in add_event max_ev f dir s)"

definition player_observe :: "frame \<Rightarrow> player \<Rightarrow> player option" where
  "player_observe f p =
     (if \<not> player_accepts f then Some p
      else do {
        let k = f_flow_key f;
        (p, s) \<leftarrow> (case map_of (p_by_key p) k of
            Some s \<Rightarrow> Some (p, s)
          | None \<Rightarrow> do {
              p \<leftarrow> (if p_limit p \<le> int (length (p_by_key p)) then do {
                      old \<leftarrow> idx (p_order p) 0;
                      Some (p\<lparr>p_order := tl (p_order p), p_by_key := AList.delete old (p_by_key p)\<rparr>)
                    }
                    else Some p);
              let s = new_session f;
              Some (p\<lparr>p_by_key := AList.update k s (p_by_key p), p_order := p_order p @ [k]\<rparr>, s)
            });
        Some (p\<lparr>p_by_key := AList.update k (update_session (p_max_fr p) (p_max_ev p) f s) (p_by_key p)\<rparr>)
      })"

definition player_list :: "(session list \<Rightarrow> session list) \<Rightarrow> int \<Rightarrow> player \<Rightarrow> session list" where
  "player_list iter n p = top_n s_bytes n (iter (map snd (p_by_key p)))"

definition player_get :: "string \<Rightarrow> player \<Rightarrow> session option" where
  "player_get key p = map_of (p_by_key p) key"

definition player_count :: "player \<Rightarrow> int" where
  "player_count p = int (length (p_by_key p))"

section \<open>The player is a bounded FIFO table\<close>

interpretation sess: bounded_fifo player_observe p_by_key p_order p_limit player_accepts
  "\<lambda>p. update_session (p_max_fr p) (p_max_ev p)" new_session
proof unfold_locales
  fix f p assume "\<not> player_accepts f"
  then show "player_observe f p = Some p" by (simp add: player_observe_def)
qed (auto simp: player_observe_def idx_def Let_def)

lemma new_player_inv: "sess.inv (new_player n)"
  by (simp add: sess.inv_def fifo_inv_def new_player_def)

section \<open>Search\<close>

lemma index_of_found: "0 \<le> index_of s sub \<longleftrightarrow> contains_sub s sub"
proof
  assume "0 \<le> index_of s sub"
  then obtain i where "i < length s + 1 - length sub" "take (length sub) (drop i s) = sub"
    by (auto simp: index_of_def find_Some_iff split: option.splits)
  then have "s = take i s @ sub @ drop (length sub) (drop i s)"
    by (metis append_take_drop_id)
  then show "contains_sub s sub" unfolding contains_sub_iff by blast
next
  assume "contains_sub s sub"
  then obtain u v where s: "s = u @ sub @ v" by (auto simp: contains_sub_iff)
  then have "length u \<in> set [0..<length s + 1 - length sub]"
    "take (length sub) (drop (length u) s) = sub" by auto
  then show "0 \<le> index_of s sub"
    by (auto simp: index_of_def find_None_iff split: option.splits)
qed

lemma contains_str_sub: "contains_str s sub \<longleftrightarrow> contains_sub s sub"
proof -
  have "contains_sub s sub \<Longrightarrow> length sub \<le> length s" by (auto simp: contains_sub_iff)
  moreover have "contains_sub s []" unfolding contains_sub_iff by (metis append_Nil)
  ultimately show ?thesis by (auto simp: contains_str_def index_of_found)
qed

section \<open>The timeline of a session\<close>

lemma session_counts_fields [simp]:
  "s_packets (session_counts mf f s) = s_packets s + 1"
  "s_bytes (session_counts mf f s) = s_bytes s + word_of_nat (f_length f)"
  "s_frame_nos (session_counts mf f s) =
     (if int (length (s_frame_nos s)) < mf then s_frame_nos s @ [f_no f] else s_frame_nos s)"
  "s_events (session_counts mf f s) = s_events s"
  "s_src (session_counts mf f s) = s_src s" "s_dst (session_counts mf f s) = s_dst s"
  by (simp_all add: session_counts_def Let_def)

lemma count_direction_fields [simp]:
  "s_events (snd (count_direction f s)) = s_events s"
  "s_frame_nos (snd (count_direction f s)) = s_frame_nos s"
  "s_packets (snd (count_direction f s)) = s_packets s"
  "s_bytes (snd (count_direction f s)) = s_bytes s"
  "s_src (snd (count_direction f s)) = s_src s" "s_dst (snd (count_direction f s)) = s_dst s"
  by (simp_all add: count_direction_def Let_def)

text \<open>The event a frame gives in a session between \<open>src\<close> and \<open>dst\<close>.\<close>

definition direction :: "string \<Rightarrow> string \<Rightarrow> frame \<Rightarrow> string" where
  "direction src dst f =
     (if gget (f_meta f) ''ip_src'' = src then ''c2s''
      else if gget (f_meta f) ''ip_src'' = dst then ''s2c'' else em_dash)"

definition frame_event :: "string \<Rightarrow> string \<Rightarrow> frame \<Rightarrow> event" where
  "frame_event src dst f =
     (classify f)\<lparr>e_at := f_timestamp f, e_frame_no := f_no f, e_dir := direction src dst f\<rparr>"

lemma count_direction_dir: "fst (count_direction f s) = direction (s_src s) (s_dst s) f"
  by (simp add: count_direction_def direction_def Let_def)

lemma update_session_fields:
  "s_packets (update_session mf me f s) = s_packets s + 1"
  "s_bytes (update_session mf me f s) = s_bytes s + word_of_nat (f_length f)"
  "s_frame_nos (update_session mf me f s) =
     (if int (length (s_frame_nos s)) < mf then s_frame_nos s @ [f_no f] else s_frame_nos s)"
  "s_src (update_session mf me f s) = s_src s" "s_dst (update_session mf me f s) = s_dst s"
  "s_events (update_session mf me f s) =
     (if e_kind (classify f) \<noteq> [] \<and> int (length (s_events s)) < me
      then s_events s @ [frame_event (s_src s) (s_dst s) f] else s_events s)"
proof -
  define t where "t = session_counts mf f s"
  obtain dir u where u: "count_direction f t = (dir, u)" by fastforce
  have d: "dir = direction (s_src s) (s_dst s) f"
    using count_direction_dir [of f t] u by (simp add: t_def)
  note f = count_direction_fields [of f t, unfolded u snd_conv]
  show "s_packets (update_session mf me f s) = s_packets s + 1"
    "s_bytes (update_session mf me f s) = s_bytes s + word_of_nat (f_length f)"
    "s_frame_nos (update_session mf me f s) =
       (if int (length (s_frame_nos s)) < mf then s_frame_nos s @ [f_no f] else s_frame_nos s)"
    "s_src (update_session mf me f s) = s_src s" "s_dst (update_session mf me f s) = s_dst s"
    "s_events (update_session mf me f s) =
       (if e_kind (classify f) \<noteq> [] \<and> int (length (s_events s)) < me
        then s_events s @ [frame_event (s_src s) (s_dst s) f] else s_events s)"
    unfolding update_session_def t_def [symmetric] u prod.case
    using f d by (simp_all add: add_event_def Let_def t_def frame_event_def)
qed

text \<open>Appending while there is room keeps a prefix.\<close>

lemma take_append_room:
  "xs = take n ys \<Longrightarrow> (if int (length xs) < int n then xs @ [y] else xs) = take n (ys @ [y])"
  by (auto simp: min_def)

lemma session_run:
  assumes "entry_run (update_session (int nf) (int ne)) new_session gs (Some s) = Some s'"
    and "s_frame_nos s = take nf (map f_no hs)"
    and "s_events s = take ne (map (frame_event (s_src s) (s_dst s))
           (filter (\<lambda>f. e_kind (classify f) \<noteq> []) hs))"
  shows "s_frame_nos s' = take nf (map f_no (hs @ gs)) \<and>
    s_events s' = take ne (map (frame_event (s_src s) (s_dst s))
      (filter (\<lambda>f. e_kind (classify f) \<noteq> []) (hs @ gs)))"
  using assms
proof (induction gs arbitrary: s hs)
  case (Cons g gs)
  let ?s = "update_session (int nf) (int ne) g s"
  have e: "entry_run (update_session (int nf) (int ne)) new_session gs (Some ?s) = Some s'"
    using Cons.prems(1) by (simp add: entry_run_def)
  have f: "s_frame_nos ?s = take nf (map f_no (hs @ [g]))"
    using take_append_room [OF Cons.prems(2), of "f_no g"] by (simp add: update_session_fields)
  have ev: "s_events ?s = take ne (map (frame_event (s_src ?s) (s_dst ?s))
      (filter (\<lambda>f. e_kind (classify f) \<noteq> []) (hs @ [g])))"
  proof (cases "e_kind (classify g) = []")
    case True
    then show ?thesis using Cons.prems(3) by (simp add: update_session_fields)
  next
    case False
    show ?thesis
      using take_append_room [OF Cons.prems(3), of "frame_event (s_src s) (s_dst s) g"] False
      by (simp only: update_session_fields simp_thms filter_append map_append filter.simps if_True
            list.map)
  qed
  from Cons.IH [OF e f ev] show ?case by (simp add: update_session_fields)
qed (simp add: entry_run_def)

section \<open>Properties\<close>

text \<open>C24: whatever frames arrive, the player does not panic, holds at most its limit of sessions
  under distinct keys, and acts as a queue that drops the key it saw first.\<close>

theorem player_refines_fifo:
  "\<exists>p. run_all player_observe fs (new_player n) = Some p \<and>
     int (length (p_by_key p)) \<le> p_limit (new_player n) \<and> distinct (map fst (p_by_key p)) \<and>
     fifo_abs (p_by_key p) (p_order p) =
       fifo_run (p_limit (new_player n)) player_accepts (update_session 200 80) new_session fs []"
proof -
  have a: "fifo_abs (p_by_key (new_player n)) (p_order (new_player n)) = []"
    by (simp add: fifo_abs_def new_player_def)
  have c: "p_max_fr (new_player n) = 200" "p_max_ev (new_player n) = 80"
    by (simp_all add: new_player_def)
  from sess.run_refines [OF new_player_inv, of fs n] show ?thesis
    unfolding c sess.absq_def a by (auto simp: sess.inv_def fifo_inv_def)
qed

text \<open>C25: while the flow keys fit into the table, the timeline of a session is exactly the first 80
  classified frames of its key, in order, with their times, numbers and directions as seen from
  the first frame's source; its frame list is the first 200 frame numbers.\<close>

theorem session_timeline:
  assumes "run_all player_observe fs (new_player n) = Some p"
    and "int (card (f_flow_key ` set (filter player_accepts fs))) \<le> p_limit (new_player n)"
    and "gs = filter (\<lambda>f. player_accepts f \<and> f_flow_key f = k) fs" "gs \<noteq> []"
  shows "\<exists>s. player_get k p = Some s \<and> s_frame_nos s = take 200 (map f_no gs) \<and>
    s_events s = take 80 (map (frame_event (s_src (new_session (hd gs))) (s_dst (new_session (hd gs))))
      (filter (\<lambda>f. e_kind (classify f) \<noteq> []) gs))"
proof -
  obtain g hs where g: "gs = g # hs" using assms(4) by (cases gs) auto
  let ?upd = "update_session (int 200) (int 80)"
  have "p_by_key (new_player n) = []" by (simp add: new_player_def)
  from sess.run_lookup [OF new_player_inv this assms(1,2), of k]
  have "player_get k p = entry_run ?upd new_session (g # hs) None"
    by (simp add: g player_get_def new_player_def flip: assms(3))
  also have "\<dots> = entry_run ?upd new_session (g # hs) (Some (new_session g))"
    by (simp add: entry_run_def)
  finally have e: "player_get k p = entry_run ?upd new_session (g # hs) (Some (new_session g))" .
  obtain s where s: "entry_run ?upd new_session (g # hs) (Some (new_session g)) = Some s"
    by (metis entry_run_Some)
  have z: "s_frame_nos (new_session g) = take 200 (map f_no [])"
    "s_events (new_session g) = take 80 (map (frame_event (s_src (new_session g)) (s_dst (new_session g)))
       (filter (\<lambda>f. e_kind (classify f) \<noteq> []) []))"
    by (simp_all add: new_session_def Let_def)
  from session_run [OF s z] e s show ?thesis by (simp add: g)
qed

lemma session_timeline_witness:
  "\<exists>p s. run_all player_observe
       [(blank_frame 1 10 0 0 [])\<lparr>f_flow_key := ''k'', f_protocol := ''DNS'', f_info := ''q''\<rparr>,
        (blank_frame 2 20 0 0 [])\<lparr>f_flow_key := ''k'', f_protocol := ''DNS'', f_info := ''r''\<rparr>]
       (new_player 1) = Some p \<and> player_get ''k'' p = Some s \<and> s_frame_nos s = [1, 2] \<and>
     map e_summary (s_events s) = [''q'', ''r'']"
proof -
  let ?fs = "[(blank_frame 1 10 0 0 [])\<lparr>f_flow_key := ''k'', f_protocol := ''DNS'', f_info := ''q''\<rparr>,
        (blank_frame 2 20 0 0 [])\<lparr>f_flow_key := ''k'', f_protocol := ''DNS'', f_info := ''r''\<rparr>]"
  obtain p where p: "run_all player_observe ?fs (new_player 1) = Some p"
    using sess.run_refines [OF new_player_inv, of ?fs 1] by blast
  have acc: "filter (\<lambda>f. player_accepts f \<and> f_flow_key f = ''k'') ?fs = ?fs"
    "filter player_accepts ?fs = ?fs"
    by (simp_all add: player_accepts_def session_protocols_def Let_def)
  have cl: "filter (\<lambda>f. e_kind (classify f) \<noteq> []) ?fs = ?fs"
    "e_summary (frame_event src dst (?fs ! 0)) = ''q''"
    "e_summary (frame_event src dst (?fs ! 1)) = ''r''" for src dst
    by (simp_all add: classify_def classify_app_def blank_frame_def mk_event_def trunc_def
          frame_event_def)
  have "\<exists>s. player_get ''k'' p = Some s \<and> s_frame_nos s = take 200 (map f_no ?fs) \<and>
    s_events s = take 80 (map (frame_event (s_src (new_session (hd ?fs))) (s_dst (new_session (hd ?fs))))
      (filter (\<lambda>f. e_kind (classify f) \<noteq> []) ?fs))"
    by (rule session_timeline [OF p _ acc(1) [symmetric]]) (simp_all add: acc(2) new_player_def)
  then obtain s where s: "player_get ''k'' p = Some s" "s_frame_nos s = take 200 (map f_no ?fs)"
    "s_events s = take 80 (map (frame_event (s_src (new_session (hd ?fs))) (s_dst (new_session (hd ?fs)))) ?fs)"
    unfolding cl(1) by blast
  have "s_frame_nos s = [1, 2]" using s(2) by (simp add: blank_frame_def)
  moreover have "map e_summary (s_events s) = [''q'', ''r'']"
    using cl(2,3) unfolding s(3) by simp
  ultimately show ?thesis
    using p s(1) by (intro exI [of _ p] exI [of _ s] conjI)
qed

end
