(* ===== verification/Story.thy ===== *)
theory Story
  imports Security Session
begin

text \<open>
  \<open>internal/story/story.go\<close>: the incident story, built from the findings in the order of their
  times and linked to sessions by address. \<open>sort.Slice\<close>, which is not stable, is the parameter
  \<open>srt\<close>; its contract is the locale \<open>slice_sort\<close>, which sorting by the key of a finding
  satisfies. The map of \<open>indexSessions\<close> is a partial function. A nil session is \<open>None\<close>.
  The lemmas: the chapters are the findings in order of time; a chapter is linked to the last
  session between its two hosts.
\<close>

section \<open>Types\<close>

record story_chapter =
  ch_index :: int
  ch_title :: string
  ch_body :: string
  ch_severity :: string
  ch_rule :: string
  ch_frame_no :: u64
  ch_time :: gotime
  ch_src :: string
  ch_dst :: string
  ch_session_key :: string

record story =
  so_title :: string
  so_summary :: string
  so_markdown :: string
  so_chapters :: "story_chapter list"
  so_findings :: int
  so_sessions :: int
  so_generated :: gotime

definition rule_title :: "string \<rightharpoonup> string" where
  "rule_title =
     [''port_scan'' \<mapsto> ''Recon '' @ em_dash @ '' SYN scan'',
      ''dns_tunnel'' \<mapsto> ''Covert channel '' @ em_dash @ '' DNS tunnel hint'',
      ''cleartext_auth'' \<mapsto> ''Credential exposure '' @ em_dash @ '' cleartext Basic auth'',
      ''weak_tls'' \<mapsto> ''Weak cryptography '' @ em_dash @ '' outdated TLS'']"

definition rule_body :: "string \<rightharpoonup> string" where
  "rule_body =
     [''port_scan'' \<mapsto> ''An endpoint opened a burst of SYN connections '' @ em_dash
        @ '' classic port-scan footprint. Pivot to the source and freeze the session player on early SYNs.'',
      ''dns_tunnel'' \<mapsto> ''Unusually long DNS labels suggest tunneling or exfil. ''
        @ ''Correlate with the resolver conversation in Session Player.'',
      ''cleartext_auth'' \<mapsto> ''HTTP Basic credentials crossed the wire without TLS. ''
        @ ''Treat the account as burned until rotated.'',
      ''weak_tls'' \<mapsto> ''A peer negotiated a deprecated TLS version. ''
        @ ''Downgrade attacks and passive decryption become realistic.'']"

section \<open>Building the story\<close>

text \<open>The function \<open>sort.Slice\<close> is given.\<close>

definition finding_before :: "finding \<Rightarrow> finding \<Rightarrow> bool" where
  "finding_before a b =
     (if fi_time a = fi_time b then fi_frame_no a < fi_frame_no b else fi_time a < fi_time b)"

definition index_session :: "session option \<Rightarrow> (string \<rightharpoonup> string) \<Rightarrow> (string \<rightharpoonup> string)" where
  "index_session s out =
     (case s of
        None \<Rightarrow> out
      | Some s \<Rightarrow> out(s_src s @ ''|'' @ s_dst s \<mapsto> s_key s, s_dst s @ ''|'' @ s_src s \<mapsto> s_key s,
                      s_src s \<mapsto> s_key s, s_dst s \<mapsto> s_key s))"

definition index_sessions :: "session option list \<Rightarrow> (string \<rightharpoonup> string)" where
  "index_sessions ss = fold index_session ss Map.empty"

definition match_session :: "(string \<rightharpoonup> string) \<Rightarrow> string \<Rightarrow> string \<Rightarrow> string" where
  "match_session ix src dst =
     (case ix (src @ ''|'' @ dst) of
        Some k \<Rightarrow> k
      | None \<Rightarrow> (case ix src of Some k \<Rightarrow> k | None \<Rightarrow> gget ix dst))"

definition unique_rules :: "finding list \<Rightarrow> string list" where
  "unique_rules fs =
     snd (fold (\<lambda>f (seen, out).
            if fi_rule f \<in> seen then (seen, out)
            else (insert (fi_rule f) seen, out @ [fi_rule f])) fs ({}, []))"

definition make_chapter :: "(string \<rightharpoonup> string) \<Rightarrow> nat \<Rightarrow> finding \<Rightarrow> story_chapter" where
  "make_chapter sess_by_ip i f =
     (let title = gget rule_title (fi_rule f);
          title = (if title = [] then ''Signal '' @ em_dash @ '' '' @ fi_rule f else title);
          body = gget rule_body (fi_rule f);
          body = (if body = [] then fi_message f
                  else body @ newline @ newline @ ''Evidence: '' @ fi_message f)
      in \<lparr>ch_index = int i + 1, ch_title = title, ch_body = body, ch_severity = fi_severity f,
          ch_rule = fi_rule f, ch_frame_no = fi_frame_no f, ch_time = fi_time f,
          ch_src = fi_src f, ch_dst = fi_dst f,
          ch_session_key = match_session sess_by_ip (fi_src f) (fi_dst f)\<rparr>)"

definition chapter_markdown :: "story_chapter \<Rightarrow> string" where
  "chapter_markdown ch =
     ''## '' @ dec (nat (ch_index ch)) @ ''. '' @ ch_title ch @ newline @ newline
     @ ''- **severity:** '' @ ch_severity ch @ newline
     @ ''- **rule:** `'' @ ch_rule ch @ ''`'' @ newline
     @ ''- **frame:** #'' @ dec (unat (ch_frame_no ch)) @ newline
     @ ''- **path:** `'' @ ch_src ch @ ''` '' @ arrow @ '' `'' @ ch_dst ch @ ''`'' @ newline
     @ (if ch_session_key ch \<noteq> [] then ''- **session:** `'' @ ch_session_key ch @ ''`'' @ newline else [])
     @ newline @ ch_body ch @ newline @ newline"

definition render_markdown :: "story \<Rightarrow> string" where
  "render_markdown st =
     ''# '' @ so_title st @ newline @ newline @ so_summary st @ newline @ newline
     @ concat (map chapter_markdown (so_chapters st))"

definition build_story ::
  "(finding list \<Rightarrow> finding list) \<Rightarrow> gotime \<Rightarrow> finding list \<Rightarrow> session option list \<Rightarrow> story" where
  "build_story srt now findings sessions =
     (let sorted = srt findings;
          sess_by_ip = index_sessions sessions;
          chapters = map (\<lambda>(i, f). make_chapter sess_by_ip i f) (enumerate 0 sorted);
          (title, summary) =
            (if chapters \<noteq> []
             then (''Incident reel '' @ mid_dot @ '' '' @ dec (length chapters) @ '' chapters'',
                   dec (length chapters) @ '' findings across ''
                   @ join ('' '' @ arrow @ '' '') (unique_rules sorted)
                   @ ''. Open a chapter to jump the Session Player / packet table.'')
             else (''Quiet wire'', ''No security chapters yet '' @ em_dash @ '' keep tapping.''));
          st = \<lparr>so_title = title, so_summary = summary, so_markdown = [], so_chapters = chapters,
                so_findings = int (length sorted), so_sessions = int (length sessions),
                so_generated = now\<rparr>
      in st\<lparr>so_markdown := render_markdown st\<rparr>)"

section \<open>The contract of \<open>sort.Slice\<close>\<close>

locale slice_sort =
  fixes srt :: "finding list \<Rightarrow> finding list"
  assumes same: "mset (srt fs) = mset fs"
    and ordered: "sorted_wrt (\<lambda>a b. \<not> finding_before b a) (srt fs)"
begin

lemma srt_set [simp]: "set (srt fs) = set fs"
  by (metis same set_mset_mset)

lemma srt_length [simp]: "length (srt fs) = length fs"
  by (metis same size_mset)

lemma chapters_of_findings:
  "map ch_frame_no (so_chapters (build_story srt now fs ss)) = map fi_frame_no (srt fs)"
  "map ch_time (so_chapters (build_story srt now fs ss)) = map fi_time (srt fs)"
  "map ch_rule (so_chapters (build_story srt now fs ss)) = map fi_rule (srt fs)"
  "map ch_index (so_chapters (build_story srt now fs ss)) = map int [1..<Suc (length fs)]"
proof -
  have c: "so_chapters (build_story srt now fs ss) =
      map (\<lambda>(i, f). make_chapter (index_sessions ss) i f) (enumerate 0 (srt fs))"
    by (simp add: build_story_def Let_def split: prod.split)
  have snd_enum: "map (\<lambda>x. g (snd x)) (enumerate 0 xs) = map g xs" for g :: "finding \<Rightarrow> 'x" and xs
    using map_snd_enumerate [of 0 xs] by (metis (no_types) map_map comp_apply map_eq_conv)
  have fst_enum: "map (\<lambda>(i, f). int i + 1) (enumerate n xs) = map int [Suc n..<Suc (n + length xs)]"
    for n and xs :: "finding list"
    by (induction xs arbitrary: n) (simp_all add: upt_conv_Cons del: upt_Suc)
  show "map ch_frame_no (so_chapters (build_story srt now fs ss)) = map fi_frame_no (srt fs)"
    "map ch_time (so_chapters (build_story srt now fs ss)) = map fi_time (srt fs)"
    "map ch_rule (so_chapters (build_story srt now fs ss)) = map fi_rule (srt fs)"
    unfolding c by (simp_all add: comp_def case_prod_beta' make_chapter_def Let_def snd_enum)
  show "map ch_index (so_chapters (build_story srt now fs ss)) = map int [1..<Suc (length fs)]"
    unfolding c using fst_enum [of 0 "srt fs"] by (simp add: comp_def case_prod_beta' make_chapter_def Let_def)
qed

end

text \<open>The order of the findings, as the order on their keys.\<close>

datatype fkey = FKey gotime u64

fun fkey_of :: "finding \<Rightarrow> fkey" where
  "fkey_of f = FKey (fi_time f) (fi_frame_no f)"

instantiation fkey :: linorder
begin

fun less_fkey :: "fkey \<Rightarrow> fkey \<Rightarrow> bool" where
  "less_fkey (FKey t n) (FKey s m) = (if t = s then n < m else t < s)"

definition less_eq_fkey :: "fkey \<Rightarrow> fkey \<Rightarrow> bool" where
  "less_eq_fkey x y = (x < y \<or> x = y)"

instance
proof
  fix x y z :: fkey
  show "(x < y) = (x \<le> y \<and> \<not> y \<le> x)"
    by (cases x; cases y) (auto simp: less_eq_fkey_def split: if_splits)
  show "x \<le> x" by (simp add: less_eq_fkey_def)
  show "x \<le> y \<Longrightarrow> y \<le> z \<Longrightarrow> x \<le> z"
    by (cases x; cases y; cases z) (auto simp: less_eq_fkey_def split: if_splits)
  show "x \<le> y \<Longrightarrow> y \<le> x \<Longrightarrow> x = y"
    by (cases x; cases y) (auto simp: less_eq_fkey_def split: if_splits)
  show "x \<le> y \<or> y \<le> x"
    by (cases x; cases y) (auto simp: less_eq_fkey_def split: if_splits)
qed

end

lemma finding_before_key: "finding_before a b \<longleftrightarrow> fkey_of a < fkey_of b"
  by (simp add: finding_before_def)

interpretation key_sort: slice_sort "sort_key fkey_of"
proof
  fix fs
  have "sorted_wrt (\<lambda>a b. fkey_of a \<le> fkey_of b) (sort_key fkey_of fs)"
    using sorted_sort_key [of fkey_of fs] by (simp add: sorted_map)
  then show "sorted_wrt (\<lambda>a b. \<not> finding_before b a) (sort_key fkey_of fs)"
    unfolding finding_before_key not_less .
qed simp

section \<open>Rules and sessions\<close>

lemma unique_rules_fold:
  "distinct out \<Longrightarrow>
   (let r = snd (fold (\<lambda>f (seen, out). if fi_rule f \<in> seen then (seen, out)
        else (insert (fi_rule f) seen, out @ [fi_rule f])) fs (set out, out)) in
    distinct r \<and> set r = set out \<union> fi_rule ` set fs)"
proof (induction fs arbitrary: out)
  case (Cons f fs)
  then show ?case
    using Cons.IH [of out] Cons.IH [of "out @ [fi_rule f]"] by (auto simp: Let_def)
qed simp

lemma unique_rules: "distinct (unique_rules fs)" "set (unique_rules fs) = fi_rule ` set fs"
  using unique_rules_fold [of "[]" fs] by (simp_all add: unique_rules_def Let_def)

text \<open>An address has no bar, so the keys of pairs and of single addresses do not meet.\<close>

definition bare :: "string \<Rightarrow> bool" where
  "bare a = (CHR ''|'' \<notin> set a)"

lemma bare_pair:
  "bare a \<Longrightarrow> bare c \<Longrightarrow> a @ ''|'' @ b = c @ ''|'' @ d \<longleftrightarrow> a = c \<and> b = d"
  "bare c \<Longrightarrow> a @ ''|'' @ b \<noteq> c"
proof -
  have t: "takeWhile (\<lambda>x. x \<noteq> CHR ''|'') (a @ ''|'' @ b) = a" if "bare a" for a b
    using that by (induction a) (auto simp: bare_def)
  show "bare a \<Longrightarrow> bare c \<Longrightarrow> a @ ''|'' @ b = c @ ''|'' @ d \<longleftrightarrow> a = c \<and> b = d"
    using t [of a b] t [of c d] by auto
  show "bare c \<Longrightarrow> a @ ''|'' @ b \<noteq> c" unfolding bare_def by auto
qed

definition between :: "string \<Rightarrow> string \<Rightarrow> session \<Rightarrow> bool" where
  "between a b s = (s_src s = a \<and> s_dst s = b \<or> s_src s = b \<and> s_dst s = a)"

definition bare_sessions :: "session option list \<Rightarrow> bool" where
  "bare_sessions ss = (\<forall>s. Some s \<in> set ss \<longrightarrow> bare (s_src s) \<and> bare (s_dst s))"

lemma index_session_pair:
  assumes "bare a" "bare b" "bare (s_src s)" "bare (s_dst s)"
  shows "index_session (Some s) ix (a @ ''|'' @ b) =
    (if between a b s then Some (s_key s) else ix (a @ ''|'' @ b))"
proof -
  note e = bare_pair(1) [OF assms(1,3), of b "s_dst s"] bare_pair(1) [OF assms(1,4), of b "s_src s"]
    bare_pair(2) [OF assms(3), of a b] bare_pair(2) [OF assms(4), of a b]
  show ?thesis
    unfolding index_session_def option.case fun_upd_apply between_def
    by (simp only: e if_False) (auto simp only: split: if_split)
qed

lemma index_sessions_pair:
  assumes "bare a" "bare b" "bare_sessions ss"
  shows "index_sessions ss (a @ ''|'' @ b) =
    map_option s_key (find (between a b) (rev (map the (filter (\<lambda>s. s \<noteq> None) ss))))"
  using assms(3)
proof (induction ss rule: rev_induct)
  case (snoc s ss)
  have IH: "index_sessions ss (a @ ''|'' @ b) =
      map_option s_key (find (between a b) (rev (map the (filter (\<lambda>s. s \<noteq> None) ss))))"
    using snoc by (simp add: bare_sessions_def)
  have step: "index_sessions (ss @ [s]) = index_session s (index_sessions ss)"
    by (simp add: index_sessions_def)
  show ?case
  proof (cases s)
    case None
    with IH step show ?thesis by (simp add: index_session_def)
  next
    case (Some x)
    have "bare (s_src x)" "bare (s_dst x)" using snoc.prems Some by (simp_all add: bare_sessions_def)
    from index_session_pair [OF assms(1,2) this, of "index_sessions ss"] IH Some step
    show ?thesis by simp
  qed
qed (simp add: index_sessions_def)

section \<open>Properties\<close>

text \<open>C6: however \<open>sort.Slice\<close> orders equal findings, the chapters of a story are its findings,
  each once, in the order of their times and numbered from 1; the rules of the summary are
  those of the findings, each once.\<close>

theorem story_chapters:
  assumes "slice_sort srt"
  shows "map ch_index (so_chapters (build_story srt now fs ss)) = map int [1..<Suc (length fs)] \<and>
    mset (map ch_frame_no (so_chapters (build_story srt now fs ss))) = mset (map fi_frame_no fs) \<and>
    sorted (map ch_time (so_chapters (build_story srt now fs ss))) \<and>
    so_findings (build_story srt now fs ss) = int (length fs) \<and>
    distinct (unique_rules (srt fs)) \<and> set (unique_rules (srt fs)) = fi_rule ` set fs"
proof -
  note c = slice_sort.chapters_of_findings [OF assms, of now fs ss]
  have m: "mset (srt fs) = mset fs" and o: "sorted_wrt (\<lambda>a b. \<not> finding_before b a) (srt fs)"
    using assms by (simp_all add: slice_sort_def)
  have "sorted (map fi_time (srt fs))"
    using sorted_wrt_mono_rel [OF _ o, of "\<lambda>a b. fi_time a \<le> fi_time b"]
    by (auto simp: sorted_wrt_map finding_before_def split: if_splits)
  moreover have "mset (map fi_frame_no (srt fs)) = mset (map fi_frame_no fs)" using m by simp
  moreover have "length (srt fs) = length fs" "set (srt fs) = set fs"
    using m by (metis size_mset, metis set_mset_mset)
  moreover have n: "so_findings (build_story srt now fs ss) = int (length (srt fs))"
    by (simp add: build_story_def Let_def split: prod.split)
  ultimately show ?thesis
    using unique_rules [of "srt fs"] by (simp add: c n del: mset_map upt_Suc)
qed

lemma story_chapters_witness:
  "map ch_index (so_chapters (build_story (sort_key fkey_of) 0
       [report (blank_frame 2 9 0 0 []) ''warn'' ''weak_tls'' ''m'',
        report (blank_frame 1 5 0 0 []) ''warn'' ''weak_tls'' ''m''] [])) = [1, 2] \<and>
   sorted (map ch_time (so_chapters (build_story (sort_key fkey_of) 0
       [report (blank_frame 2 9 0 0 []) ''warn'' ''weak_tls'' ''m'',
        report (blank_frame 1 5 0 0 []) ''warn'' ''weak_tls'' ''m''] [])))"
  using story_chapters [OF key_sort.slice_sort_axioms, of 0
      "[report (blank_frame 2 9 0 0 []) ''warn'' ''weak_tls'' ''m'',
        report (blank_frame 1 5 0 0 []) ''warn'' ''weak_tls'' ''m'']" "[]"] by (simp add: upt_rec)

lemma find_append:
  "find P (xs @ ys) = (case find P xs of None \<Rightarrow> find P ys | Some x \<Rightarrow> Some x)"
  by (induction xs) auto

text \<open>A chapter about two hosts is linked to the last session between them, in either direction,
  if there is one and no address contains a bar.\<close>

theorem story_session_link:
  assumes "bare_sessions ss" "bare (fi_src f)" "bare (fi_dst f)"
    and "Some s \<in> set ss" "between (fi_src f) (fi_dst f) s"
  shows "\<exists>us x vs. ss = us @ Some x # vs \<and> between (fi_src f) (fi_dst f) x \<and>
    (\<forall>y. Some y \<in> set vs \<longrightarrow> \<not> between (fi_src f) (fi_dst f) y) \<and>
    ch_session_key (make_chapter (index_sessions ss) i f) = s_key x"
proof -
  let ?P = "\<lambda>z. \<exists>y. z = Some y \<and> between (fi_src f) (fi_dst f) y"
  obtain us x vs where ss: "ss = us @ Some x # vs" "between (fi_src f) (fi_dst f) x" "\<forall>z \<in> set vs. \<not> ?P z"
    using split_list_last_prop [of ss ?P] assms(4,5) by blast
  have "find (between (fi_src f) (fi_dst f)) (rev (map the (filter (\<lambda>s. s \<noteq> None) vs))) = None"
    using ss(3) by (auto simp: find_None_iff)
  then have "find (between (fi_src f) (fi_dst f)) (rev (map the (filter (\<lambda>s. s \<noteq> None) ss))) = Some x"
    using ss(2) unfolding ss(1) by (simp add: find_append)
  then have "index_sessions ss (fi_src f @ ''|'' @ fi_dst f) = Some (s_key x)"
    unfolding index_sessions_pair [OF assms(2,3,1)] by simp
  then have "ch_session_key (make_chapter (index_sessions ss) i f) = s_key x"
    by (simp add: make_chapter_def match_session_def Let_def)
  moreover have "\<forall>y. Some y \<in> set vs \<longrightarrow> \<not> between (fi_src f) (fi_dst f) y" using ss(3) by simp
  ultimately show ?thesis
    using ss(1,2) by (intro exI [of _ us] exI [of _ x] exI [of _ vs] conjI)
qed

lemma story_session_link_witness:
  "ch_session_key (make_chapter
     (index_sessions [Some ((new_session (blank_frame 1 0 0 0 []))\<lparr>s_key := ''k'', s_src := ''b'', s_dst := ''a''\<rparr>)])
     0 ((report (blank_frame 1 0 0 0 []) [] [] [])\<lparr>fi_src := ''a'', fi_dst := ''b''\<rparr>)) = ''k''"
proof -
  let ?s = "(new_session (blank_frame 1 0 0 0 []))\<lparr>s_key := ''k'', s_src := ''b'', s_dst := ''a''\<rparr>"
  let ?f = "(report (blank_frame 1 0 0 0 []) [] [] [])\<lparr>fi_src := ''a'', fi_dst := ''b''\<rparr>"
  have "\<exists>us x vs. [Some ?s] = us @ Some x # vs \<and> between (fi_src ?f) (fi_dst ?f) x \<and>
    (\<forall>y. Some y \<in> set vs \<longrightarrow> \<not> between (fi_src ?f) (fi_dst ?f) y) \<and>
    ch_session_key (make_chapter (index_sessions [Some ?s]) 0 ?f) = s_key x"
    by (rule story_session_link [of _ _ ?s]) (simp_all add: bare_sessions_def bare_def between_def)
  then show ?thesis by (auto simp: Cons_eq_append_conv)
qed

end
