(* ===== verification/DisplayFilter.thy ===== *)
theory DisplayFilter
  imports Frame
begin

text \<open>
  \<open>internal/filter/filter.go\<close>: the display filter, a recursive evaluator over the text of the
  expression. A slice expression out of range, which the evaluator can reach on expressions
  whose lower-case form has another length, is \<open>None\<close>. What the code takes from Unicode's
  tables and from \<open>strconv.ParseFloat\<close> is the record \<open>tables\<close>; the model fixes ASCII letters
  and decimal numbers of up to 15 digits, which \<open>ParseFloat\<close> reads exactly. The lemmas: the
  evaluator terminates; it never panics on ASCII; it computes the meaning of every expression
  written with parentheses.
\<close>

section \<open>Library functions\<close>

text \<open>A \<open>float64\<close>: \<open>Fin m e\<close> is \<open>m * 2 ^ e\<close>.\<close>

datatype float64 = NaN | NegInf | Fin int int | PosInf

fun f64_scaled :: "(int \<Rightarrow> int \<Rightarrow> bool) \<Rightarrow> int \<Rightarrow> int \<Rightarrow> int \<Rightarrow> int \<Rightarrow> bool" where
  "f64_scaled r m e n d = r (m * 2 ^ nat (e - min e d)) (n * 2 ^ nat (d - min e d))"

fun f64_less :: "float64 \<Rightarrow> float64 \<Rightarrow> bool" where
  "f64_less (Fin m e) (Fin n d) = f64_scaled (<) m e n d"
| "f64_less NegInf y = (y \<noteq> NaN \<and> y \<noteq> NegInf)"
| "f64_less (Fin m e) y = (y = PosInf)"
| "f64_less _ _ = False"

fun f64_eq :: "float64 \<Rightarrow> float64 \<Rightarrow> bool" where
  "f64_eq (Fin m e) (Fin n d) = f64_scaled (=) m e n d"
| "f64_eq x y = (x = y \<and> x \<noteq> NaN)"

definition f64_le :: "float64 \<Rightarrow> float64 \<Rightarrow> bool" where
  "f64_le x y = (f64_less x y \<or> f64_eq x y)"

record tables =
  tab_lower :: "nat \<Rightarrow> nat"
  tab_upper :: "nat \<Rightarrow> nat"
  tab_fold :: "nat \<Rightarrow> nat \<Rightarrow> bool"
  tab_float :: "string \<Rightarrow> float64 option"
  tab_iter :: "fields \<Rightarrow> fields"

abbreviation lower :: "tables \<Rightarrow> string \<Rightarrow> string" where
  "lower t \<equiv> to_lower (tab_lower t)"

definition upper_rune :: "(nat \<Rightarrow> nat) \<Rightarrow> nat \<Rightarrow> nat" where
  "upper_rune uu r = (if in_range 97 122 r then r - 32 else if r < 0x80 then r else uu r)"

definition to_upper :: "(nat \<Rightarrow> nat) \<Rightarrow> string \<Rightarrow> string" where
  "to_upper uu s = concat (map (\<lambda>r. encode_rune (upper_rune uu r)) (runes s))"

definition fold_rune :: "(nat \<Rightarrow> nat \<Rightarrow> bool) \<Rightarrow> nat \<Rightarrow> nat \<Rightarrow> bool" where
  "fold_rune fd a b =
     (a = b \<or>
      (let sr = min a b; tr = max a b in
       if tr < 0x80 then in_range 65 90 sr \<and> tr = sr + 32 else fd sr tr))"

definition equal_fold :: "tables \<Rightarrow> string \<Rightarrow> string \<Rightarrow> bool" where
  "equal_fold t a b = list_all2 (fold_rune (tab_fold t)) (runes a) (runes b)"

definition parse_float :: "tables \<Rightarrow> string \<Rightarrow> float64 option" where
  "parse_float t s =
     (if s \<noteq> [] \<and> length s \<le> 15 \<and> set s \<subseteq> set ''0123456789'' then Some (Fin (int (undec s)) 0)
      else tab_float t s)"

definition trim_set :: "char list \<Rightarrow> string \<Rightarrow> string" where
  "trim_set cs s = rev (dropWhile (\<lambda>c. c \<in> set cs) (rev (dropWhile (\<lambda>c. c \<in> set cs) s)))"

text \<open>\<open>strings.FieldsFunc\<close> for a predicate that holds of ASCII characters only.\<close>

fun fields_from :: "(char \<Rightarrow> bool) \<Rightarrow> string \<Rightarrow> string \<Rightarrow> string list" where
  "fields_from p cur [] = (if cur = [] then [] else [cur])"
| "fields_from p cur (c # s) =
     (if p c then (if cur = [] then fields_from p [] s else cur # fields_from p [] s)
      else fields_from p (cur @ [c]) s)"

definition fields_func :: "(char \<Rightarrow> bool) \<Rightarrow> string \<Rightarrow> string list" where
  "fields_func p s = fields_from p [] s"

section \<open>Fields of a frame\<close>

definition proto_aliases :: "(string \<times> string) list" where
  "proto_aliases =
     [(''ip'', ''IPv4''), (''ipv4'', ''IPv4''), (''ipv6'', ''IPv6''), (''http2'', ''HTTP/2''), (''h2'', ''HTTP/2'')]"

definition has_protocol :: "tables \<Rightarrow> frame \<Rightarrow> string \<Rightarrow> bool" where
  "has_protocol t f name =
     (let name = lower t name in
      if lower t (f_protocol f) = name then True
      else if list_ex (\<lambda>l. lower t (l_name l) = name \<or> lower t (l_name l) = to_upper (tab_upper t) name
                         \<or> equal_fold t (l_name l) name) (f_layers f) then True
      else case map_of proto_aliases name of
             Some a \<Rightarrow> list_ex (\<lambda>l. l_name l = a) (f_layers f)
           | None \<Rightarrow> False)"

definition match_meta_key :: "frame \<Rightarrow> string \<Rightarrow> bool" where
  "match_meta_key f key = (f_meta f key \<noteq> None)"

fun search_layers :: "tables \<Rightarrow> string \<Rightarrow> layer list \<Rightarrow> string option" where
  "search_layers t field [] = None"
| "search_layers t field (l # ls) =
     (case find (\<lambda>(k, v). equal_fold t k field \<or> equal_fold t (l_name l @ ''.'' @ k) field)
             (tab_iter t (l_fields l)) of
        Some (k, v) \<Rightarrow> Some v
      | None \<Rightarrow> search_layers t field ls)"

definition port_fields :: "string list" where
  "port_fields = [''tcp.port'', ''udp.port'', ''port'']"

definition resolve_rest :: "tables \<Rightarrow> frame \<Rightarrow> string \<Rightarrow> string" where
  "resolve_rest t f field =
     (case f_meta f field of
        Some v \<Rightarrow> v
      | None \<Rightarrow> (case search_layers t field (f_layers f) of
          Some v \<Rightarrow> v
        | None \<Rightarrow> if field \<in> set port_fields
            then gget (f_meta f) ''sport'' @ ''|'' @ gget (f_meta f) ''dport'' else []))"

definition resolve :: "tables \<Rightarrow> frame \<Rightarrow> string \<Rightarrow> string" where
  "resolve t f field =
     (let m = gget (f_meta f) in
      if field \<in> set [''frame.len'', ''len'', ''length''] then dec (f_length f)
      else if field \<in> set [''frame.number'', ''no''] then dec (unat (f_no f))
      else if field \<in> set [''ip.src'', ''src''] then (if m ''ip_src'' \<noteq> [] then m ''ip_src'' else f_src f)
      else if field \<in> set [''ip.dst'', ''dst''] then (if m ''ip_dst'' \<noteq> [] then m ''ip_dst'' else f_dst f)
      else if field \<in> set port_fields then m ''sport'' @ '','' @ m ''dport''
      else if field \<in> set [''tcp.srcport'', ''udp.srcport'', ''sport''] then m ''sport''
      else if field \<in> set [''tcp.dstport'', ''udp.dstport'', ''dport''] then m ''dport''
      else if field \<in> set [''dns.qry.name'', ''dns.qry''] then m ''dns_qry''
      else if field = ''http.host'' then m ''http_host''
      else if field \<in> set [''http.request.method'', ''http.method''] then m ''http_method''
      else if field \<in> set [''tls.sni'', ''sni''] then m ''sni''
      else if field \<in> set [''tls.ja3'', ''ja3''] then m ''ja3''
      else if field \<in> set [''protocol'', ''proto''] then f_protocol f
      else if field = ''info'' then f_info f
      else resolve_rest t f field)"

definition to_float :: "tables \<Rightarrow> string \<Rightarrow> float64 option" where
  "to_float t s = parse_float t (takeWhile (\<lambda>c. c \<notin> set '',|'') s)"

definition port_list :: "string \<Rightarrow> string list" where
  "port_list got = fields_func (\<lambda>r. r = CHR '','' \<or> r = CHR ''|'') got"

definition compare_num :: "tables \<Rightarrow> string \<Rightarrow> string \<Rightarrow> string \<Rightarrow> bool" where
  "compare_num t got op value =
     (case (to_float t got, to_float t value) of
        (Some g, Some v) \<Rightarrow>
          if op = ''>'' then f64_less v g
          else if op = ''>='' then f64_le v g
          else if op = ''<'' then f64_less g v
          else if op = ''<='' then f64_le g v
          else False
      | _ \<Rightarrow> False)"

definition compare :: "tables \<Rightarrow> frame \<Rightarrow> string \<Rightarrow> string \<Rightarrow> string \<Rightarrow> bool" where
  "compare t f field op value =
     (let field = lower t field; got = resolve t f field; lop = lower t op in
      if lop = ''contains'' then contains_sub (lower t got) (lower t value)
      else if lop \<in> set [''=='', ''=''] then
        (if field \<in> set port_fields \<and> value \<in> set (port_list got) then True
         else equal_fold t got value \<or> got = value)
      else if lop = ''!='' then
        (if field \<in> set port_fields then value \<notin> set (port_list got)
         else \<not> equal_fold t got value \<and> got \<noteq> value)
      else if lop \<in> set [''>'', ''>='', ''<'', ''<=''] then compare_num t got op value
      else False)"

section \<open>The evaluator\<close>

text \<open>\<open>splitTop\<close>: the parts of \<open>s\<close> between the separators outside parentheses. An empty separator,
  which no caller passes, would not end the loop.\<close>

definition sep_here :: "string \<Rightarrow> string \<Rightarrow> string \<Rightarrow> nat \<Rightarrow> int \<Rightarrow> bool option" where
  "sep_here s low sep i depth =
     (if depth = 0 \<and> i + length sep \<le> length s
      then do { x \<leftarrow> slice low i (i + length sep); Some (x = sep) } else Some False)"

function split_from ::
  "string \<Rightarrow> string \<Rightarrow> string \<Rightarrow> nat \<Rightarrow> int \<Rightarrow> nat \<Rightarrow> string list \<Rightarrow> string list option" where
  "split_from s low sep i depth start parts =
     (if i < length s \<and> sep \<noteq> [] then
        let c = s ! i in
        if c = CHR ''('' then split_from s low sep (i + 1) (depth + 1) start parts
        else if c = CHR '')'' then split_from s low sep (i + 1) (depth - 1) start parts
        else (case sep_here s low sep i depth of
            None \<Rightarrow> None
          | Some True \<Rightarrow> do {
              p \<leftarrow> slice s start i;
              split_from s low sep (i + length sep) depth (i + length sep) (parts @ [p])
            }
          | Some False \<Rightarrow> split_from s low sep (i + 1) depth start parts)
      else do {
        p \<leftarrow> slice s start (length s);
        Some (parts @ [p])
      })"
  by pat_completeness auto
termination
  by (relation "measure (\<lambda>(s, low, sep, i, _). length s - i)") (auto simp: diff_less_mono2)

declare split_from.simps [simp del]

definition split_top :: "tables \<Rightarrow> string \<Rightarrow> string \<Rightarrow> string list option" where
  "split_top t s sep = split_from s (lower t s) (lower t sep) 0 0 0 []"

text \<open>The two spellings of an operator: the second is tried when the first does not split.\<close>

definition split_either :: "tables \<Rightarrow> string \<Rightarrow> string \<Rightarrow> string \<Rightarrow> string list option" where
  "split_either t s a b = do {
     parts \<leftarrow> split_top t s a;
     if length parts = 1 then split_top t s b else Some parts
   }"

definition filter_ops :: "string list" where
  "filter_ops = ['' contains '', '' == '', ''!='', ''>='', ''<='', ''>'', ''<'', ''='']"

definition index_fold :: "tables \<Rightarrow> string \<Rightarrow> string \<Rightarrow> nat option" where
  "index_fold t s sep = find_sub (lower t sep) (lower t s)"

fun eval_ops :: "tables \<Rightarrow> frame \<Rightarrow> string \<Rightarrow> string list \<Rightarrow> bool option" where
  "eval_ops t f e [] = Some (has_protocol t f (lower t e))"
| "eval_ops t f e (op # ops) =
     (let op = trim_space op in
      case find_sub op (lower t e) of
        None \<Rightarrow> eval_ops t f e ops
      | Some _ \<Rightarrow>
          (case index_fold t e op of
             None \<Rightarrow> eval_ops t f e ops
           | Some i \<Rightarrow> do {
               left \<leftarrow> slice e 0 i;
               right \<leftarrow> slice e (i + length op) (length e);
               Some (compare t f (trim_space left) op
                 (trim_set [CHR 0x22, CHR 0x27] (trim_space right)))
             }))"

definition eval_leaf :: "tables \<Rightarrow> frame \<Rightarrow> string \<Rightarrow> bool option" where
  "eval_leaf t f e =
     (if \<not> list_ex (\<lambda>c. c \<in> set ''=<>'') e \<and> \<not> contains_sub (lower t e) '' contains ''
      then Some (has_protocol t f (lower t e) \<or> match_meta_key f (lower t e))
      else eval_ops t f e filter_ops)"

text \<open>The loops of \<open>evalOr\<close> and \<open>evalAnd\<close>, which stop at the first part that decides.\<close>

fun any_part :: "('a \<Rightarrow> bool option) \<Rightarrow> 'a list \<Rightarrow> bool option" where
  "any_part g [] = Some False"
| "any_part g (p # ps) = do { b \<leftarrow> g p; if b then Some True else any_part g ps }"

fun all_parts :: "('a \<Rightarrow> bool option) \<Rightarrow> 'a list \<Rightarrow> bool option" where
  "all_parts g [] = Some True"
| "all_parts g (p # ps) = do { b \<leftarrow> g p; if \<not> b then Some False else all_parts g ps }"

lemma any_part_cong [fundef_cong]:
  "ps = qs \<Longrightarrow> (\<And>p. p \<in> set qs \<Longrightarrow> g p = h p) \<Longrightarrow> any_part g ps = any_part h qs"
proof (induction qs arbitrary: ps)
  case (Cons q qs)
  then show ?case by (auto intro!: Option.bind_cong)
qed simp

lemma all_parts_cong [fundef_cong]:
  "ps = qs \<Longrightarrow> (\<And>p. p \<in> set qs \<Longrightarrow> g p = h p) \<Longrightarrow> all_parts g ps = all_parts h qs"
proof (induction qs arbitrary: ps)
  case (Cons q qs)
  then show ?case by (auto intro!: Option.bind_cong)
qed simp

lemma split_from_parts:
  "split_from s low sep i depth start parts = Some ps \<Longrightarrow> \<forall>p \<in> set parts. length p \<le> length s \<Longrightarrow>
   \<forall>p \<in> set ps. length p \<le> length s"
proof (induction s low sep i depth start parts rule: split_from.induct)
  case (1 s low sep i depth start parts)
  have sl: "length p \<le> length s" if "slice s a b = Some p" for a b p
    using slice_eq_SomeD [OF that] by simp
  note e = "1.prems"(1) [unfolded split_from.simps [of s low sep i]]
  show ?case
  proof (cases "i < length s \<and> sep \<noteq> []")
    case False
    with e sl "1.prems"(2) show ?thesis by (auto simp: bind_eq_Some_conv)
  next
    case i: True
    consider "s ! i = CHR ''(''" | "s ! i = CHR '')''" |
      (hit) "s ! i \<noteq> CHR ''(''" "s ! i \<noteq> CHR '')''" "sep_here s low sep i depth = Some True" |
      (no) "s ! i \<noteq> CHR ''(''" "s ! i \<noteq> CHR '')''" "sep_here s low sep i depth = Some False"
      using e i by (fastforce simp: Let_def split: if_splits option.splits)
    then show ?thesis
    proof cases
      case hit
      with e i obtain p where p: "slice s start i = Some p"
        "split_from s low sep (i + length sep) depth (i + length sep) (parts @ [p]) = Some ps"
        by (auto simp: bind_eq_Some_conv)
      with "1.IH"(3) [OF i refl hit(1,2,3) refl p] sl [OF p(1)] "1.prems"(2) show ?thesis by simp
    next
      case no
      with "1.IH"(4) [OF i refl no(1,2,3)] e i "1.prems"(2) show ?thesis by simp
    qed (use "1.IH"(1,2) e i "1.prems"(2) in simp_all)
  qed
qed

lemma split_either_parts: "split_either t s a b = Some ps \<Longrightarrow> p \<in> set ps \<Longrightarrow> length p \<le> length s"
  by (auto simp: split_either_def split_top_def bind_eq_Some_conv dest: split_from_parts split: if_splits)

function eval_or :: "tables \<Rightarrow> frame \<Rightarrow> string \<Rightarrow> bool option"
  and eval_and :: "tables \<Rightarrow> frame \<Rightarrow> string \<Rightarrow> bool option"
  and eval_not :: "tables \<Rightarrow> frame \<Rightarrow> string \<Rightarrow> bool option"
  and eval_atom :: "tables \<Rightarrow> frame \<Rightarrow> string \<Rightarrow> bool option" where
  "eval_or t f e = do {
     parts \<leftarrow> split_either t e '' or '' '' || '';
     any_part (\<lambda>p. eval_and t f (trim_space p)) parts
   }"
| "eval_and t f e = do {
     parts \<leftarrow> split_either t e '' and '' '' && '';
     all_parts (\<lambda>p. eval_not t f (trim_space p)) parts
   }"
| "eval_not t f e =
     (if has_prefix (lower t e) ''not '' then do {
        r \<leftarrow> slice e 4 (length e);
        b \<leftarrow> eval_atom t f (trim_space r);
        Some (\<not> b)
      }
      else if has_prefix e ''!'' then do {
        r \<leftarrow> slice e 1 (length e);
        b \<leftarrow> eval_atom t f (trim_space r);
        Some (\<not> b)
      }
      else eval_atom t f e)"
| "eval_atom t f e =
     (let e = trim_space e in
      if has_prefix e ''('' \<and> has_suffix e '')'' then do {
        r \<leftarrow> slice e 1 (length e - 1);
        eval_or t f r
      }
      else eval_leaf t f e)"
  by pat_completeness auto
termination
proof (relation "measures [\<lambda>x. case x of Inl (Inl (t, f, e)) \<Rightarrow> length e | Inl (Inr (t, f, e)) \<Rightarrow> length e
    | Inr (Inl (t, f, e)) \<Rightarrow> length e | Inr (Inr (t, f, e)) \<Rightarrow> length e,
    \<lambda>x. case x of Inl (Inl _) \<Rightarrow> 3 | Inl (Inr _) \<Rightarrow> 2 | Inr (Inl _) \<Rightarrow> 1 | Inr (Inr _) \<Rightarrow> 0]",
    goal_cases)
  case (2 t f e parts p)
  then show ?case using split_either_parts [of t e] length_trim_space [of p] by fastforce
next
  case (3 t f e parts p)
  then show ?case using split_either_parts [of t e] length_trim_space [of p] by fastforce
next
  case (4 t f e r)
  then show ?case using length_trim_space [of r] slice_eq_SomeD [of e] by fastforce
next
  case (5 t f e r)
  then show ?case using length_trim_space [of r] slice_eq_SomeD [of e] by fastforce
next
  case (7 t f e e' r)
  then have "e' \<noteq> []" by (auto simp: has_prefix_simps)
  moreover have "length r = length e' - 1 - 1" using slice_eq_SomeD 7 by blast
  ultimately have "length r < length e'" by (cases e') auto
  then show ?case using 7 length_trim_space [of e] by auto
qed auto

declare eval_or.simps [simp del] eval_and.simps [simp del] eval_not.simps [simp del]
  eval_atom.simps [simp del]

definition filter_match :: "tables \<Rightarrow> frame \<Rightarrow> string \<Rightarrow> bool option" where
  "filter_match t f e = (let e = trim_space e in if e = [] then Some True else eval_or t f e)"

section \<open>ASCII strings\<close>

lemma ascii_subset: "set a \<subseteq> set b \<Longrightarrow> ascii b \<Longrightarrow> ascii a"
  by (auto simp: ascii_def list_all_iff)

lemma set_drop_any: "set (drop_any es s) \<subseteq> set s"
  by (induction es) (auto dest: in_set_dropD)

lemma set_trim_by: "set (trim_by es s) \<subseteq> set s"
proof (induction es s rule: trim_by.induct)
  case (1 es s)
  then show ?case using set_drop_any [of es s] by (subst trim_by.simps) (auto simp: Let_def)
qed

lemma set_trim_space: "set (trim_space s) \<subseteq> set s"
  using set_trim_by [of space_encodings s]
    set_trim_by [of "map rev space_encodings" "rev (trim_by space_encodings s)"]
  by (auto simp: trim_space_def)

lemma ascii_trim [simp]: "ascii s \<Longrightarrow> ascii (trim_space s)"
  by (rule ascii_subset [OF set_trim_space])

lemma ascii_slice: "ascii s \<Longrightarrow> slice s a b = Some p \<Longrightarrow> ascii p"
  by (rule ascii_subset [of p s]) (auto simp: slice_def dest: in_set_takeD in_set_dropD split: if_splits)

text \<open>A string that begins and ends with characters no white space begins or ends with.\<close>

definition solid :: "char \<Rightarrow> bool" where
  "solid c = list_all (\<lambda>e. hd e \<noteq> c \<and> last e \<noteq> c) space_encodings"

lemma trim_by_solid: "list_all (\<lambda>e. e \<noteq> [] \<and> hd e \<noteq> c) es \<Longrightarrow> trim_by es (c # s) = c # s"
proof -
  assume "list_all (\<lambda>e. e \<noteq> [] \<and> hd e \<noteq> c) es"
  then have "drop_any es (c # s) = c # s"
  proof (induction es)
    case (Cons e es)
    then show ?case by (cases e) (auto simp: has_prefix_simps)
  qed simp
  then show ?thesis by (subst trim_by.simps) simp
qed

lemma trim_space_solid:
  assumes "s \<noteq> []" "solid (hd s)" "solid (last s)"
  shows "trim_space s = s"
proof -
  have ne: "list_all (\<lambda>e. e \<noteq> []) space_encodings" by (simp add: space_encodings_def)
  obtain c r where s: "s = c # r" using assms(1) by (cases s) auto
  have "trim_by space_encodings s = s"
    unfolding s using ne assms(2) by (intro trim_by_solid) (simp add: s solid_def list_all_iff)
  moreover obtain d q where d: "s = q @ [d]" using assms(1) by (cases s rule: rev_cases) auto
  moreover have "trim_by (map rev space_encodings) (rev s) = rev s"
    unfolding d using ne assms(3)
    by (simp add: d, intro trim_by_solid) (auto simp: solid_def list_all_iff hd_rev)
  ultimately show ?thesis by (simp add: trim_space_def)
qed

lemma solid_simps: "solid CHR ''('' " "solid CHR '')''" "solid CHR ''n''"
  by (simp_all add: solid_def space_encodings_def)

section \<open>Splitting on ASCII\<close>

text \<open>On ASCII the split is a function of what is left of the string.\<close>

function sp :: "string \<Rightarrow> string \<Rightarrow> int \<Rightarrow> string \<Rightarrow> string list" where
  "sp sep [] d cur = [cur]"
| "sp sep (c # r) d cur =
     (if c = CHR ''('' then sp sep r (d + 1) (cur @ [c])
      else if c = CHR '')'' then sp sep r (d - 1) (cur @ [c])
      else if d = 0 \<and> has_prefix (map lower_char (c # r)) sep
           then cur # sp sep (drop (length sep - 1) r) d []
      else sp sep r d (cur @ [c]))"
  by pat_completeness auto
termination
  by (relation "measure (\<lambda>(sep, s, d, cur). length s)") auto

lemma sep_here_ascii:
  "i < length s \<Longrightarrow> sep_here s (map lower_char s) sep i d =
   Some (d = 0 \<and> has_prefix (map lower_char (drop i s)) sep)"
  by (auto simp: sep_here_def slice_def has_prefix_def drop_map take_map dest: arg_cong [where f = length])

lemma split_from_sp:
  assumes "start \<le> i" "i \<le> length s" "sep \<noteq> []"
  shows "split_from s (map lower_char s) sep i d start parts =
    Some (parts @ sp sep (drop i s) d (take (i - start) (drop start s)))"
  using assms
proof (induction "length s - i" arbitrary: i d start parts rule: less_induct)
  case less
  show ?case
  proof (cases "i < length s")
    case False
    with less.prems show ?thesis
      by (subst split_from.simps) (simp add: slice_def)
  next
    case True
    let ?c = "s ! i" and ?r = "drop (Suc i) s"
    have d: "drop i s = ?c # ?r" using True by (simp add: Cons_nth_drop_Suc)
    have t: "take (Suc i - start) (drop start s) = take (i - start) (drop start s) @ [?c]"
      using True less.prems(1) by (simp add: Suc_diff_le take_Suc_conv_app_nth)
    have step: "split_from s (map lower_char s) sep (Suc i) e start parts =
        Some (parts @ sp sep ?r e (take (i - start) (drop start s) @ [?c]))" for e
      using less.hyps [of "Suc i" start e parts] True less.prems by (simp add: t)
    show ?thesis
    proof (cases "d = 0 \<and> has_prefix (map lower_char (drop i s)) sep \<and> ?c \<notin> {CHR ''('', CHR '')''}")
      case hit: True
      then have l: "i + length sep \<le> length s"
        using True unfolding has_prefix_def by (auto dest!: arg_cong [where f = length])
      have "length s - (i + length sep) < length s - i" using True less.prems(3) by (cases sep) auto
      from less.hyps [OF this, of "i + length sep" d "parts @ [take (i - start) (drop start s)]"]
      have h: "split_from s (map lower_char s) sep (i + length sep) d (i + length sep)
          (parts @ [take (i - start) (drop start s)]) =
          Some (parts @ take (i - start) (drop start s) # sp sep (drop (i + length sep) s) d [])"
        using l less.prems by simp
      have "drop (length sep - 1) ?r = drop (i + length sep) s"
        using less.prems(3) by (cases sep) (simp_all add: ac_simps)
      with h hit True less.prems show ?thesis
        by (subst split_from.simps) (simp add: sep_here_ascii d slice_def Let_def)
    next
      case False
      with True less.prems(3) step show ?thesis
        by (subst split_from.simps) (auto simp: sep_here_ascii d Let_def)
    qed
  qed
qed

lemma split_top_ascii:
  "ascii s \<Longrightarrow> ascii sep \<Longrightarrow> sep \<noteq> [] \<Longrightarrow> map lower_char sep = sep \<Longrightarrow>
   split_top t s sep = Some (sp sep s 0 [])"
  using split_from_sp [of 0 0 s sep 0 "[]"] by (simp add: split_top_def to_lower_ascii)

lemma sp_parts:
  "p \<in> set (sp sep s d cur) \<Longrightarrow> set p \<subseteq> set cur \<union> set s"
proof (induction sep s d cur rule: sp.induct)
  case (2 sep c r d cur)
  have "set (drop (length sep - 1) r) \<subseteq> set r" by (rule set_drop_subset)
  with 2 show ?case by (fastforce split: if_splits)
qed simp

text \<open>The four separators of the grammar.\<close>

definition seps :: "string list" where
  "seps = ['' or '', '' || '', '' and '', '' && '']"

lemma seps_ok: "sep \<in> set seps \<Longrightarrow> ascii sep \<and> sep \<noteq> [] \<and> map lower_char sep = sep"
  by (auto simp: seps_def lower_char_def in_range_def)

lemma split_top_seps: "ascii s \<Longrightarrow> sep \<in> set seps \<Longrightarrow> split_top t s sep = Some (sp sep s 0 [])"
  using seps_ok split_top_ascii by blast

lemma split_either_ascii:
  assumes "ascii s" "a \<in> set seps" "b \<in> set seps"
  shows "\<exists>ps. split_either t s a b = Some ps \<and> (\<forall>p \<in> set ps. ascii p)"
proof -
  have "ascii p" if "p \<in> set (sp sep s 0 [])" for p sep
    using sp_parts [OF that] by (auto intro: ascii_subset [OF _ assms(1)])
  with assms show ?thesis by (simp add: split_either_def split_top_seps)
qed

lemma any_part_total: "\<forall>p \<in> set ps. \<exists>b. g p = Some b \<Longrightarrow> \<exists>b. any_part g ps = Some b"
  by (induction ps) auto

lemma all_parts_total: "\<forall>p \<in> set ps. \<exists>b. g p = Some b \<Longrightarrow> \<exists>b. all_parts g ps = Some b"
  by (induction ps) auto

definition op_names :: "string list" where
  "op_names = [''contains'', ''=='', ''!='', ''>='', ''<='', ''>'', ''<'', ''='']"

lemma trim_ops: "map trim_space filter_ops = op_names"
  by (simp add: filter_ops_def op_names_def trim_space_def trim_by.simps space_encodings_def
      has_prefix_simps)

lemma op_names_ok: "op \<in> set op_names \<Longrightarrow> ascii op \<and> op \<noteq> [] \<and> map lower_char op = op"
  by (auto simp: op_names_def lower_char_def in_range_def)

lemma eval_ops_total:
  assumes "ascii e" "\<forall>op \<in> set ops. trim_space op \<in> set op_names"
  shows "\<exists>b. eval_ops t f e ops = Some b"
  using assms(2)
proof (induction ops)
  case (Cons op ops)
  let ?op = "trim_space op"
  have o: "lower t ?op = ?op" using Cons.prems op_names_ok [of ?op] by (simp add: to_lower_ascii)
  show ?case
  proof (cases "find_sub ?op (lower t e)")
    case None
    with Cons show ?thesis by simp
  next
    case (Some i)
    then have "i + length ?op \<le> length e"
      using find_sub_Some [OF Some] assms(1) by (auto simp: to_lower_ascii)
    with Some o show ?thesis by (simp add: index_fold_def slice_def Let_def)
  qed
qed simp

lemma eval_leaf_total: "ascii e \<Longrightarrow> \<exists>b. eval_leaf t f e = Some b"
proof -
  assume "ascii e"
  moreover have "\<forall>op \<in> set filter_ops. trim_space op \<in> set op_names"
    unfolding trim_ops [symmetric] by simp
  ultimately show ?thesis using eval_ops_total [of e filter_ops t f] by (simp add: eval_leaf_def)
qed

lemma has_prefix_length: "has_prefix s p \<Longrightarrow> length p \<le> length s"
  unfolding has_prefix_def by (metis length_take min.cobounded1 min_def)

lemma eval_total:
  "ascii e \<Longrightarrow> \<exists>b. eval_or t f e = Some b"
  "ascii e \<Longrightarrow> \<exists>b. eval_and t f e = Some b"
  "ascii e \<Longrightarrow> \<exists>b. eval_not t f e = Some b"
  "ascii e \<Longrightarrow> \<exists>b. eval_atom t f e = Some b"
proof (induction t f e and t f e and t f e and t f e rule: eval_or_eval_and_eval_not_eval_atom.induct)
  case (1 t f e)
  have "'' or '' \<in> set seps" "'' || '' \<in> set seps" by (simp_all add: seps_def)
  from split_either_ascii [OF "1.prems" this] obtain ps where
    ps: "split_either t e '' or '' '' || '' = Some ps" "\<forall>p \<in> set ps. ascii p" by blast
  have "\<exists>b. any_part (\<lambda>p. eval_and t f (trim_space p)) ps = Some b"
    using "1.IH" [OF ps(1)] ps(2) by (intro any_part_total) simp
  then show ?case by (simp add: eval_or.simps ps(1))
next
  case (2 t f e)
  have "'' and '' \<in> set seps" "'' && '' \<in> set seps" by (simp_all add: seps_def)
  from split_either_ascii [OF "2.prems" this] obtain ps where
    ps: "split_either t e '' and '' '' && '' = Some ps" "\<forall>p \<in> set ps. ascii p" by blast
  have "\<exists>b. all_parts (\<lambda>p. eval_not t f (trim_space p)) ps = Some b"
    using "2.IH" [OF ps(1)] ps(2) by (intro all_parts_total) simp
  then show ?case by (simp add: eval_and.simps ps(1))
next
  case (3 t f e)
  consider (a) r where "has_prefix (lower t e) ''not ''" "slice e 4 (length e) = Some r"
    | (b) r where "\<not> has_prefix (lower t e) ''not ''" "has_prefix e ''!''" "slice e 1 (length e) = Some r"
    | (c) "\<not> has_prefix (lower t e) ''not ''" "\<not> has_prefix e ''!''"
    using has_prefix_length [of "lower t e" "''not ''"] has_prefix_length [of e "''!''"] "3.prems"
    by (fastforce simp: slice_def to_lower_ascii)
  then show ?case
  proof cases
    case (a r)
    then have "\<exists>b. eval_atom t f (trim_space r) = Some b"
      using "3.IH"(1) ascii_slice [OF "3.prems"] by simp
    with a show ?thesis by (auto simp: eval_not.simps)
  next
    case (b r)
    then have "\<exists>b. eval_atom t f (trim_space r) = Some b"
      using "3.IH"(2) ascii_slice [OF "3.prems"] by simp
    with b show ?thesis by (auto simp: eval_not.simps)
  next
    case c
    with "3.IH"(3) "3.prems" show ?thesis by (simp add: eval_not.simps)
  qed
next
  case (4 t f e)
  let ?e = "trim_space e"
  show ?case
  proof (cases "has_prefix ?e ''('' \<and> has_suffix ?e '')''")
    case True
    then have "?e \<noteq> []" by (auto simp: has_prefix_simps)
    moreover have "?e \<noteq> [x]" for x using True by (auto simp: has_prefix_def has_suffix_def)
    ultimately have "Suc 0 \<le> length ?e - 1"
      by (cases ?e; cases "tl ?e") auto
    then obtain r where r: "slice ?e 1 (length ?e - 1) = Some r" by (simp add: slice_def)
    from ascii_slice [OF ascii_trim [OF "4.prems"] r] have "ascii r" .
    with r "4.IH" [OF refl True r] True r show ?thesis by (subst eval_atom.simps) (simp add: Let_def)
  next
    case False
    then show ?thesis
      using eval_leaf_total [of ?e t f] "4.prems" by (subst eval_atom.simps) (auto simp: Let_def)
  qed
qed

section \<open>The meaning of an expression\<close>

text \<open>Expressions, the way to write them with every operand in parentheses, and their meaning.\<close>

datatype flt = Leaf string | Neg flt | Conj flt flt | Disj flt flt

fun show_flt :: "flt \<Rightarrow> string" where
  "show_flt (Leaf a) = a"
| "show_flt (Neg x) = ''not ('' @ show_flt x @ '')''"
| "show_flt (Conj x y) = ''('' @ show_flt x @ '') and ('' @ show_flt y @ '')''"
| "show_flt (Disj x y) = ''('' @ show_flt x @ '') or ('' @ show_flt y @ '')''"

fun meaning :: "(string \<Rightarrow> bool) \<Rightarrow> flt \<Rightarrow> bool" where
  "meaning m (Leaf a) = m a"
| "meaning m (Neg x) = (\<not> meaning m x)"
| "meaning m (Conj x y) = (meaning m x \<and> meaning m y)"
| "meaning m (Disj x y) = (meaning m x \<or> meaning m y)"

text \<open>A comparison or protocol name: ASCII, without parentheses, separators or a negation sign, and
  with no white space around it.\<close>

definition leaf_ok :: "string \<Rightarrow> bool" where
  "leaf_ok a =
     (ascii a \<and> a \<noteq> [] \<and> solid (hd a) \<and> solid (last a) \<and>
      CHR ''('' \<notin> set a \<and> CHR '')'' \<notin> set a \<and> hd a \<noteq> CHR ''!'' \<and>
      \<not> has_prefix (map lower_char a) ''not '' \<and>
      list_all (\<lambda>sep. \<not> contains_sub (map lower_char a) sep) seps)"

fun flt_ok :: "flt \<Rightarrow> bool" where
  "flt_ok (Leaf a) = leaf_ok a"
| "flt_ok (Neg x) = flt_ok x"
| "flt_ok (Conj x y) = (flt_ok x \<and> flt_ok y)"
| "flt_ok (Disj x y) = (flt_ok x \<and> flt_ok y)"

lemma show_ascii: "flt_ok x \<Longrightarrow> ascii (show_flt x)"
  by (induction x) (simp_all add: leaf_ok_def)

subsection \<open>Inside parentheses nothing splits\<close>

lemma sp_plain:
  "CHR ''('' \<notin> set x \<Longrightarrow> CHR '')'' \<notin> set x \<Longrightarrow> d \<noteq> 0 \<Longrightarrow>
   sp sep (x @ v) d cur = sp sep v d (cur @ x)"
  by (induction x arbitrary: cur) auto

lemma sp_show: "flt_ok x \<Longrightarrow> 0 < d \<Longrightarrow> sp sep (show_flt x @ v) d cur = sp sep v d (cur @ show_flt x)"
  by (induction x arbitrary: d v cur) (simp_all add: sp_plain leaf_ok_def)

lemma sp_group:
  "flt_ok x \<Longrightarrow> sp sep (CHR ''('' # show_flt x @ CHR '')'' # v) 0 cur =
   sp sep v 0 (cur @ ''('' @ show_flt x @ '')'')"
  by (simp add: sp_show)

lemma sp_leaf:
  "CHR ''('' \<notin> set a \<Longrightarrow> CHR '')'' \<notin> set a \<Longrightarrow> \<not> contains_sub (map lower_char a) sep \<Longrightarrow>
   sp sep a 0 cur = [cur @ a]"
  by (induction a arbitrary: cur) (auto simp: contains_sub_simps)

lemma lower_char_simps:
  "lower_char CHR '' '' = CHR '' ''" "lower_char CHR ''('' = CHR ''(''" "lower_char CHR ''n'' = CHR ''n''"
  "lower_char CHR ''o'' = CHR ''o''" "lower_char CHR ''t'' = CHR ''t''" "lower_char CHR ''a'' = CHR ''a''"
  "lower_char CHR ''d'' = CHR ''d''" "lower_char CHR ''r'' = CHR ''r''"
  by (simp_all add: lower_char_def in_range_def)

lemma sp_skip:
  "c \<noteq> CHR ''('' \<Longrightarrow> c \<noteq> CHR '')'' \<Longrightarrow> \<not> has_prefix (lower_char c # map lower_char r) sep \<Longrightarrow>
   sp sep (c # r) 0 cur = sp sep r 0 (cur @ [c])"
  by simp

lemma sp_hit:
  "c \<noteq> CHR ''('' \<Longrightarrow> c \<noteq> CHR '')'' \<Longrightarrow> has_prefix (lower_char c # map lower_char r) sep \<Longrightarrow>
   sp sep (c # r) 0 cur = cur # sp sep (drop (length sep - 1) r) 0 []"
  by simp

lemmas sep_eval = lower_char_simps has_prefix_simps sp_group sp_skip sp_hit

text \<open>Where each written expression splits at the top.\<close>

lemma seps_cases:
  "sep \<in> set seps \<Longrightarrow>
   (sep = '' or '' \<Longrightarrow> P) \<Longrightarrow> (sep = '' || '' \<Longrightarrow> P) \<Longrightarrow> (sep = '' and '' \<Longrightarrow> P) \<Longrightarrow> (sep = '' && '' \<Longrightarrow> P) \<Longrightarrow> P"
  by (auto simp: seps_def)

lemma sp_Neg: "flt_ok x \<Longrightarrow> sep \<in> set seps \<Longrightarrow> sp sep (show_flt (Neg x)) 0 [] = [show_flt (Neg x)]"
  by (elim seps_cases) (simp_all add: sep_eval del: sp.simps(2))

lemma sp_Conj:
  "flt_ok x \<Longrightarrow> flt_ok y \<Longrightarrow> sep \<in> set seps \<Longrightarrow>
   sp sep (show_flt (Conj x y)) 0 [] =
   (if sep = '' and '' then [''('' @ show_flt x @ '')'', ''('' @ show_flt y @ '')'']
    else [show_flt (Conj x y)])"
  by (elim seps_cases) (simp_all add: sep_eval del: sp.simps(2))

lemma sp_Disj:
  "flt_ok x \<Longrightarrow> flt_ok y \<Longrightarrow> sep \<in> set seps \<Longrightarrow>
   sp sep (show_flt (Disj x y)) 0 [] =
   (if sep = '' or '' then [''('' @ show_flt x @ '')'', ''('' @ show_flt y @ '')'']
    else [show_flt (Disj x y)])"
  by (elim seps_cases) (simp_all add: sep_eval del: sp.simps(2))

lemma sp_Group:
  "flt_ok x \<Longrightarrow> sep \<in> set seps \<Longrightarrow>
   sp sep (''('' @ show_flt x @ '')'') 0 [] = [''('' @ show_flt x @ '')'']"
  by (simp add: sep_eval del: sp.simps(2))

subsection \<open>Evaluation\<close>

text \<open>An ASCII expression that no separator splits is passed on to the next level.\<close>

lemma eval_unsplit:
  assumes "ascii e" "trim_space e = e"
  shows "(\<forall>sep \<in> set ['' or '', '' || '']. sp sep e 0 [] = [e]) \<Longrightarrow> eval_or t f e = eval_and t f e"
    "(\<forall>sep \<in> set ['' and '', '' && '']. sp sep e 0 [] = [e]) \<Longrightarrow> eval_and t f e = eval_not t f e"
proof -
  have o: "any_part g [x] = g x" "all_parts g [x] = g x" for g :: "string \<Rightarrow> bool option" and x
    by (cases "g x"; simp)+
  show "(\<forall>sep \<in> set ['' or '', '' || '']. sp sep e 0 [] = [e]) \<Longrightarrow> eval_or t f e = eval_and t f e"
    using assms by (simp add: eval_or.simps split_either_def split_top_seps seps_def o del: any_part.simps)
  show "(\<forall>sep \<in> set ['' and '', '' && '']. sp sep e 0 [] = [e]) \<Longrightarrow> eval_and t f e = eval_not t f e"
    using assms by (simp add: eval_and.simps split_either_def split_top_seps seps_def o del: all_parts.simps)
qed

lemma eval_group:
  assumes "flt_ok x"
  shows "eval_atom t f (''('' @ show_flt x @ '')'') = eval_or t f (show_flt x)"
    "eval_not t f (''('' @ show_flt x @ '')'') = eval_or t f (show_flt x)"
    "eval_and t f (''('' @ show_flt x @ '')'') = eval_or t f (show_flt x)"
    "trim_space (''('' @ show_flt x @ '')'') = ''('' @ show_flt x @ '')''"
proof -
  let ?g = "''('' @ show_flt x @ '')''"
  show tr: "trim_space ?g = ?g" by (rule trim_space_solid) (simp_all add: solid_simps)
  have a: "ascii ?g" using show_ascii [OF assms] by simp
  have "has_suffix ?g '')''" by (simp add: has_suffix_def)
  moreover have "slice ?g 1 (length ?g - 1) = Some (show_flt x)" by (simp add: slice_def)
  ultimately show at: "eval_atom t f ?g = eval_or t f (show_flt x)"
    by (subst eval_atom.simps) (simp only: tr Let_def, simp add: has_prefix_simps)
  show n: "eval_not t f ?g = eval_or t f (show_flt x)"
    using at a by (subst eval_not.simps) (simp add: to_lower_ascii has_prefix_simps lower_char_simps)
  have "\<forall>sep \<in> set ['' and '', '' && '']. sp sep ?g 0 [] = [?g]"
    using sp_Group [OF assms] by (simp add: seps_def)
  from eval_unsplit(2) [OF a tr this] n show "eval_and t f ?g = eval_or t f (show_flt x)" by simp
qed

lemma eval_plain:
  assumes "ascii a" "trim_space a = a" "CHR ''('' \<notin> set a" "hd a \<noteq> CHR ''!''"
    "\<not> has_prefix (map lower_char a) ''not ''"
  shows "eval_not t f a = eval_leaf t f a"
proof -
  have "eval_not t f a = eval_atom t f a"
    using assms by (subst eval_not.simps) (cases a; auto simp: to_lower_ascii has_prefix_simps)
  moreover have "\<not> has_prefix a ''(''" using assms(3) by (cases a; auto simp: has_prefix_simps)
  ultimately show ?thesis by (simp add: eval_atom.simps assms(2) Let_def)
qed

lemma eval_show:
  "flt_ok x \<Longrightarrow> eval_or t f (show_flt x) = Some (meaning (\<lambda>a. eval_leaf t f a = Some True) x)"
proof (induction x)
  case (Leaf a)
  then have ok: "leaf_ok a" by simp
  then have a: "ascii a" and tr: "trim_space a = a"
    by (simp_all add: leaf_ok_def trim_space_solid)
  have sp: "\<forall>sep \<in> set seps. sp sep a 0 [] = [a]"
    using ok sp_leaf [of a _ "[]"] by (simp add: leaf_ok_def list_all_iff)
  have "eval_not t f a = eval_leaf t f a"
    using ok a tr by (intro eval_plain) (simp_all add: leaf_ok_def)
  moreover obtain b where "eval_leaf t f a = Some b" using eval_leaf_total [OF a] by blast
  ultimately show ?case
    using eval_unsplit [OF a tr] sp by (simp add: seps_def)
next
  case (Neg x)
  let ?s = "show_flt (Neg x)" and ?g = "''('' @ show_flt x @ '')''"
  have a: "ascii ?s" using show_ascii [OF Neg.prems] .
  have tr: "trim_space ?s = ?s" by (rule trim_space_solid) (simp_all add: solid_simps)
  have sp: "\<forall>sep \<in> set seps. sp sep ?s 0 [] = [?s]" using sp_Neg Neg.prems by simp
  have "has_prefix (lower t ?s) ''not ''"
    using a by (simp add: to_lower_ascii has_prefix_simps lower_char_simps)
  moreover have "slice ?s 4 (length ?s) = Some ?g" by (simp add: slice_def)
  ultimately have "eval_not t f ?s = do { b \<leftarrow> eval_or t f (show_flt x); Some (\<not> b) }"
    using eval_group [of x] Neg.prems by (subst eval_not.simps) (simp del: show_flt.simps append.simps)
  with eval_unsplit [OF a tr] sp Neg show ?case by (simp add: seps_def del: show_flt.simps)
next
  case (Conj x y)
  let ?s = "show_flt (Conj x y)"
  have a: "ascii ?s" using show_ascii [OF Conj.prems] .
  have tr: "trim_space ?s = ?s" by (rule trim_space_solid) (simp_all add: solid_simps)
  have ok: "flt_ok x" "flt_ok y" using Conj.prems by simp_all
  have "eval_or t f ?s = eval_and t f ?s"
    using sp_Conj [OF ok] by (intro eval_unsplit(1) [OF a tr]) (simp add: seps_def del: show_flt.simps)
  also have "split_either t ?s '' and '' '' && '' =
      Some [''('' @ show_flt x @ '')'', ''('' @ show_flt y @ '')'']"
    using sp_Conj [OF ok] a by (simp add: split_either_def split_top_seps seps_def del: show_flt.simps)
  then have "eval_and t f ?s = all_parts (\<lambda>p. eval_not t f (trim_space p))
      [''('' @ show_flt x @ '')'', ''('' @ show_flt y @ '')'']"
    by (subst eval_and.simps) (simp only: bind.bind_lunit)
  also have "\<dots> = do { b \<leftarrow> eval_or t f (show_flt x); if \<not> b then Some False
      else do { b \<leftarrow> eval_or t f (show_flt y); if \<not> b then Some False else Some True } }"
    by (simp only: all_parts.simps eval_group [OF ok(1)] eval_group [OF ok(2)])
  finally show ?case using Conj by simp
next
  case (Disj x y)
  let ?s = "show_flt (Disj x y)"
  have a: "ascii ?s" using show_ascii [OF Disj.prems] .
  have ok: "flt_ok x" "flt_ok y" using Disj.prems by simp_all
  have "split_either t ?s '' or '' '' || '' =
      Some [''('' @ show_flt x @ '')'', ''('' @ show_flt y @ '')'']"
    using sp_Disj [OF ok] a by (simp add: split_either_def split_top_seps seps_def del: show_flt.simps)
  then have "eval_or t f ?s = any_part (\<lambda>p. eval_and t f (trim_space p))
      [''('' @ show_flt x @ '')'', ''('' @ show_flt y @ '')'']"
    by (subst eval_or.simps) (simp only: bind.bind_lunit)
  also have "\<dots> = do { b \<leftarrow> eval_or t f (show_flt x); if b then Some True
      else do { b \<leftarrow> eval_or t f (show_flt y); if b then Some True else Some False } }"
    by (simp only: any_part.simps eval_group [OF ok(1)] eval_group [OF ok(2)])
  finally show ?case using Disj by simp
qed

section \<open>Comparisons\<close>

lemma find_sub_absent: "c \<in> set p \<Longrightarrow> c \<notin> set s \<Longrightarrow> find_sub p s = None"
proof (cases "find_sub p s")
  case (Some i)
  assume c: "c \<in> set p" "c \<notin> set s"
  from find_sub_Some [OF Some] obtain r where "s = take i s @ p @ r" by blast
  then have "set p \<subseteq> set s" by (metis set_append sup.cobounded1 sup.coboundedI2)
  with c show ?thesis by blast
qed simp

lemma digits_ascii: "set ds \<subseteq> set ''0123456789'' \<Longrightarrow> ascii ds \<and> map lower_char ds = ds"
proof -
  assume d: "set ds \<subseteq> set ''0123456789''"
  have "of_char c < (0x80::nat) \<and> lower_char c = c" if "c \<in> set ''0123456789''" for c
    using that by (auto simp: lower_char_def in_range_def)
  with d show ?thesis by (auto simp: ascii_def list_all_iff subset_iff intro!: map_idI)
qed

lemma runes_ascii: "ascii s \<Longrightarrow> runes s = map of_char s"
  by (induction s) (simp_all add: runes_ascii_Cons)

lemma equal_fold_digits:
  assumes "ascii s" "set ds \<subseteq> set ''0123456789''"
  shows "equal_fold t s ds \<longleftrightarrow> s = ds"
proof -
  have c: "fold_rune fd (of_char a) (of_char d) \<longleftrightarrow> a = d"
    if "of_char a < (0x80::nat)" "d \<in> set ''0123456789''" for fd a d
  proof -
    have "of_char d < (58::nat)" using that(2) by auto
    then show ?thesis using that(1) by (auto simp: fold_rune_def in_range_def Let_def min_def max_def)
  qed
  have "equal_fold t s ds \<longleftrightarrow> list_all2 (\<lambda>a d. fold_rune (tab_fold t) (of_char a) (of_char d)) s ds"
    using assms digits_ascii by (simp add: equal_fold_def runes_ascii list_all2_map1 list_all2_map2)
  also have "\<dots> \<longleftrightarrow> list_all2 (=) s ds"
  proof -
    have "fold_rune (tab_fold t) (of_char (s ! i)) (of_char (ds ! i)) \<longleftrightarrow> s ! i = ds ! i"
      if "i < length s" "length s = length ds" for i
      using assms nth_mem [of i s] nth_mem [of i ds] that
      by (intro c) (auto simp: ascii_def list_all_iff simp del: list.set)
    then show ?thesis by (auto simp: list_all2_conv_all_nth)
  qed
  finally show ?thesis by (simp add: list_all2_eq)
qed

lemma length_dec: "n < 10 ^ Suc k \<Longrightarrow> length (dec n) \<le> Suc k"
proof (induction k arbitrary: n)
  case (Suc k)
  show ?case
  proof (cases "n < 10")
    case True
    then show ?thesis by (subst dec.simps) simp
  next
    case False
    have "n div 10 < 10 ^ Suc k" using Suc.prems by simp
    with Suc.IH False show ?thesis by (subst dec.simps) simp
  qed
qed (simp add: dec.simps)

lemma solid_digit: "c \<in> set ''0123456789'' \<Longrightarrow> solid c"
  by (auto simp: solid_def space_encodings_def)

lemma trim_space_space: "trim_space (CHR '' '' # s) = trim_space s"
proof -
  have "drop_any space_encodings (CHR '' '' # s) = s"
    by (simp add: space_encodings_def has_prefix_simps)
  then have "trim_by space_encodings (CHR '' '' # s) = trim_by space_encodings s"
    by (subst trim_by.simps) simp
  then show ?thesis by (simp add: trim_space_def)
qed

lemma trim_digits:
  assumes "set ds \<subseteq> set ''0123456789''" "ds \<noteq> []"
  shows "trim_space ds = ds" "trim_set [CHR 0x22, CHR 0x27] ds = ds"
proof -
  have h: "hd ds \<in> set ''0123456789''" "last ds \<in> set ''0123456789''"
    using assms hd_in_set last_in_set by blast+
  then show "trim_space ds = ds" using assms(2) solid_digit by (intro trim_space_solid) blast+
  have "dropWhile (\<lambda>c. c \<in> set [CHR 0x22, CHR 0x27]) xs = xs" if "set xs \<subseteq> set ''0123456789''" for xs
    using that by (cases xs) auto
  from this [of ds] this [of "rev ds"] assms(1) show "trim_set [CHR 0x22, CHR 0x27] ds = ds"
    by (simp add: trim_set_def)
qed

text \<open>A comparison with a number, up to the comparison itself.\<close>

lemma match_compare:
  assumes "set ds \<subseteq> set ''0123456789''" "ds \<noteq> []"
  shows "filter_match t f (''tcp.port == '' @ ds) = Some (compare t f ''tcp.port'' ''=='' ds)" (is ?port)
    and "filter_match t f (''frame.len > '' @ ds) = Some (compare t f ''frame.len'' ''>'' ds)" (is ?len)
proof -
  obtain d r where ds: "ds = d # r" using assms(2) by (cases ds) auto
  have d: "d \<in> set ''0123456789''" using assms(1) ds by simp
  have sol: "solid (last ds)" using assms solid_digit last_in_set by blast
  have ne: "d \<noteq> CHR ''o''" "d \<noteq> CHR ''|''" "d \<noteq> CHR ''a''" "d \<noteq> CHR ''&''" "d \<noteq> CHR ''=''" "d \<noteq> CHR ''c''"
    using d by auto
  have abs: "find_sub p ds = None" if "list_ex (\<lambda>c. c \<notin> set ''0123456789'') p" for p
    using that assms(1) find_sub_absent [of _ p ds] by (auto simp: list_ex_iff)
  then have cs: "\<not> contains_sub ds sep" if "sep \<in> set seps" for sep
    using that by (auto simp: contains_sub_def seps_def)
  have asc: "ascii ds" "map lower_char ds = ds" using digits_ascii [OF assms(1)] by simp_all
  have nc: "CHR ''('' \<notin> set ds" "CHR '')'' \<notin> set ds" using assms(1) by auto
  have meaning: "filter_match t f e = Some b" if "leaf_ok e" "eval_leaf t f e = Some b" for e b
  proof -
    have "flt_ok (Leaf e)" using that(1) by simp
    from eval_show [OF this, of t f] that show ?thesis
      by (simp add: filter_match_def leaf_ok_def trim_space_solid Let_def)
  qed
  have ops: "filter_ops = ['' contains '', '' == '', ''!='', ''>='', ''<='', ''>'', ''<'', ''='']"
    by (simp add: filter_ops_def)
  have tops: "trim_space '' contains '' = ''contains''" "trim_space '' == '' = ''==''" "trim_space ''!='' = ''!=''"
    "trim_space ''>='' = ''>=''" "trim_space ''<='' = ''<=''" "trim_space ''>'' = ''>''"
    using trim_ops by (simp_all add: filter_ops_def op_names_def)
  have lops: "lower t ''=='' = ''==''" "lower t ''>'' = ''>''"
    by (simp_all add: to_lower_ascii lower_char_def in_range_def)
  have left: "trim_space ''tcp.port '' = ''tcp.port''" "trim_space ''frame.len '' = ''frame.len''"
    by (simp_all add: trim_space_def trim_by.simps space_encodings_def has_prefix_simps)
  note right = trim_space_space [of ds] trim_digits [OF assms]
  note lits = lower_char_def in_range_def has_prefix_simps contains_sub_simps
  show ?port
  proof (rule meaning)
    let ?e = "''tcp.port == '' @ ds"
    have l: "ascii ?e" "map lower_char ?e = ?e" using asc by (simp_all add: lower_char_def in_range_def)
    have "\<not> contains_sub ?e sep" if "sep \<in> set seps" for sep
      using cs [OF that] that by (elim seps_cases) (simp_all add: lits ds ne)
    then show "leaf_ok ?e"
      unfolding leaf_ok_def l(2) using l(1) sol assms(2) nc
      by (simp add: list_all_iff has_prefix_simps solid_def space_encodings_def)
    have "find_sub ''contains'' ?e = None" using abs [of "''contains''"] ne by (simp add: lits ds)
    moreover have "find_sub ''=='' ?e = Some 9" by (simp add: has_prefix_simps)
    ultimately show "eval_leaf t f ?e = Some (compare t f ''tcp.port'' ''=='' ds)"
      using l right left
      by (simp add: eval_leaf_def ops tops lops to_lower_ascii index_fold_def slice_def Let_def)
  qed
  show ?len
  proof (rule meaning)
    let ?e = "''frame.len > '' @ ds"
    have l: "ascii ?e" "map lower_char ?e = ?e" using asc by (simp_all add: lower_char_def in_range_def)
    have "\<not> contains_sub ?e sep" if "sep \<in> set seps" for sep
      using cs [OF that] that by (elim seps_cases) (simp_all add: lits ds ne)
    then show "leaf_ok ?e"
      unfolding leaf_ok_def l(2) using l(1) sol assms(2) nc
      by (simp add: list_all_iff has_prefix_simps solid_def space_encodings_def)
    have "find_sub op ?e = None" if "op \<in> set [''contains'', ''=='', ''!='', ''>='', ''<='']" for op
      using abs [of op] that ne by (auto simp: lits ds)
    moreover have "find_sub ''>'' ?e = Some 10" by (simp add: has_prefix_simps)
    ultimately show "eval_leaf t f ?e = Some (compare t f ''frame.len'' ''>'' ds)"
      using l right left
      by (simp add: eval_leaf_def ops tops lops to_lower_ascii index_fold_def slice_def Let_def)
  qed
qed

lemma dec_digits: "set (dec n) \<subseteq> set ''0123456789'' \<and> dec n \<noteq> []"
  using set_dec by simp

lemma fields_from_plain: "\<forall>c \<in> set s. \<not> p c \<Longrightarrow> cur @ s \<noteq> [] \<Longrightarrow> fields_from p cur s = [cur @ s]"
  by (induction s arbitrary: cur) auto

lemma fields_from_sep:
  "\<forall>c \<in> set s. \<not> p c \<Longrightarrow> cur @ s \<noteq> [] \<Longrightarrow> p d \<Longrightarrow>
   fields_from p cur (s @ d # r) = (cur @ s) # fields_from p [] r"
  by (induction s arbitrary: cur) auto

lemma port_list_dec: "port_list (dec a @ '','' @ dec b) = [dec a, dec b]"
proof -
  have "\<forall>c \<in> set (dec n). \<not> (c = CHR '','' \<or> c = CHR ''|'')" for n using dec_digits [of n] by auto
  then show ?thesis
    by (simp add: port_list_def fields_func_def fields_from_sep fields_from_plain)
qed

lemma parse_dec: "n < 10 ^ 15 \<Longrightarrow> to_float t (dec n) = Some (Fin (int n) 0)"
proof -
  assume "n < 10 ^ 15"
  then have "length (dec n) \<le> 15" using length_dec [of n 14] by simp
  moreover have t: "takeWhile (\<lambda>c. c \<notin> set '',|'') (dec n) = dec n"
    using dec_digits [of n] by (subst takeWhile_eq_all_conv) auto
  ultimately show ?thesis
    using dec_digits [of n] unfolding to_float_def t by (simp add: parse_float_def del: list.set)
qed


lemma match_total:
  assumes "ascii e"
  shows "\<exists>b. filter_match t f e = Some b"
proof -
  obtain b where "eval_or t f (trim_space e) = Some b"
    using eval_total(1) [OF ascii_trim [OF assms], of t f] by blast
  then show ?thesis by (auto simp: filter_match_def Let_def)
qed

section \<open>Properties\<close>

text \<open>C27: an ASCII expression is evaluated to an answer: the evaluator ends and does not panic,
  whatever the frame and the tables are.\<close>

theorem filter_total:
  assumes "ascii e"
  shows "\<exists>b. filter_match t f e = Some b"
  by (rule match_total [OF assms])

definition plain_tables :: tables where
  "plain_tables =
     \<lparr>tab_lower = id, tab_upper = id, tab_fold = (\<lambda>_ _. False), tab_float = (\<lambda>_. None), tab_iter = id\<rparr>"

lemma filter_total_witness:
  "\<exists>b. filter_match plain_tables (blank_frame 1 0 0 0 []) ''not (tcp.port == 443) && dns'' = Some b"
  by (rule filter_total) simp

text \<open>C26: an expression whose operands are written in parentheses is evaluated to its meaning: the
  connectives of its tree over the answers of its comparisons and protocol names.\<close>

theorem filter_meaning:
  assumes "flt_ok x"
  shows "filter_match t f (show_flt x) = Some (meaning (\<lambda>a. eval_leaf t f a = Some True) x)"
proof -
  have tr: "trim_space (show_flt x) = show_flt x" and ne: "show_flt x \<noteq> []"
    using assms by (cases x; auto intro!: trim_space_solid simp: solid_simps leaf_ok_def)+
  show ?thesis
    using eval_show [OF assms, of t f] ne by (simp add: filter_match_def tr Let_def)
qed

lemma filter_meaning_witness:
  "filter_match plain_tables ((blank_frame 1 0 0 0 [])\<lparr>f_protocol := ''DNS''\<rparr>)
     ''not ((dns) and (tcp))'' = Some True"
proof -
  let ?f = "(blank_frame 1 0 0 0 [])\<lparr>f_protocol := ''DNS''\<rparr>"
  have ok: "flt_ok (Neg (Conj (Leaf ''dns'') (Leaf ''tcp'')))"
    by (simp add: leaf_ok_def seps_def sub_eval solid_def space_encodings_def lower_char_def in_range_def)
  have "eval_leaf plain_tables ?f ''tcp'' = Some False"
    by (simp add: eval_leaf_def has_protocol_def match_meta_key_def blank_frame_def to_lower_ascii
        lower_char_def in_range_def char_of_def sub_eval proto_aliases_def)
  with filter_meaning [OF ok, of plain_tables ?f] show ?thesis by simp
qed

lemma split_from_short:
  assumes "length low < length s" "\<not> contains_sub low sep" "length sep = 4"
    and "CHR ''('' \<notin> set s" "CHR '')'' \<notin> set s" "i + 4 \<le> length s"
  shows "split_from s low sep i 0 start parts = None"
  using assms(6)
proof (induction "length s - i" arbitrary: i rule: less_induct)
  case less
  have i: "i < length s" using less.prems by simp
  then have c: "s ! i \<noteq> CHR ''(''" "s ! i \<noteq> CHR '')''" using assms(4,5) nth_mem by metis+
  have ne: "sep \<noteq> []" using assms(3) by auto
  show ?case
  proof (cases "i + 4 \<le> length low")
    case False
    then have "sep_here s low sep i 0 = None"
      using less.prems assms(3) by (simp add: sep_here_def slice_def)
    with i c ne show ?thesis by (subst split_from.simps) (simp add: Let_def)
  next
    case True
    then have "slice low i (i + 4) \<noteq> Some sep"
    proof -
      have "low = take i low @ take 4 (drop i low) @ drop (i + 4) low"
        by (metis append_take_drop_id drop_drop add.commute)
      then have "take 4 (drop i low) \<noteq> sep" using assms(2) unfolding contains_sub_iff by metis
      then show ?thesis by (simp add: slice_def)
    qed
    then have h: "sep_here s low sep i 0 = Some False"
      using True less.prems assms(3) by (auto simp: sep_here_def slice_def)
    have "split_from s low sep (Suc i) 0 start parts = None"
      using less.hyps [of "Suc i"] True assms(1) i by simp
    with i c ne h show ?thesis by (subst split_from.simps) (simp add: Let_def)
  qed
qed

text \<open>C36: an expression of at least four bytes, without white space at its ends, without parentheses
  and without \<open>or\<close> between blanks, whose lower-case form is shorter than it is, makes the evaluator
  panic on every frame: it compares with the lower-case form at the offsets of the expression.\<close>

theorem filter_panic:
  assumes "trim_space e = e" "4 \<le> length e" "length (lower t e) < length e"
    and "CHR ''('' \<notin> set e" "CHR '')'' \<notin> set e" "\<not> contains_sub (lower t e) '' or ''"
  shows "filter_match t f e = None"
proof -
  have l: "lower t '' or '' = '' or ''"
    by (subst to_lower_ascii) (simp_all add: lower_char_def in_range_def)
  have "split_top t e '' or '' = None"
    unfolding split_top_def l by (rule split_from_short) (use assms in simp_all)
  then show ?thesis
    using assms(1,2) by (auto simp: filter_match_def eval_or.simps split_either_def)
qed

text \<open>The letter U+0130, whose lower-case form is \<open>i\<close>, is such an expression's letter.\<close>

lemma filter_panic_witness:
  "filter_match (plain_tables\<lparr>tab_lower := id(0x130 := 0x69)\<rparr>) (blank_frame 1 0 0 0 [])
     [CHR ''d'', CHR ''n'', CHR ''s'', CHR 0xC4, CHR 0xB0] = None"
proof -
  let ?e = "[CHR ''d'', CHR ''n'', CHR ''s'', CHR 0xC4, CHR 0xB0]"
  let ?t = "plain_tables\<lparr>tab_lower := id(0x130 := 0x69)\<rparr>"
  have r: "runes ?e = [100, 110, 115, 0x130]"
    by (simp add: runes.simps decode_rune_def rune_width_def second_range_def in_range_def Let_def)
  have "lower ?t ?e = ''dnsi''"
    by (simp add: to_lower_def r lower_rune_def in_range_def encode_rune_def char_of_def bit_0)
  then show ?thesis
    by (intro filter_panic) (simp_all add: trim_space_solid solid_def space_encodings_def sub_eval)
qed

text \<open>\<open>tcp.port == p\<close> holds of the frames with source or destination port \<open>p\<close>, and no others.\<close>

theorem filter_port:
  assumes "gget (f_meta f) ''sport'' = dec a" "gget (f_meta f) ''dport'' = dec b"
  shows "filter_match t f (''tcp.port == '' @ dec p) = Some (p = a \<or> p = b)"
proof -
  have l: "lower t ''tcp.port'' = ''tcp.port''" "lower t ''=='' = ''==''"
    by (simp_all add: to_lower_ascii lower_char_def in_range_def)
  have got: "resolve t f ''tcp.port'' = dec a @ '','' @ dec b"
    using assms by (simp add: resolve_def port_fields_def Let_def)
  have asc: "ascii (dec n)" for n using digits_ascii dec_digits by blast
  then have "equal_fold t (dec a @ '','' @ dec b) (dec p) \<longleftrightarrow> dec a @ '','' @ dec b = dec p"
    using dec_digits [of p] by (intro equal_fold_digits) simp_all
  moreover have "dec a @ '','' @ dec b \<noteq> dec p"
  proof
    assume "dec a @ '','' @ dec b = dec p"
    then have "CHR '','' \<in> set (dec p)" by (simp flip: \<open>dec a @ '','' @ dec b = dec p\<close>)
    with dec_digits [of p] show False by auto
  qed
  ultimately show ?thesis
    unfolding match_compare(1) [OF conjunct1 conjunct2, OF dec_digits dec_digits]
    by (auto simp: compare_def l got port_list_dec [simplified] port_fields_def Let_def)
qed

lemma filter_port_witness:
  "filter_match plain_tables ((blank_frame 1 0 0 0 [])\<lparr>f_meta := [''sport'' \<mapsto> dec 5353, ''dport'' \<mapsto> dec 443]\<rparr>)
     (''tcp.port == '' @ dec 443) = Some True"
  using filter_port [of "(blank_frame 1 0 0 0 [])\<lparr>f_meta := [''sport'' \<mapsto> dec 5353, ''dport'' \<mapsto> dec 443]\<rparr>"
      5353 443 plain_tables 443] by simp

text \<open>\<open>frame.len > n\<close> compares the length as a number.\<close>

theorem filter_len:
  assumes "n < 10 ^ 15" "f_length f < 10 ^ 15"
  shows "filter_match t f (''frame.len > '' @ dec n) = Some (n < f_length f)"
proof -
  have l: "lower t ''frame.len'' = ''frame.len''" "lower t ''>'' = ''>''"
    by (simp_all add: to_lower_ascii lower_char_def in_range_def)
  have "resolve t f ''frame.len'' = dec (f_length f)"
    by (simp add: resolve_def Let_def)
  with l show ?thesis
    unfolding match_compare(2) [OF conjunct1 conjunct2, OF dec_digits dec_digits]
    using assms by (simp add: compare_def compare_num_def parse_dec Let_def)
qed

lemma filter_len_witness:
  "filter_match plain_tables (blank_frame 1 0 0 0 [1, 2, 3]) (''frame.len > '' @ dec 2) = Some True"
  using filter_len [of 2 "blank_frame 1 0 0 0 [1, 2, 3]" plain_tables] by (simp add: blank_frame_def)

text \<open>An expression that mixes \<open>or\<close> with \<open>||\<close> is not the disjunction of its parts: behind an
  \<open>or\<close>, a part with \<open>||\<close> is looked up as one protocol name.\<close>

theorem filter_mixed_or:
  "filter_match t ((blank_frame 1 0 0 0 [])\<lparr>f_protocol := ''HTTP''\<rparr>) ''dns or tls || http'' = Some False \<and>
   filter_match t ((blank_frame 1 0 0 0 [])\<lparr>f_protocol := ''HTTP''\<rparr>) ''dns or tls or http'' = Some True"
proof -
  let ?f = "(blank_frame 1 0 0 0 [])\<lparr>f_protocol := ''HTTP''\<rparr>"
  have tr: "trim_space a = a" if "a \<in> set [''dns'', ''tls'', ''http'', ''tls || http'']" for a
    using that by (auto intro!: trim_space_solid simp: solid_def space_encodings_def)
  have leaf: "eval_and t ?f a = eval_leaf t ?f a"
    if "a \<in> set [''dns'', ''tls'', ''http'', ''tls || http'']" for a
  proof -
    have "ascii a" "CHR ''('' \<notin> set a" "hd a \<noteq> CHR ''!''" "\<not> has_prefix (map lower_char a) ''not ''"
      "\<forall>sep \<in> set ['' and '', '' && '']. sp sep a 0 [] = [a]"
      using that by (auto simp: lower_char_def in_range_def has_prefix_simps)
    with eval_plain [OF _ tr [OF that]] eval_unsplit(2) [OF _ tr [OF that]] show ?thesis by simp
  qed
  have val: "eval_leaf t ?f ''dns'' = Some False" "eval_leaf t ?f ''tls'' = Some False"
    "eval_leaf t ?f ''http'' = Some True" "eval_leaf t ?f ''tls || http'' = Some False"
    by (simp_all add: eval_leaf_def has_protocol_def match_meta_key_def blank_frame_def to_lower_ascii
        lower_char_def in_range_def char_of_def bit_0 sub_eval proto_aliases_def)
  have sp: "split_either t ''dns or tls || http'' '' or '' '' || '' = Some [''dns'', ''tls || http'']"
    "split_either t ''dns or tls or http'' '' or '' '' || '' = Some [''dns'', ''tls'', ''http'']"
    by (simp_all add: split_either_def split_top_seps seps_def lower_char_def in_range_def has_prefix_simps)
  have t: "trim_space ''dns or tls || http'' = ''dns or tls || http''"
    "trim_space ''dns or tls or http'' = ''dns or tls or http''"
    by (auto intro!: trim_space_solid simp: solid_def space_encodings_def)
  show ?thesis
    by (simp add: filter_match_def t Let_def eval_or.simps sp tr leaf val)
qed

end
