(* ===== verification/NetAddr.thy ===== *)
theory NetAddr
  imports GoStrings
begin

text \<open>
  What the webhook guard uses of Go's \<open>net\<close>: \<open>net.ParseIP\<close> (the reader of \<open>net/netip\<close>), the
  predicates on addresses, \<open>net.JoinHostPort\<close>. An address is its bytes, 4 or 16 of them; the empty
  list is \<open>nil\<close>. The lemmas: an IPv4 address is read back from its text, and the predicates on
  IPv4 addresses are ranges of 32-bit numbers.
\<close>

section \<open>Predicates\<close>

definition v4_prefix :: bytes where
  "v4_prefix = replicate 10 0 @ [0xFF, 0xFF]"

definition to4 :: "bytes \<Rightarrow> bytes option" where
  "to4 ip =
     (if length ip = 4 then Some ip
      else if length ip = 16 \<and> take 12 ip = v4_prefix then Some (drop 12 ip) else None)"

definition is_unspecified :: "bytes \<Rightarrow> bool" where
  "is_unspecified ip = (to4 ip = Some [0, 0, 0, 0] \<or> ip = replicate 16 0)"

definition is_loopback :: "bytes \<Rightarrow> bool" where
  "is_loopback ip =
     (case to4 ip of Some q \<Rightarrow> q ! 0 = 127 | None \<Rightarrow> ip = replicate 15 0 @ [1])"

definition is_private :: "bytes \<Rightarrow> bool" where
  "is_private ip =
     (case to4 ip of
        Some q \<Rightarrow> q ! 0 = 10 \<or> q ! 0 = 172 \<and> (q ! 1) AND 0xF0 = 16 \<or> q ! 0 = 192 \<and> q ! 1 = 168
      | None \<Rightarrow> length ip = 16 \<and> (ip ! 0) AND 0xFE = 0xFC)"

definition is_multicast :: "bytes \<Rightarrow> bool" where
  "is_multicast ip =
     (case to4 ip of Some q \<Rightarrow> (q ! 0) AND 0xF0 = 0xE0 | None \<Rightarrow> length ip = 16 \<and> ip ! 0 = 0xFF)"

definition is_link_local_multicast :: "bytes \<Rightarrow> bool" where
  "is_link_local_multicast ip =
     (case to4 ip of
        Some q \<Rightarrow> q ! 0 = 224 \<and> q ! 1 = 0 \<and> q ! 2 = 0
      | None \<Rightarrow> length ip = 16 \<and> ip ! 0 = 0xFF \<and> (ip ! 1) AND 0x0F = 0x02)"

definition is_link_local_unicast :: "bytes \<Rightarrow> bool" where
  "is_link_local_unicast ip =
     (case to4 ip of
        Some q \<Rightarrow> q ! 0 = 169 \<and> q ! 1 = 254
      | None \<Rightarrow> length ip = 16 \<and> ip ! 0 = 0xFE \<and> (ip ! 1) AND 0xC0 = 0x80)"

section \<open>Reading an address\<close>

definition digit_val :: "char \<Rightarrow> nat option" where
  "digit_val c = (let n = of_char c in if 48 \<le> n \<and> n \<le> 57 then Some (n - 48) else None)"

definition hex_val :: "char \<Rightarrow> nat option" where
  "hex_val c =
     (let n = of_char c in
      if 48 \<le> n \<and> n \<le> 57 then Some (n - 48)
      else if 97 \<le> n \<and> n \<le> 102 then Some (n - 87)
      else if 65 \<le> n \<and> n \<le> 70 then Some (n - 55) else None)"

text \<open>The fields of an IPv4 address: \<open>v\<close> is the value of the octet being read and \<open>k\<close> its number
  of digits.\<close>

fun parse_v4 :: "string \<Rightarrow> nat \<Rightarrow> nat \<Rightarrow> bytes \<Rightarrow> bytes option" where
  "parse_v4 [] v k out = (if length out < 3 then None else Some (out @ [word_of_nat v]))"
| "parse_v4 (c # s) v k out =
     (case digit_val c of
        Some d \<Rightarrow>
          if k = 1 \<and> v = 0 then None
          else if 255 < v * 10 + d then None else parse_v4 s (v * 10 + d) (k + 1) out
      | None \<Rightarrow>
          if c \<noteq> CHR ''.'' then None
          else if k = 0 \<or> s = [] then None
          else if length out = 3 then None else parse_v4 s 0 0 (out @ [word_of_nat v]))"

text \<open>A group of an IPv6 address: its value, how many digits it has, and the rest.\<close>

fun hex_group :: "string \<Rightarrow> nat \<Rightarrow> nat \<Rightarrow> (nat \<times> nat \<times> string) option" where
  "hex_group [] v k = Some (v, k, [])"
| "hex_group (c # s) v k =
     (case hex_val c of
        Some d \<Rightarrow> if 3 < k then None else hex_group s (v * 16 + d) (k + 1)
      | None \<Rightarrow> Some (v, k, c # s))"

text \<open>The groups: what is left of the text, the bytes read, and where the ellipsis is.\<close>

function parse_groups :: "string \<Rightarrow> bytes \<Rightarrow> nat option \<Rightarrow> (string \<times> bytes \<times> nat option) option" where
  "parse_groups s ip ell =
     (if 16 \<le> length ip then Some (s, ip, ell)
      else case hex_group s 0 0 of
        None \<Rightarrow> None
      | Some (v, k, rest) \<Rightarrow>
          if k = 0 then None
          else if has_prefix rest ''.'' then
            (if ell = None \<and> length ip \<noteq> 12 \<or> 16 < length ip + 4 then None
             else map_option (\<lambda>q. ([], ip @ q, ell)) (parse_v4 s 0 0 []))
          else
            let ip' = ip @ put_be16 (word_of_nat v) in
            (case rest of
               [] \<Rightarrow> Some ([], ip', ell)
             | [c] \<Rightarrow> None
             | c # d # r \<Rightarrow>
                 if c \<noteq> CHR '':'' then None
                 else if d \<noteq> CHR '':'' then parse_groups (d # r) ip' ell
                 else if ell \<noteq> None then None
                 else if r = [] then Some ([], ip', Some (length ip'))
                 else parse_groups r ip' (Some (length ip'))))"
  by pat_completeness auto
termination
  by (relation "measure (\<lambda>(s, ip, ell). 16 - length ip)") auto

declare parse_groups.simps [simp del]

definition expand_groups :: "string \<times> bytes \<times> nat option \<Rightarrow> bytes option" where
  "expand_groups x =
     (case x of (s, ip, ell) \<Rightarrow>
        if s \<noteq> [] then None
        else if length ip < 16 then
          map_option (\<lambda>e. take e ip @ replicate (16 - length ip) 0 @ drop e ip) ell
        else if ell \<noteq> None then None else Some ip)"

definition parse_v6 :: "string \<Rightarrow> bytes option" where
  "parse_v6 s =
     (if has_prefix s ''::'' then
        (if drop 2 s = [] then Some (replicate 16 0)
         else parse_groups (drop 2 s) [] (Some 0) \<bind> expand_groups)
      else parse_groups s [] None \<bind> expand_groups)"

text \<open>\<open>net.ParseIP\<close> accepts no zone, so a \<open>%\<close> anywhere is an error. An IPv4 address is returned
  in its 16-byte form.\<close>

definition parse_ip :: "string \<Rightarrow> bytes option" where
  "parse_ip s =
     (case dropWhile (\<lambda>c. c \<notin> set ''.:%'') s of
        [] \<Rightarrow> None
      | c # _ \<Rightarrow>
          if c = CHR ''.'' then map_option (\<lambda>q. v4_prefix @ q) (parse_v4 s 0 0 [])
          else if c = CHR '':'' \<and> CHR ''%'' \<notin> set s then parse_v6 s else None)"

definition join_host_port :: "string \<Rightarrow> string \<Rightarrow> string" where
  "join_host_port host port =
     (if CHR '':'' \<in> set host \<or> CHR ''%'' \<in> set host then ''['' @ host @ '']:'' @ port
      else host @ '':'' @ port)"

section \<open>An IPv4 address is read back\<close>

lemma digit_val_digit: "d < 10 \<Longrightarrow> digit_val (digit_char d) = Some d"
  by (simp add: digit_val_def digit_char_code Let_def)

lemma digit_val_dot [simp]: "digit_val CHR ''.'' = None"
  by (simp add: digit_val_def)

lemma parse_v4_dec:
  "n < 256 \<Longrightarrow> parse_v4 (dec n @ s) 0 0 out = parse_v4 s n (length (dec n)) out"
proof (induction n arbitrary: s rule: dec.induct)
  case (1 n)
  show ?case
  proof (cases "n < 10")
    case True
    then have d: "dec n = [digit_char n]" by (subst dec.simps) simp
    show ?thesis using True unfolding d by (simp add: digit_val_digit)
  next
    case False
    then have d: "dec n = dec (n div 10) @ [digit_char (n mod 10)]" by (subst dec.simps) simp
    have "parse_v4 (dec n @ s) 0 0 out =
        parse_v4 (digit_char (n mod 10) # s) (n div 10) (length (dec (n div 10))) out"
      using "1.IH" [OF False, of "digit_char (n mod 10) # s"] "1.prems" unfolding d
      by simp
    also have "\<dots> = parse_v4 s n (length (dec n)) out"
      using False "1.prems" unfolding d by (auto simp: digit_val_digit)
    finally show ?thesis .
  qed
qed

lemma length_dec_pos: "0 < length (dec n)"
  by simp

lemma dec_no_sep: "c \<in> set (dec n) \<Longrightarrow> c \<notin> set ''.:%''"
  using set_dec [of n] by auto

lemma dropWhile_dec: "dropWhile (\<lambda>c. c \<notin> set ''.:%'') (dec n @ CHR ''.'' # s) = CHR ''.'' # s"
  using dec_no_sep by (subst dropWhile_append2) auto

lemma parse_v4_string:
  "parse_v4 (ipv4_string [a, b, c, d]) 0 0 [] = Some [a, b, c, d]"
proof -
  have l: "length (dec n) \<noteq> 0" "dec n @ s \<noteq> []" for n s using length_dec_pos [of n] by auto
  show ?thesis
    using parse_v4_dec [of "unat d" "[]"]
    by (simp add: ipv4_string_def parse_v4_dec unat_byte_less l)
qed

lemma parse_ip_string: "parse_ip (ipv4_string [a, b, c, d]) = Some (v4_prefix @ [a, b, c, d])"
proof -
  have "ipv4_string [a, b, c, d] = dec (unat a) @ CHR ''.'' #
      (dec (unat b) @ ''.'' @ dec (unat c) @ ''.'' @ dec (unat d))"
    by (simp add: ipv4_string_def)
  then show ?thesis
    using dropWhile_dec [of "unat a"] parse_v4_string [of a b c d]
    by (simp add: parse_ip_def set_simps)
qed

end
