(* ===== verification/Redact.thy ===== *)
theory Redact
  imports GoStrings
begin

text \<open>
  \<open>internal/notify/redact.go\<close>: secrets are cut out of error and status texts. The two regular
  expressions are matched without backtracking: behind their fixed letters, each repeated class
  excludes what follows it, so the greedy match is the only one. Under \<open>(?i)\<close> Go's letter classes
  also match the long s (U+017F) and the Kelvin sign (U+212A). The lemmas: what is replaced is gone, and
  nothing that the later steps do brings it back; so of the credentials, stated apart from the
  expressions, those long enough for them are gone, and shorter ones stay.
\<close>

section \<open>The expressions\<close>

definition alpha_num :: "char \<Rightarrow> bool" where
  "alpha_num c =
     (let n = (of_char c :: nat) in in_range 48 57 n \<or> in_range 65 90 n \<or> in_range 97 122 n)"

definition token_char :: "char \<Rightarrow> bool" where
  "token_char c = (alpha_num c \<or> c \<in> set ''_-'')"

definition bearer_char :: "char \<Rightarrow> bool" where
  "bearer_char c = (alpha_num c \<or> c \<in> set ''._-+=/'')"

text \<open>The longest run of a class: its bytes and its runes; \<open>class_step\<close> is the width of its first
  rune, 0 if there is none.\<close>

definition long_s :: string where
  "long_s = [CHR 0xC5, CHR 0xBF]"

definition kelvin :: string where
  "kelvin = [CHR 0xE2, CHR 0x84, CHR 0xAA]"

definition class_step :: "(char \<Rightarrow> bool) \<Rightarrow> string \<Rightarrow> nat" where
  "class_step P s =
     (if s = [] then 0 else if P (hd s) then 1
      else if has_prefix s long_s then 2 else if has_prefix s kelvin then 3 else 0)"

function run_len :: "(char \<Rightarrow> bool) \<Rightarrow> string \<Rightarrow> nat \<times> nat" where
  "run_len P s =
     (let k = class_step P s in
      if k = 0 then (0, 0) else case run_len P (drop k s) of (b, r) \<Rightarrow> (b + k, r + 1))"
  by pat_completeness auto
termination
  by (relation "measure (\<lambda>(P, s). length s)") (simp_all add: class_step_def split: if_splits)

declare run_len.simps [simp del]

definition digit_char_set :: "char \<Rightarrow> bool" where
  "digit_char_set c = in_range 48 57 (of_char c)"

definition space_char_set :: "char \<Rightarrow> bool" where
  "space_char_set c = (c \<in> {CHR 0x09, CHR 0x0A, CHR 0x0C, CHR 0x0D, CHR '' ''})"

text \<open>The length of the fixed front of a match: \<open>bot\d+:\<close> and \<open>bearer\s+\<close>, in any case.\<close>

definition bot_front :: "string \<Rightarrow> nat option" where
  "bot_front s =
     (let d = length (takeWhile digit_char_set (drop 3 s)) in
      if map lower_char (take 3 s) = ''bot'' \<and> d \<noteq> 0 \<and> has_prefix (drop (3 + d) s) '':''
      then Some (4 + d) else None)"

definition bearer_front :: "string \<Rightarrow> nat option" where
  "bearer_front s =
     (let d = length (takeWhile space_char_set (drop 6 s)) in
      if map lower_char (take 6 s) = ''bearer'' \<and> d \<noteq> 0 then Some (6 + d) else None)"

text \<open>A match: the length of its front and its length.\<close>

definition match_at ::
  "(string \<Rightarrow> nat option) \<Rightarrow> (char \<Rightarrow> bool) \<Rightarrow> nat \<Rightarrow> string \<Rightarrow> (nat \<times> nat) option" where
  "match_at front P least s =
     (case front s of
        None \<Rightarrow> None
      | Some k \<Rightarrow> (case run_len P (drop k s) of (b, r) \<Rightarrow> if least \<le> r then Some (k, k + b) else None))"

definition bot_match :: "string \<Rightarrow> (nat \<times> nat) option" where
  "bot_match = match_at bot_front token_char 20"

definition bearer_match :: "string \<Rightarrow> (nat \<times> nat) option" where
  "bearer_match = match_at bearer_front bearer_char 8"

text \<open>\<open>ReplaceAllString\<close>; \<open>repl\<close> is given the match and the length of its front. No match is empty.\<close>

function replace_all ::
  "(string \<Rightarrow> (nat \<times> nat) option) \<Rightarrow> (nat \<Rightarrow> string \<Rightarrow> string) \<Rightarrow> string \<Rightarrow> string" where
  "replace_all m repl [] = []"
| "replace_all m repl (c # s) =
     (case m (c # s) of
        None \<Rightarrow> c # replace_all m repl s
      | Some (k, n) \<Rightarrow> repl k (take n (c # s)) @ replace_all m repl (drop (n - 1) s))"
  by pat_completeness auto
termination
  by (relation "measure (\<lambda>(m, repl, s). length s)") auto

definition redact_secrets :: "string \<Rightarrow> string" where
  "redact_secrets s =
     (if s = [] then s
      else
        let s = replace_all bot_match (\<lambda>k x. ''bot***:***'') s;
            s = replace_all bearer_match (\<lambda>k x. take k x @ ''***'') s
        in case find_sub ''api.telegram.org/'' s of
             None \<Rightarrow> s
           | Some i \<Rightarrow>
               if contains_sub (drop i s) ''/'' then take i s @ ''api.telegram.org/***'' else s)"

section \<open>Runs\<close>

lemma match_at_None:
  "match_at front P least s = None \<longleftrightarrow>
   (\<forall>k. front s = Some k \<longrightarrow> snd (run_len P (drop k s)) < least)"
  by (auto simp: match_at_def split: option.splits prod.splits)

lemma match_at_Some:
  "match_at front P least s = Some (k, n) \<longleftrightarrow>
   front s = Some k \<and> n = k + fst (run_len P (drop k s)) \<and> least \<le> snd (run_len P (drop k s))"
  by (auto simp: match_at_def split: option.splits prod.splits)

lemma run_len_step:
  "run_len P s =
     (if class_step P s = 0 then (0, 0)
      else case run_len P (drop (class_step P s) s) of (b, r) \<Rightarrow> (b + class_step P s, r + 1))"
  by (subst run_len.simps) (simp add: Let_def)

abbreviation runs :: "(char \<Rightarrow> bool) \<Rightarrow> string \<Rightarrow> nat" where
  "runs P s \<equiv> snd (run_len P s)"

lemma runs_step:
  "runs P s = (if class_step P s = 0 then 0 else Suc (runs P (drop (class_step P s) s)))"
  by (subst run_len_step) (simp split: prod.split)

lemma runs_Cons: "P c \<Longrightarrow> runs P (c # s) = Suc (runs P s)"
  by (subst runs_step) (simp add: class_step_def)

lemma marks:
  "length long_s = 2" "length kelvin = 3" "has_prefix s long_s \<Longrightarrow> hd s = CHR 0xC5"
  "has_prefix s kelvin \<Longrightarrow> hd s = CHR 0xE2"
  by (auto simp: long_s_def kelvin_def has_prefix_iff)

lemma runs_stop: "\<not> P c \<Longrightarrow> c \<noteq> CHR 0xC5 \<Longrightarrow> c \<noteq> CHR 0xE2 \<Longrightarrow> runs P (c # s) = 0"
  using marks(3,4) [of "c # s"] by (subst runs_step) (auto simp: class_step_def)

lemma runs_map:
  "\<forall>c \<in> set w. P c \<Longrightarrow> runs P (w @ s) = length w + runs P s"
  by (induction w) (simp_all add: runs_Cons)

text \<open>What \<open>class_step\<close> looks at is a prefix.\<close>

lemma class_step_prefix:
  assumes "class_step P s \<noteq> 0"
  shows "class_step P s \<le> length s"
    "\<And>z. class_step P (take (class_step P s) s @ z) = class_step P s"
    "set (tl (take (class_step P s) s)) \<subseteq> set (tl long_s) \<union> set (tl kelvin)"
proof -
  consider (P) "s \<noteq> []" "P (hd s)" "class_step P s = 1"
    | (L) t where "s = long_s @ t" "\<not> P (hd long_s)" "class_step P s = 2"
    | (K) t where "s = kelvin @ t" "\<not> P (hd kelvin)" "class_step P s = 3"
    using assms marks(1,2)
    by (auto simp: class_step_def has_prefix_iff hd_append split: if_splits)
  then have "class_step P s \<le> length s \<and> (\<forall>z. class_step P (take (class_step P s) s @ z) = class_step P s) \<and>
      set (tl (take (class_step P s) s)) \<subseteq> set (tl long_s) \<union> set (tl kelvin)"
  proof cases
    case P
    then show ?thesis by (cases s) (simp_all add: class_step_def)
  next
    case (L t)
    have "long_s \<noteq> []" using marks(1) by auto
    with L marks(1) show ?thesis by (simp add: class_step_def)
  next
    case (K t)
    have k: "kelvin \<noteq> []" using marks(2) by auto
    have "hd kelvin \<noteq> CHR 0xC5" by (simp add: kelvin_def)
    then have "\<not> has_prefix (kelvin @ z) long_s" for z using marks(3) [of "kelvin @ z"] k by auto
    with K k marks(2) show ?thesis by (simp add: class_step_def)
  qed
  then show "class_step P s \<le> length s"
    "\<And>z. class_step P (take (class_step P s) s @ z) = class_step P s"
    "set (tl (take (class_step P s) s)) \<subseteq> set (tl long_s) \<union> set (tl kelvin)" by blast+
qed

lemma mark_chars: "CHR ''*'' \<notin> set (tl long_s) \<union> set (tl kelvin)"
  "{CHR ''b'', CHR ''B''} \<inter> (set (tl long_s) \<union> set (tl kelvin)) = {}"
  by (simp_all add: long_s_def kelvin_def)

text \<open>A text that stops earlier has a shorter run.\<close>

lemma runs_star:
  assumes "\<not> P (CHR ''*'')"
  shows "runs P (s @ CHR ''*'' # t) \<le> runs P (s @ u)"
proof (induction s rule: measure_induct_rule [of length])
  case (less s)
  let ?k = "class_step P (s @ CHR ''*'' # t)"
  show ?case
  proof (cases "?k = 0")
    case False
    have "?k \<le> length s"
    proof (rule ccontr)
      assume "\<not> ?k \<le> length s"
      then have l: "length s < ?k" by simp
      have "CHR ''*'' \<in> set (tl (take ?k (s @ CHR ''*'' # t))) \<or> s = []"
        using l by (cases s) (auto simp: take_Cons')
      moreover have "class_step P (CHR ''*'' # t) = 0"
        using runs_stop [where P = P, OF assms] runs_step [of P "CHR ''*'' # t"] by (simp split: if_splits)
      ultimately show False
        using class_step_prefix(3) [OF False] mark_chars(1) False by auto
    qed
    then have k: "class_step P (s @ u) = ?k" "drop ?k (s @ CHR ''*'' # t) = drop ?k s @ CHR ''*'' # t"
        "drop ?k (s @ u) = drop ?k s @ u"
      using class_step_prefix(2) [OF False, of "drop ?k s @ u"] by (simp_all flip: append_assoc)
    have "length (drop ?k s) < length s" using False \<open>?k \<le> length s\<close> by simp
    from less.IH [OF this] show ?thesis
      using False k by (subst (1 2) runs_step) simp
  qed (simp add: runs_step [of P "s @ CHR ''*'' # t"])
qed

lemma lower_char_code:
  "(of_char (lower_char c) :: nat) = (if in_range 65 90 (of_char c) then of_char c + 32 else of_char c)"
  by (auto simp: lower_char_def in_range_def)

lemma lower_char_b: "lower_char c = CHR ''b'' \<Longrightarrow> c \<in> {CHR ''b'', CHR ''B''}"
proof -
  assume "lower_char c = CHR ''b''"
  then have "(of_char c :: nat) = 98 \<or> (of_char c :: nat) = 66"
    using lower_char_code [of c] by (simp split: if_splits)
  then have "char_of (of_char c :: nat) = CHR ''b'' \<or> char_of (of_char c :: nat) = CHR ''B''"
    by (auto simp: char_of_def bit_0)
  then show ?thesis by simp
qed

lemma bot_front_hd: "bot_front (c # s) \<noteq> None \<Longrightarrow> c \<in> {CHR ''b'', CHR ''B''}"
  using lower_char_b [of c] by (simp add: bot_front_def Let_def split: if_splits)

lemma bearer_front_hd: "bearer_front (c # s) \<noteq> None \<Longrightarrow> c \<in> {CHR ''b'', CHR ''B''}"
  using lower_char_b [of c] by (simp add: bearer_front_def Let_def split: if_splits)

section \<open>Secrets do not come back\<close>

text \<open>A replacement of matches that start with a letter b by texts that do.\<close>

definition b_repl :: "(string \<Rightarrow> (nat \<times> nat) option) \<Rightarrow> (nat \<Rightarrow> string \<Rightarrow> string) \<Rightarrow> bool" where
  "b_repl m repl =
     (\<forall>s k n. m s = Some (k, n) \<longrightarrow> s \<noteq> [] \<and> hd s \<in> {CHR ''b'', CHR ''B''} \<and> repl k (take n s) \<noteq> [] \<and>
        hd (repl k (take n s)) \<in> {CHR ''b'', CHR ''B''})"

lemma replace_hd:
  assumes "b_repl m repl" "replace_all m repl x = c # y" "m x = None \<or> c \<notin> {CHR ''b'', CHR ''B''}"
  shows "\<exists>x'. x = c # x' \<and> y = replace_all m repl x'"
proof (cases x)
  case (Cons d s)
  show ?thesis
  proof (cases "m x")
    case (Some a)
    then obtain k n where a: "m x = Some (k, n)" by (cases a) simp
    then have "repl k (take n x) \<noteq> []" "hd (repl k (take n x)) \<in> {CHR ''b'', CHR ''B''}"
      using assms(1) by (auto simp: b_repl_def)
    moreover have "c # y = repl k (take n x) @ replace_all m repl (drop (n - 1) s)"
      using assms(2) a Cons by simp
    ultimately have "c \<in> {CHR ''b'', CHR ''B''}" by (metis hd_append2 list.sel(1))
    with assms(3) a show ?thesis by simp
  qed (use assms(2) Cons in simp)
qed (use assms(2) in simp)

lemma replace_prefix:
  assumes "b_repl m repl" "replace_all m repl x = p @ y" "m x = None"
    and "set (tl p) \<inter> {CHR ''b'', CHR ''B''} = {}" "p \<noteq> []"
  shows "\<exists>x'. x = p @ x' \<and> y = replace_all m repl x'"
proof -
  have rest: "\<exists>x'. x = p @ x' \<and> y = replace_all m repl x'"
    if "replace_all m repl x = p @ y" "set p \<inter> {CHR ''b'', CHR ''B''} = {}" for p x
    using that
  proof (induction p arbitrary: x)
    case (Cons c p)
    then obtain x' where "x = c # x'" "p @ y = replace_all m repl x'"
      using replace_hd [OF assms(1), of x c "p @ y"] by auto
    with Cons show ?case by (metis Cons_eq_appendI disjoint_insert(1) inf_commute list.simps(15))
  qed simp
  obtain c q where p: "p = c # q" using assms(5) by (cases p) auto
  then obtain x' where "x = c # x'" "q @ y = replace_all m repl x'"
    using replace_hd [OF assms(1), of x c "q @ y"] assms(2,3) by auto
  with rest [of x' q] assms(4) p show ?thesis by auto
qed

locale secret =
  fixes front :: "string \<Rightarrow> nat option" and P :: "char \<Rightarrow> bool" and least :: nat
    and gap :: "char \<Rightarrow> bool"
  assumes front_b: "front s = Some k \<Longrightarrow> s \<noteq> [] \<and> 0 < k \<and> k \<le> length s \<and>
      hd s \<in> {CHR ''b'', CHR ''B''} \<and> set (tl (take k s)) \<inter> {CHR ''b'', CHR ''B'', CHR ''*''} = {}"
    and front_stop: "front (p @ y) = Some (length p) \<Longrightarrow> y = [] \<or> \<not> gap (hd y)"
    and front_ext: "front (p @ y) = Some (length p) \<Longrightarrow> z = [] \<or> \<not> gap (hd z) \<Longrightarrow>
      front (p @ z) = Some (length p)"
    and letters: "\<not> gap CHR ''b''" "\<not> gap CHR ''B''" "\<not> gap CHR ''*''" "\<not> P CHR ''*''" "0 < least"
begin

abbreviation found :: "string \<Rightarrow> (nat \<times> nat) option" where
  "found \<equiv> match_at front P least"

definition clean :: "string \<Rightarrow> bool" where
  "clean s = (\<forall>u v. s = u @ v \<longrightarrow> found v = None)"

lemma found_Nil [simp]: "found [] = None"
  using front_b [of "[]"] by (auto simp: match_at_None)

lemma clean_Cons: "clean (c # s) \<longleftrightarrow> found (c # s) = None \<and> clean s"
proof
  assume c: "clean (c # s)"
  have "found v = None" if "s = u @ v" for u v
    using c that unfolding clean_def by (metis append_Cons)
  with c show "found (c # s) = None \<and> clean s" unfolding clean_def by blast
next
  assume "found (c # s) = None \<and> clean s"
  then show "clean (c # s)" unfolding clean_def by (metis append_eq_Cons_conv)
qed

lemma clean_Nil [simp]: "clean []"
  by (simp add: clean_def)

lemma runs_replace:
  assumes b: "b_repl m repl"
    and H: "\<And>s k n z. m s = Some (k, n) \<Longrightarrow> runs P (repl k (take n s) @ z) \<le> runs P s"
  shows "runs P (replace_all m repl x) \<le> runs P x"
proof (induction x rule: measure_induct_rule [of length])
  case (less x)
  let ?r = "replace_all m repl"
  show ?case
  proof (cases "m x")
    case (Some a)
    then obtain k n where "m x = Some (k, n)" by (cases a) simp
    with H [of x k n] b show ?thesis by (cases x) (auto simp: b_repl_def)
  next
    case None
    let ?k = "class_step P (?r x)"
    show ?thesis
    proof (cases "?k = 0")
      case False
      let ?p = "take ?k (?r x)"
      have "?p \<noteq> []" using False by (auto simp: class_step_def)
      moreover have "set (tl ?p) \<inter> {CHR ''b'', CHR ''B''} = {}"
        using class_step_prefix(3) [OF False] mark_chars(2) by blast
      ultimately obtain x' where x: "x = ?p @ x'" "drop ?k (?r x) = ?r x'"
        using replace_prefix [OF b _ None, of ?p "drop ?k (?r x)"] by auto
      have l: "length ?p = ?k" using class_step_prefix(1) [OF False] by simp
      have k: "class_step P x = ?k" using class_step_prefix(2) [OF False, of x'] x(1) by metis
      have "drop ?k x = x'" using x(1) l by (metis append_eq_conv_conj)
      moreover have "length x' < length x" using x(1) \<open>?p \<noteq> []\<close> by (metis add_gr_0 length_append length_greater_0_conv less_add_same_cancel2)
      ultimately show ?thesis
        using less.IH [of x'] False k x(2) runs_step [of P x] runs_step [of P "?r x"] by simp
    qed (simp add: runs_step [of P "?r x"])
  qed
qed

lemma found_replace:
  assumes b: "b_repl m repl"
    and H: "\<And>s k n z. m s = Some (k, n) \<Longrightarrow> runs P (repl k (take n s) @ z) \<le> runs P s"
    and m: "m x = None" and f: "found x = None"
  shows "found (replace_all m repl x) = None"
proof (rule ccontr)
  let ?r = "replace_all m repl"
  assume "found (?r x) \<noteq> None"
  then obtain k where k: "front (?r x) = Some k" "least \<le> runs P (drop k (?r x))"
    by (auto simp: match_at_None not_less)
  let ?p = "take k (?r x)"
  note fb = front_b [OF k(1)]
  have p: "?p \<noteq> []" "set (tl ?p) \<inter> {CHR ''b'', CHR ''B''} = {}" "length ?p = k"
    using fb by auto
  obtain x' where x: "x = ?p @ x'" "drop k (?r x) = ?r x'"
    using replace_prefix [OF b _ m p(2,1), of "drop k (?r x)"] by auto
  have fr: "front (?p @ ?r x') = Some (length ?p)" using k(1) p(3) x(2) by (metis append_take_drop_id)
  have "x' = [] \<or> \<not> gap (hd x')"
  proof (cases x')
    case (Cons c s)
    show ?thesis
    proof (cases "m x'")
      case None
      then have "hd (?r x') = c" "?r x' \<noteq> []" using Cons by simp_all
      with front_stop [OF fr] Cons show ?thesis by simp
    next
      case (Some a)
      then obtain k n where a: "m x' = Some (k, n)" by (cases a) simp
      then have "hd x' \<in> {CHR ''b'', CHR ''B''}" using b by (auto simp: b_repl_def)
      with letters(1,2) show ?thesis by auto
    qed
  qed simp
  from front_ext [OF fr this] have "front x = Some k" using x(1) p(3) by metis
  moreover have "drop k x = x'" using x(1) p(3) by (metis append_eq_conv_conj)
  moreover have "least \<le> runs P x'"
    using k(2) x(2) runs_replace [OF b H, of x'] by simp
  ultimately show False using f by (auto simp: match_at_None)
qed

lemma clean_append:
  "clean z \<Longrightarrow> (\<And>u w. R = u @ w \<Longrightarrow> w \<noteq> [] \<Longrightarrow> found (w @ z) = None) \<Longrightarrow> clean (R @ z)"
proof (induction R)
  case (Cons c R)
  have "clean (R @ z)"
    using Cons.IH [OF Cons.prems(1)] Cons.prems(2) by (metis append_Cons)
  moreover have "found ((c # R) @ z) = None" using Cons.prems(2) [of "[]" "c # R"] by simp
  ultimately show ?case by (simp add: clean_Cons)
qed simp

lemma replace_clean:
  assumes b: "b_repl m repl"
    and H: "\<And>s k n z. m s = Some (k, n) \<Longrightarrow> runs P (repl k (take n s) @ z) \<le> runs P s"
    and R: "\<And>s k n u w z. m s = Some (k, n) \<Longrightarrow> repl k (take n s) = u @ w \<Longrightarrow> w \<noteq> [] \<Longrightarrow> found (w @ z) = None"
    and M: "\<And>u v. x = u @ v \<Longrightarrow> m v = None \<Longrightarrow> found v = None"
  shows "clean (replace_all m repl x)"
  using M
proof (induction x rule: measure_induct_rule [of length])
  case (less x)
  show ?case
  proof (cases x)
    case (Cons c s)
    show ?thesis
    proof (cases "m x")
      case None
      have "found v = None" if "s = u @ v" "m v = None" for u v
        using less.prems [of "c # u" v] that Cons by simp
      then have "clean (replace_all m repl s)" using less.IH [of s] Cons by simp
      moreover have "found (replace_all m repl x) = None"
        using found_replace [OF b H None] less.prems [of "[]" x] None by simp
      ultimately show ?thesis using Cons None by (simp add: clean_Cons)
    next
      case (Some a)
      then obtain k n where a: "m x = Some (k, n)" by (cases a) simp
      let ?s = "drop (n - 1) s"
      have x: "x = (c # take (n - 1) s) @ ?s" using Cons by simp
      have "found v = None" if "?s = u @ v" "m v = None" for u v
      proof -
        have "x = ((c # take (n - 1) s) @ u) @ v" using x that(1) by (metis append_assoc)
        with less.prems that(2) show ?thesis by blast
      qed
      then have "clean (replace_all m repl ?s)" using less.IH [of ?s] Cons by simp
      then have "clean (repl k (take n x) @ replace_all m repl ?s)"
        using R [OF a] by (rule clean_append)
      then show ?thesis using a Cons by simp
    qed
  qed simp
qed

text \<open>Cutting a text and closing it with stars.\<close>

lemma found_cut:
  assumes "found (w @ CHR ''*'' # z) \<noteq> None"
  shows "found (w @ y) \<noteq> None"
proof -
  obtain k where k: "front (w @ CHR ''*'' # z) = Some k"
    "least \<le> runs P (drop k (w @ CHR ''*'' # z))"
    using assms by (auto simp: match_at_None not_less)
  note fb = front_b [OF k(1)]
  have "w \<noteq> []" using fb by (cases w) auto
  have "k \<le> length w"
  proof (rule ccontr)
    assume "\<not> k \<le> length w"
    then have "CHR ''*'' \<in> set (tl (take k (w @ CHR ''*'' # z)))"
      using \<open>w \<noteq> []\<close> by (cases w) (auto simp: take_Cons')
    with fb show False by blast
  qed
  let ?p = "take k w" and ?q = "drop k w"
  have l: "length ?p = k" using \<open>k \<le> length w\<close> by simp
  have f: "front (?p @ ?q @ CHR ''*'' # z) = Some (length ?p)" using k(1) l by (simp flip: append_assoc)
  have "?q @ y = [] \<or> \<not> gap (hd (?q @ y)) \<or> ?q = []"
    using front_stop [OF f] by (cases ?q) auto
  have r: "least \<le> runs P (?q @ y)"
    using k(2) \<open>k \<le> length w\<close> runs_star [where P = P, OF letters(4), of ?q z y] by simp
  have "?q \<noteq> []"
    using k(2) \<open>k \<le> length w\<close> letters(5) runs_star [where P = P, OF letters(4), of "[]" z "[]"]
    by (auto simp: runs_step [of P "[]"] class_step_def)
  then have "\<not> gap (hd (?q @ y))" using front_stop [OF f] by (cases ?q) auto
  with front_ext [OF f, of "?q @ y"] have "front (?p @ ?q @ y) = Some k" using l by auto
  moreover have "?p @ ?q @ y = w @ y" by (metis append_assoc append_take_drop_id)
  ultimately have "front (w @ y) = Some k" by simp
  with r show ?thesis using \<open>k \<le> length w\<close> by (auto simp: match_at_None not_less)
qed

lemma found_hd: "w = [] \<or> hd w \<notin> {CHR ''b'', CHR ''B''} \<Longrightarrow> found w = None"
  using front_b by (auto simp: match_at_None)

text \<open>Nothing starts inside a replacement: its first letter is not followed as it should be, and
  the others are no letters b.\<close>

lemma found_inside:
  assumes "R = u @ w" "w \<noteq> []" "set (tl R) \<inter> {CHR ''b'', CHR ''B''} = {}"
    and "found (R @ z) = None"
  shows "found (w @ z) = None"
proof (cases u)
  case (Cons c v)
  then have "set w \<subseteq> set (tl R)" using assms(1) by auto
  then have "hd (w @ z) \<notin> {CHR ''b'', CHR ''B''}" using assms(2,3) by (cases w) auto
  then show ?thesis by (intro found_hd disjI2)
qed (use assms in simp)

lemma clean_cut:
  assumes "clean (p @ y)"
  shows "clean (p @ ''***'')"
proof (rule clean_append)
  show "clean ''***''" by (simp add: clean_Cons found_hd)
  show "found (w @ ''***'') = None" if "p = u @ w" "w \<noteq> []" for u w
    using assms that found_cut [of w "''**''" y] unfolding clean_def by fastforce
qed

end

section \<open>The two expressions are such patterns\<close>

lemma lower_char_inv: "lower_char c = d \<Longrightarrow> c = d \<or> c = char_of (of_char d - 32 :: nat)"
  using lower_char_code [of c] by (auto split: if_splits)

lemma other_letters: "lower_char c \<notin> {CHR ''b'', CHR ''*''} \<Longrightarrow> c \<notin> {CHR ''b'', CHR ''B'', CHR ''*''}"
  by (auto simp: lower_char_def in_range_def char_of_def bit_0)

lemma lower_token: "token_char (lower_char c) \<Longrightarrow> token_char c"
  by (cases "in_range 65 90 (of_char c :: nat)")
    (simp_all add: lower_char_def token_char_def alpha_num_def)

text \<open>A front: fixed letters, then a run of a class, then perhaps a colon.\<close>

lemma takeWhile_stop:
  "(\<forall>c \<in> set ds. Q c) \<Longrightarrow> r = [] \<or> \<not> Q (hd r) \<Longrightarrow> takeWhile Q (ds @ r) = ds"
  by (induction ds) (cases r; auto)+

lemma bot_front_form:
  "bot_front s = Some k \<longleftrightarrow>
   (\<exists>w ds r. s = w @ ds @ CHR '':'' # r \<and> k = 4 + length ds \<and> ds \<noteq> [] \<and>
      map lower_char w = ''bot'' \<and> (\<forall>c \<in> set ds. digit_char_set c))"
proof
  let ?d = "takeWhile digit_char_set (drop 3 s)"
  assume k: "bot_front s = Some k"
  then have h: "map lower_char (take 3 s) = ''bot''" "?d \<noteq> []" "k = 4 + length ?d"
    "has_prefix (drop (3 + length ?d) s) '':''"
    by (simp_all add: bot_front_def Let_def split: if_splits)
  then obtain r where r: "drop (length ?d) (drop 3 s) = CHR '':'' # r"
    by (auto simp: has_prefix_iff add.commute)
  have "drop 3 s = ?d @ CHR '':'' # r"
    using r by (metis dropWhile_eq_drop takeWhile_dropWhile_id)
  then have e: "s = take 3 s @ ?d @ CHR '':'' # r" by (metis append_take_drop_id)
  show "\<exists>w ds r. s = w @ ds @ CHR '':'' # r \<and> k = 4 + length ds \<and> ds \<noteq> [] \<and>
      map lower_char w = ''bot'' \<and> (\<forall>c \<in> set ds. digit_char_set c)"
    by (intro exI [of _ "take 3 s"] exI [of _ ?d] exI [of _ r] conjI e h ballI) (drule set_takeWhileD, simp)
next
  assume "\<exists>w ds r. s = w @ ds @ CHR '':'' # r \<and> k = 4 + length ds \<and> ds \<noteq> [] \<and>
      map lower_char w = ''bot'' \<and> (\<forall>c \<in> set ds. digit_char_set c)"
  then obtain w ds r where s: "s = w @ ds @ CHR '':'' # r" "k = 4 + length ds" "ds \<noteq> []"
    "map lower_char w = ''bot''" "\<forall>c \<in> set ds. digit_char_set c"
    by (elim exE conjE) (rule that)
  have w: "length w = 3" using arg_cong [OF s(4), of length] by simp
  have "takeWhile digit_char_set (drop 3 s) = ds"
  proof -
    have "\<not> digit_char_set CHR '':''" by (simp add: digit_char_set_def in_range_def)
    then show ?thesis using takeWhile_stop [OF s(5), of "CHR '':'' # r"] w s(1) by simp
  qed
  then show "bot_front s = Some k"
    using s w by (simp add: bot_front_def Let_def has_prefix_iff)
qed

lemma bearer_front_form:
  "bearer_front s = Some k \<longleftrightarrow>
   (\<exists>w ds r. s = w @ ds @ r \<and> k = 6 + length ds \<and> ds \<noteq> [] \<and>
      map lower_char w = ''bearer'' \<and> (\<forall>c \<in> set ds. space_char_set c) \<and> (r = [] \<or> \<not> space_char_set (hd r)))"
proof
  let ?d = "takeWhile space_char_set (drop 6 s)" and ?r = "dropWhile space_char_set (drop 6 s)"
  assume "bearer_front s = Some k"
  then have h: "map lower_char (take 6 s) = ''bearer''" "?d \<noteq> []" "k = 6 + length ?d"
    by (simp_all add: bearer_front_def Let_def split: if_splits)
  have e: "s = take 6 s @ ?d @ ?r" by simp
  have r: "?r = [] \<or> \<not> space_char_set (hd ?r)" using hd_dropWhile by blast
  show "\<exists>w ds r. s = w @ ds @ r \<and> k = 6 + length ds \<and> ds \<noteq> [] \<and>
      map lower_char w = ''bearer'' \<and> (\<forall>c \<in> set ds. space_char_set c) \<and> (r = [] \<or> \<not> space_char_set (hd r))"
    by (intro exI [of _ "take 6 s"] exI [of _ ?d] exI [of _ ?r] conjI e h r ballI) (drule set_takeWhileD, simp)
next
  assume "\<exists>w ds r. s = w @ ds @ r \<and> k = 6 + length ds \<and> ds \<noteq> [] \<and>
      map lower_char w = ''bearer'' \<and> (\<forall>c \<in> set ds. space_char_set c) \<and> (r = [] \<or> \<not> space_char_set (hd r))"
  then obtain w ds r where s: "s = w @ ds @ r" "k = 6 + length ds" "ds \<noteq> []"
    "map lower_char w = ''bearer''" "\<forall>c \<in> set ds. space_char_set c" "r = [] \<or> \<not> space_char_set (hd r)"
    by (elim exE conjE) (rule that)
  have w: "length w = 6" using arg_cong [OF s(4), of length] by simp
  have "takeWhile space_char_set (drop 6 s) = ds"
    using takeWhile_stop [OF s(5,6)] w s(1) by simp
  then show "bearer_front s = Some k" using s w by (simp add: bearer_front_def Let_def)
qed

lemma front_letters:
  "map lower_char w = ''bot'' \<Longrightarrow> w \<noteq> [] \<and> hd w \<in> {CHR ''b'', CHR ''B''} \<and>
     set (tl w) \<inter> {CHR ''b'', CHR ''B'', CHR ''*''} = {}"
  "map lower_char w = ''bearer'' \<Longrightarrow> w \<noteq> [] \<and> hd w \<in> {CHR ''b'', CHR ''B''} \<and>
     set (tl w) \<inter> {CHR ''b'', CHR ''B'', CHR ''*''} = {}"
proof -
  have *: "w \<noteq> [] \<and> hd w \<in> {CHR ''b'', CHR ''B''} \<and> set (tl w) \<inter> {CHR ''b'', CHR ''B'', CHR ''*''} = {}"
    if m: "map lower_char w = CHR ''b'' # v" and d: "set v \<inter> {CHR ''b'', CHR ''*''} = {}" for v
  proof -
    obtain c u where w: "w = c # u" "lower_char c = CHR ''b''" "map lower_char u = v"
      using m by (cases w) auto
    have "c \<in> {CHR ''b'', CHR ''B''}" using lower_char_b [OF w(2)] .
    moreover have "set u \<inter> {CHR ''b'', CHR ''B'', CHR ''*''} = {}"
    proof (rule equals0I)
      fix x assume x: "x \<in> set u \<inter> {CHR ''b'', CHR ''B'', CHR ''*''}"
      then have "lower_char x \<in> set v" using w(3) by auto
      then have "lower_char x \<notin> {CHR ''b'', CHR ''*''}" using d by blast
      from other_letters [OF this] x show False by blast
    qed
    ultimately show ?thesis using w(1) by simp
  qed
  show "map lower_char w = ''bot'' \<Longrightarrow> w \<noteq> [] \<and> hd w \<in> {CHR ''b'', CHR ''B''} \<and>
      set (tl w) \<inter> {CHR ''b'', CHR ''B'', CHR ''*''} = {}"
    by (rule * [of "''ot''"]) simp_all
  show "map lower_char w = ''bearer'' \<Longrightarrow> w \<noteq> [] \<and> hd w \<in> {CHR ''b'', CHR ''B''} \<and>
      set (tl w) \<inter> {CHR ''b'', CHR ''B'', CHR ''*''} = {}"
    by (rule * [of "''earer''"]) simp_all
qed

lemma bot_token: "map lower_char w = ''bot'' \<Longrightarrow> \<forall>c \<in> set w. token_char c"
proof -
  assume w: "map lower_char w = ''bot''"
  have "\<forall>c \<in> set (map lower_char w). token_char c"
    unfolding w by (simp add: token_char_def alpha_num_def in_range_def)
  then show ?thesis using lower_token by auto
qed

lemma gap_letters:
  "digit_char_set c \<Longrightarrow> c \<notin> {CHR ''b'', CHR ''B'', CHR ''*''}"
  "space_char_set c \<Longrightarrow> c \<notin> {CHR ''b'', CHR ''B'', CHR ''*''}"
  by (auto simp: digit_char_set_def space_char_set_def in_range_def)

lemma bot_front_bot:
  "bot_front (p @ y) = Some (length p) \<Longrightarrow> bot_front (p @ z) = Some (length p)"
proof -
  assume "bot_front (p @ y) = Some (length p)"
  then obtain w ds r where s: "p @ y = w @ ds @ CHR '':'' # r" "length p = 4 + length ds" "ds \<noteq> []"
    "map lower_char w = ''bot''" "\<forall>c \<in> set ds. digit_char_set c"
    unfolding bot_front_form by (elim exE conjE) (rule that)
  have "length w = 3" using arg_cong [OF s(4), of length] by simp
  then have l: "length p = length (w @ ds @ '':'')" using s(2) by simp
  have "p @ y = (w @ ds @ '':'') @ r" using s(1) by simp
  with l have "p = w @ ds @ '':''" by (metis append_eq_append_conv)
  then have e: "p @ z = w @ ds @ CHR '':'' # z" by simp
  show "bot_front (p @ z) = Some (length p)"
    unfolding bot_front_form by (intro exI conjI) (rule e s(2-5))+
qed

lemma bearer_front_bearer:
  "bearer_front (p @ y) = Some (length p) \<Longrightarrow>
   (y = [] \<or> \<not> space_char_set (hd y)) \<and>
   (z = [] \<or> \<not> space_char_set (hd z) \<longrightarrow> bearer_front (p @ z) = Some (length p))"
proof -
  assume "bearer_front (p @ y) = Some (length p)"
  then obtain w ds r where s: "p @ y = w @ ds @ r" "length p = 6 + length ds" "ds \<noteq> []"
    "map lower_char w = ''bearer''" "\<forall>c \<in> set ds. space_char_set c" "r = [] \<or> \<not> space_char_set (hd r)"
    unfolding bearer_front_form by (elim exE conjE) (rule that)
  have "length w = 6" using arg_cong [OF s(4), of length] by simp
  then have l: "length p = length (w @ ds)" using s(2) by simp
  have "p @ y = (w @ ds) @ r" using s(1) by simp
  with l have p: "p = w @ ds" "y = r" by (metis append_eq_append_conv)+
  have "bearer_front (p @ z) = Some (length p)" if z: "z = [] \<or> \<not> space_char_set (hd z)"
  proof -
    have e: "p @ z = w @ ds @ z" using p by simp
    show ?thesis unfolding bearer_front_form by (intro exI conjI) (rule e s(2-5) z)+
  qed
  with p s(6) show ?thesis by simp
qed

lemma bot_front_prefix: "bot_front s = Some k \<Longrightarrow> s \<noteq> [] \<and> 0 < k \<and> k \<le> length s \<and>
    hd s \<in> {CHR ''b'', CHR ''B''} \<and> set (tl (take k s)) \<inter> {CHR ''b'', CHR ''B'', CHR ''*''} = {}"
proof -
  assume "bot_front s = Some k"
  then obtain w ds r where s: "s = w @ ds @ CHR '':'' # r" "k = 4 + length ds" "ds \<noteq> []"
    "map lower_char w = ''bot''" "\<forall>c \<in> set ds. digit_char_set c"
    unfolding bot_front_form by (elim exE conjE) (rule that)
  have l: "length w = 3" using arg_cong [OF s(4), of length] by simp
  have t: "take k s = w @ ds @ '':''" using s(1,2) l by simp
  note w = front_letters(1) [OF s(4)]
  have "set ds \<inter> {CHR ''b'', CHR ''B'', CHR ''*''} = {}" using s(5) gap_letters(1) by blast
  then have "set (tl (take k s)) \<inter> {CHR ''b'', CHR ''B'', CHR ''*''} = {}"
    using w by (simp add: t)
  with w s(1,2) l show ?thesis by simp
qed

lemma bearer_front_prefix: "bearer_front s = Some k \<Longrightarrow> s \<noteq> [] \<and> 0 < k \<and> k \<le> length s \<and>
    hd s \<in> {CHR ''b'', CHR ''B''} \<and> set (tl (take k s)) \<inter> {CHR ''b'', CHR ''B'', CHR ''*''} = {}"
proof -
  assume "bearer_front s = Some k"
  then obtain w ds r where s: "s = w @ ds @ r" "k = 6 + length ds" "ds \<noteq> []"
    "map lower_char w = ''bearer''" "\<forall>c \<in> set ds. space_char_set c"
    unfolding bearer_front_form by (elim exE conjE) (rule that)
  have l: "length w = 6" using arg_cong [OF s(4), of length] by simp
  have t: "take k s = w @ ds" using s(1,2) l by simp
  note w = front_letters(2) [OF s(4)]
  have "set ds \<inter> {CHR ''b'', CHR ''B'', CHR ''*''} = {}" using s(5) gap_letters(2) by blast
  then have "set (tl (take k s)) \<inter> {CHR ''b'', CHR ''B'', CHR ''*''} = {}"
    using w by (simp add: t)
  with w s(1,2) l show ?thesis by simp
qed

lemma stars: "\<not> token_char CHR ''*''" "\<not> bearer_char CHR ''*''" "\<not> space_char_set CHR ''*''"
    "\<not> space_char_set CHR ''b''" "\<not> space_char_set CHR ''B''"
  by (simp_all add: token_char_def bearer_char_def alpha_num_def in_range_def space_char_set_def)

interpretation bot: secret bot_front token_char 20 "\<lambda>_. False"
  by unfold_locales (use bot_front_prefix stars in \<open>auto intro: bot_front_bot\<close>)

interpretation bearer: secret bearer_front bearer_char 8 space_char_set
proof
  fix p y z :: string
  assume b: "bearer_front (p @ y) = Some (length p)"
  show "y = [] \<or> \<not> space_char_set (hd y)" using bearer_front_bearer [OF b] by (rule conjunct1)
  assume "z = [] \<or> \<not> space_char_set (hd z)"
  with bearer_front_bearer [OF b, of z] show "bearer_front (p @ z) = Some (length p)" by blast
qed (rule bearer_front_prefix, assumption, simp_all add: stars)

section \<open>The phases\<close>

lemma runs_bot_stars: "runs token_char (''bot***:***'' @ z) = 3"
proof -
  have "\<forall>c \<in> set ''bot''. token_char c" by (simp add: token_char_def alpha_num_def in_range_def)
  from runs_map [OF this, of "''***:***'' @ z"] runs_stop [where P = token_char, OF stars(1), of "''**:***'' @ z"]
  show ?thesis by simp
qed

lemma bot_runs: "bot_front s = Some k \<Longrightarrow> 3 \<le> runs token_char s"
proof -
  assume "bot_front s = Some k"
  then obtain w r where s: "s = w @ r" "map lower_char w = ''bot''"
    unfolding bot_front_form by (elim exE conjE) (rule that)
  have "length w = 3" using arg_cong [OF s(2), of length] by simp
  with runs_map [OF bot_token [OF s(2)], of r] s(1) show ?thesis by simp
qed

lemma bot_phase: "bot.clean (replace_all bot_match (\<lambda>k x. ''bot***:***'') s)"
proof (rule bot.replace_clean)
  show "b_repl bot_match (\<lambda>k x. ''bot***:***'')"
    using bot_front_prefix by (auto simp: b_repl_def bot_match_def match_at_Some)
  show "runs token_char (''bot***:***'' @ z) \<le> runs token_char s" if "bot_match s = Some (k, n)" for s k n z
    using that bot_runs unfolding runs_bot_stars bot_match_def match_at_Some by blast
  show "bot.found (w @ z) = None" if "''bot***:***'' = u @ w" "w \<noteq> []" for u w z
  proof (rule bot.found_inside [OF that])
    show "bot.found (''bot***:***'' @ z) = None"
      by (simp add: match_at_None bot_front_def digit_char_set_def in_range_def)
  qed simp
qed (simp add: bot_match_def)

lemma bearer_match_Some:
  assumes "bearer_match s = Some (k, n)"
  shows "bearer_front s = Some k" "k \<le> length s" "min k n = k"
    "bearer_front (take k s @ ''***'' @ z) = Some k"
proof -
  have f: "bearer_front s = Some k" "n = k + fst (run_len bearer_char (drop k s))"
    using assms by (simp_all add: bearer_match_def match_at_Some)
  then show "bearer_front s = Some k" "k \<le> length s" "min k n = k"
    using bearer_front_prefix [OF f(1)] by simp_all
  have "bearer_front (take k s @ drop k s) = Some (length (take k s))"
    using f bearer_front_prefix [OF f(1)] by simp
  from bearer_front_bearer [OF this, of "''***'' @ z"] stars(3)
  show "bearer_front (take k s @ ''***'' @ z) = Some k"
    using bearer_front_prefix [OF f(1)] by simp
qed

lemma bearer_repl_runs:
  assumes "bearer_match s = Some (k, n)" "\<not> P CHR ''*''"
  shows "runs P ((take k (take n s) @ ''***'') @ z) \<le> runs P s"
  using runs_star [where P = P, OF assms(2), of "take k s" "''**'' @ z" "drop k s"]
  by (simp add: bearer_match_Some(3) [OF assms(1)])

lemma b_repl_bearer: "b_repl bearer_match (\<lambda>k x. take k x @ ''***'')"
  unfolding b_repl_def
proof (intro allI impI)
  fix s k n
  assume m: "bearer_match s = Some (k, n)"
  note f = bearer_match_Some [OF m] bearer_front_prefix [OF bearer_match_Some(1) [OF m]]
  then have "take k s \<noteq> []" by auto
  then show "s \<noteq> [] \<and> hd s \<in> {CHR ''b'', CHR ''B''} \<and> take k (take n s) @ ''***'' \<noteq> [] \<and>
      hd (take k (take n s) @ ''***'') \<in> {CHR ''b'', CHR ''B''}"
    using f by (simp add: hd_append)
qed

lemma bearer_repl_tl:
  assumes "bearer_match s = Some (k, n)"
  shows "set (tl (take k (take n s) @ ''***'')) \<inter> {CHR ''b'', CHR ''B''} = {}"
proof -
  note f = bearer_match_Some [OF assms] bearer_front_prefix [OF bearer_match_Some(1) [OF assms]]
  then have "take k s \<noteq> []" "set (tl (take k s)) \<inter> {CHR ''b'', CHR ''B''} = {}" by auto
  then show ?thesis by (simp add: f(3))
qed

lemma bearer_not_bot: "bearer_front s = Some k \<Longrightarrow> bot_front s = None"
proof -
  assume "bearer_front s = Some k"
  then have "map lower_char (take 6 s) = ''bearer''" by (simp add: bearer_front_def Let_def split: if_splits)
  from arg_cong [OF this, of "take 3"] have "map lower_char (take 3 s) = ''bea''" by (simp add: take_map)
  then show ?thesis by (simp add: bot_front_def)
qed

lemma bearer_phase:
  "bot.clean s \<Longrightarrow> bot.clean (replace_all bearer_match (\<lambda>k x. take k x @ ''***'') s)"
  "bearer.clean (replace_all bearer_match (\<lambda>k x. take k x @ ''***'') s)"
proof -
  assume c: "bot.clean s"
  show "bot.clean (replace_all bearer_match (\<lambda>k x. take k x @ ''***'') s)"
  proof (rule bot.replace_clean [OF b_repl_bearer])
    show "runs token_char ((take k (take n t) @ ''***'') @ z) \<le> runs token_char t"
      if "bearer_match t = Some (k, n)" for t k n z using bearer_repl_runs [OF that] stars(1) by blast
    show "bot.found (w @ z) = None"
      if "bearer_match t = Some (k, n)" "take k (take n t) @ ''***'' = u @ w" "w \<noteq> []" for t k n u w z
    proof (rule bot.found_inside [OF that(2,3) bearer_repl_tl [OF that(1)]])
      from bearer_match_Some(3,4) [OF that(1)]
      have "bearer_front ((take k (take n t) @ ''***'') @ z) = Some k" by simp
      then show "bot.found ((take k (take n t) @ ''***'') @ z) = None"
        by (simp add: match_at_None bearer_not_bot)
    qed
    show "bot.found v = None" if "s = u @ v" for u v using c that unfolding bot.clean_def by blast
  qed
next
  show "bearer.clean (replace_all bearer_match (\<lambda>k x. take k x @ ''***'') s)"
  proof (rule bearer.replace_clean [OF b_repl_bearer])
    show "runs bearer_char ((take k (take n t) @ ''***'') @ z) \<le> runs bearer_char t"
      if "bearer_match t = Some (k, n)" for t k n z using bearer_repl_runs [OF that] stars(2) by blast
    show "bearer.found (w @ z) = None"
      if "bearer_match t = Some (k, n)" "take k (take n t) @ ''***'' = u @ w" "w \<noteq> []" for t k n u w z
    proof (rule bearer.found_inside [OF that(2,3) bearer_repl_tl [OF that(1)]])
      note f = bearer_match_Some [OF that(1)]
      have "runs bearer_char (''***'' @ z) = 0"
        using runs_stop [where P = bearer_char, OF stars(2), of "''**'' @ z"] by simp
      with f show "bearer.found ((take k (take n t) @ ''***'') @ z) = None"
        by (simp add: match_at_None)
    qed
  qed (simp add: bearer_match_def)
qed

lemma redact_clean: "bot.clean (redact_secrets s)" "bearer.clean (redact_secrets s)"
proof -
  let ?x = "replace_all bearer_match (\<lambda>k x. take k x @ ''***'')
      (replace_all bot_match (\<lambda>k x. ''bot***:***'') s)"
  have c: "bot.clean ?x" "bearer.clean ?x" by (rule bearer_phase bot_phase)+
  show "bot.clean (redact_secrets s)" "bearer.clean (redact_secrets s)"
  proof -
    have "bot.clean (redact_secrets s) \<and> bearer.clean (redact_secrets s)"
    proof (cases "find_sub ''api.telegram.org/'' ?x")
      case (Some i)
      from find_sub_Some [OF this] obtain t where
        t: "?x = (take i ?x @ ''api.telegram.org/'') @ t" by auto
      have "bot.clean ((take i ?x @ ''api.telegram.org/'') @ ''***'')"
        "bearer.clean ((take i ?x @ ''api.telegram.org/'') @ ''***'')"
        using c t bot.clean_cut bearer.clean_cut by metis+
      with c Some show ?thesis by (simp add: redact_secrets_def Let_def)
    qed (use c in \<open>simp add: redact_secrets_def Let_def\<close>)
    then show "bot.clean (redact_secrets s)" "bearer.clean (redact_secrets s)" by simp_all
  qed
qed

section \<open>Credentials\<close>

text \<open>What a credential looks like, stated apart from the expressions: \<open>bot\<close>, digits, a colon and 20
  characters of a token; \<open>bearer\<close>, white space and 8 characters of a token; in any case.\<close>

definition token_letters :: string where
  "token_letters = ''ABCDEFGHIJKLMNOPQRSTUVWXYZabcdefghijklmnopqrstuvwxyz0123456789_-''"

definition bot_credential :: "string \<Rightarrow> bool" where
  "bot_credential x =
     (\<exists>w ds tok. x = w @ ds @ '':'' @ tok \<and> map lower_char w = ''bot'' \<and> ds \<noteq> [] \<and> set ds \<subseteq> set ''0123456789'' \<and>
        length tok = 20 \<and> set tok \<subseteq> set token_letters)"

definition bearer_credential :: "string \<Rightarrow> bool" where
  "bearer_credential x =
     (\<exists>w sp tok. x = w @ sp @ tok \<and> map lower_char w = ''bearer'' \<and> sp \<noteq> [] \<and>
        set sp \<subseteq> {CHR '' '', CHR 0x09, CHR 0x0A, CHR 0x0C, CHR 0x0D} \<and>
        length tok = 8 \<and> set tok \<subseteq> set (token_letters @ ''.+=/''))"

lemma credential_letters:
  "c \<in> set token_letters \<Longrightarrow> token_char c" "c \<in> set ''0123456789'' \<Longrightarrow> digit_char_set c"
  "c \<in> set (token_letters @ ''.+=/'') \<Longrightarrow> bearer_char c \<and> \<not> space_char_set c"
proof -
  have "list_all token_char token_letters" by code_simp
  then show "c \<in> set token_letters \<Longrightarrow> token_char c" unfolding list_all_iff by blast
  have "list_all digit_char_set ''0123456789''" by code_simp
  then show "c \<in> set ''0123456789'' \<Longrightarrow> digit_char_set c" unfolding list_all_iff by blast
  have "list_all (\<lambda>c. bearer_char c \<and> \<not> space_char_set c) (token_letters @ ''.+=/'')" by code_simp
  then show "c \<in> set (token_letters @ ''.+=/'') \<Longrightarrow> bearer_char c \<and> \<not> space_char_set c"
    unfolding list_all_iff by blast
qed

lemma bot_credential_found:
  assumes "bot_credential x"
  shows "bot.found (x @ v) \<noteq> None"
proof -
  from assms obtain w ds tok where x: "x = w @ ds @ '':'' @ tok" "map lower_char w = ''bot''" "ds \<noteq> []"
    "set ds \<subseteq> set ''0123456789''" "length tok = 20" "set tok \<subseteq> set token_letters"
    unfolding bot_credential_def by (elim exE conjE) (rule that)
  have f: "bot_front (x @ v) = Some (4 + length ds)"
    unfolding bot_front_form
    by (intro exI [of _ w] exI [of _ ds] exI [of _ "tok @ v"] conjI ballI)
      (use x credential_letters(2) in auto)
  have "length w = 3" using arg_cong [OF x(2), of length] by simp
  then have "drop (4 + length ds) (x @ v) = tok @ v" by (simp add: x(1))
  moreover have "20 \<le> runs token_char (tok @ v)"
    using x(5,6) credential_letters(1) by (subst runs_map) auto
  ultimately show ?thesis using f by (auto simp: match_at_None)
qed

lemma bearer_credential_found:
  assumes "bearer_credential x"
  shows "bearer.found (x @ v) \<noteq> None"
proof -
  from assms obtain w ds tok where x: "x = w @ ds @ tok" "map lower_char w = ''bearer''" "ds \<noteq> []"
    "set ds \<subseteq> {CHR '' '', CHR 0x09, CHR 0x0A, CHR 0x0C, CHR 0x0D}" "length tok = 8"
    "set tok \<subseteq> set (token_letters @ ''.+=/'')"
    unfolding bearer_credential_def by (elim exE conjE) (rule that)
  have t: "\<forall>c \<in> set tok. bearer_char c \<and> \<not> space_char_set c" using x(6) credential_letters(3) by blast
  have "tok \<noteq> []" using x(5) by auto
  then have "\<not> space_char_set (hd (tok @ v))" using t by simp
  moreover have "\<forall>c \<in> set ds. space_char_set c" using x(4) by (auto simp: space_char_set_def)
  ultimately have f: "bearer_front (x @ v) = Some (6 + length ds)"
    unfolding bearer_front_form
    by (intro exI [of _ w] exI [of _ ds] exI [of _ "tok @ v"] conjI) (use x in auto)
  have "length w = 6" using arg_cong [OF x(2), of length] by simp
  then have "drop (6 + length ds) (x @ v) = tok @ v" by (simp add: x(1))
  moreover have "8 \<le> runs bearer_char (tok @ v)"
    using x(5) t by (subst runs_map) auto
  ultimately show ?thesis using f by (auto simp: match_at_None)
qed

lemma redacted_credentials:
  assumes "redact_secrets s = u @ x @ v"
  shows "\<not> bot_credential x" "\<not> bearer_credential x"
proof -
  have "bot.found (x @ v) = None"
    using redact_clean(1) [of s, unfolded bot.clean_def, rule_format, OF assms] .
  then show "\<not> bot_credential x" using bot_credential_found [of x v] by blast
  have "bearer.found (x @ v) = None"
    using redact_clean(2) [of s, unfolded bearer.clean_def, rule_format, OF assms] .
  then show "\<not> bearer_credential x" using bearer_credential_found [of x v] by blast
qed

text \<open>Of an address of the service nothing is left behind its host, whatever the token looks like.\<close>

lemma prefix_of_both:
  assumes "u @ y = p @ b" "length p \<le> length u"
  shows "\<exists>r. u = p @ r"
  using assms by (auto simp: append_eq_append_conv2)

lemma cut_at_first:
  assumes "find_sub ''api.telegram.org/'' x = Some i"
    "take i x @ ''api.telegram.org/***'' = a @ ''api.telegram.org/'' @ b"
  shows "b = ''***''"
  using assms
proof (induction x arbitrary: i a)
  case (Cons c cs)
  show ?case
  proof (cases "has_prefix (c # cs) ''api.telegram.org/''")
    case True
    then have e: "''api.telegram.org/***'' = a @ ''api.telegram.org/'' @ b" using Cons.prems by simp
    have "20 = length a + (17 + length b)" using arg_cong [OF e, of length] by simp
    then have "length a = 0 \<or> length a = 1 \<or> length a = 2 \<or> length a = 3" by arith
    with e show ?thesis by (auto simp: length_Suc_conv numeral_2_eq_2 numeral_3_eq_3)
  next
    case False
    with Cons.prems(1) obtain j where j: "find_sub ''api.telegram.org/'' cs = Some j" "i = Suc j" by auto
    show ?thesis
    proof (cases a)
      case Nil
      from find_sub_Some [OF j(1)] obtain t where t: "cs = take j cs @ ''api.telegram.org/'' @ t" by blast
      have "(c # take j cs @ ''api.telegram.org/'') @ ''***'' = ''api.telegram.org/'' @ b"
        using Cons.prems(2) j(2) Nil by simp
      from prefix_of_both [OF this] obtain r where
        r: "c # take j cs @ ''api.telegram.org/'' = ''api.telegram.org/'' @ r" by auto
      have "c # cs = (c # take j cs @ ''api.telegram.org/'') @ t" using t by simp
      also have "\<dots> = ''api.telegram.org/'' @ r @ t" unfolding r by simp
      finally have "has_prefix (c # cs) ''api.telegram.org/''" unfolding has_prefix_iff by blast
      with False show ?thesis by simp
    next
      case (Cons d a')
      then show ?thesis using Cons.IH [OF j(1), of a'] Cons.prems(2) j(2) by simp
    qed
  qed
qed simp

lemma redacted_address:
  assumes "redact_secrets s = a @ ''api.telegram.org/'' @ b"
  shows "b = ''***''"
proof -
  define x where "x = replace_all bearer_match (\<lambda>k x. take k x @ ''***'')
      (replace_all bot_match (\<lambda>k x. ''bot***:***'') s)"
  have ne: "s \<noteq> []" using assms by (auto simp: redact_secrets_def)
  show ?thesis
  proof (cases "find_sub ''api.telegram.org/'' x")
    case None
    then have "redact_secrets s = x" using ne by (simp add: redact_secrets_def Let_def x_def [symmetric])
    with assms find_sub_None [OF None, of a b] show ?thesis by simp
  next
    case (Some i)
    from find_sub_Some [OF this] obtain t where
      t: "x = take i x @ ''api.telegram.org/'' @ t" "i + length ''api.telegram.org/'' \<le> length x" by blast
    have "drop i x = drop i (take i x @ ''api.telegram.org/'' @ t)" using t(1) by simp
    also have "\<dots> = ''api.telegram.org/'' @ t" using t(2) by simp
    finally have "contains_sub (drop i x) ''/''"
      unfolding contains_sub_iff by (intro exI [of _ "''api.telegram.org''"] exI [of _ t]) simp
    then have "redact_secrets s = take i x @ ''api.telegram.org/***''"
      using ne Some by (simp add: redact_secrets_def Let_def x_def [symmetric])
    with assms cut_at_first [OF Some, of a b] show ?thesis by simp
  qed
qed

text \<open>Shorter credentials, and a bot token without its \<open>bot\<close>, stay.\<close>

lemma replace_without_match:
  assumes "\<And>u v. s = u @ v \<Longrightarrow> v \<noteq> [] \<Longrightarrow> m v = None"
  shows "replace_all m repl s = s"
  using assms
proof (induction s)
  case (Cons c s)
  have "m (c # s) = None" using Cons.prems [of "[]" "c # s"] by simp
  moreover have "replace_all m repl s = s"
    by (rule Cons.IH) (use Cons.prems [of "c # u" for u] in simp)
  ultimately show ?case by simp
qed simp

lemma match_needs_b:
  assumes "set s \<inter> {CHR ''b'', CHR ''B''} = {}"
  shows "replace_all bot_match f s = s" "replace_all bearer_match g s = s"
proof -
  have n: "bot_front v = None" "bearer_front v = None" if "s = u @ v" "v \<noteq> []" for u v
  proof -
    obtain c w where v: "v = c # w" using \<open>v \<noteq> []\<close> by (cases v) auto
    then have "c \<notin> {CHR ''b'', CHR ''B''}" using \<open>s = u @ v\<close> assms by auto
    then show "bot_front v = None" "bearer_front v = None"
      using bot_front_hd [of c w] bearer_front_hd [of c w] v by blast+
  qed
  show "replace_all bot_match f s = s"
    by (rule replace_without_match) (simp add: bot_match_def match_at_None n)
  show "replace_all bearer_match g s = s"
    by (rule replace_without_match) (simp add: bearer_match_def match_at_None n)
qed

lemma redact_nothing:
  assumes "\<And>f. replace_all bot_match f s = s" "\<And>g. replace_all bearer_match g s = s"
    and "find_sub ''api.telegram.org/'' s = None"
  shows "redact_secrets s = s"
  unfolding redact_secrets_def Let_def by (simp only: assms option.case if_cancel)

lemma bare_token_stays:
  "redact_secrets ''123456:AAAAAAAAAAAAAAAAAAAAAAAA'' = ''123456:AAAAAAAAAAAAAAAAAAAAAAAA''"
proof (rule redact_nothing)
  show "find_sub ''api.telegram.org/'' ''123456:AAAAAAAAAAAAAAAAAAAAAAAA'' = None"
    by (simp add: has_prefix_simps)
qed (rule match_needs_b; simp)+

lemma short_credential_stays: "redact_secrets ''Bearer secret1'' = ''Bearer secret1''"
proof (rule redact_nothing)
  have m: "bot_match ''Bearer secret1'' = None" "bearer_match ''Bearer secret1'' = None"
    by code_simp+
  have r: "replace_all bot_match f ''earer secret1'' = ''earer secret1''"
    "replace_all bearer_match g ''earer secret1'' = ''earer secret1''" for f g
    by (rule match_needs_b; simp)+
  show "replace_all bot_match f ''Bearer secret1'' = ''Bearer secret1''" for f
    by (subst replace_all.simps(2)) (simp only: m r option.case)
  show "replace_all bearer_match g ''Bearer secret1'' = ''Bearer secret1''" for g
    by (subst replace_all.simps(2)) (simp only: m r option.case)
  show "find_sub ''api.telegram.org/'' ''Bearer secret1'' = None"
    by (simp add: has_prefix_simps)
qed

end
