(* ===== verification/Engine.thy ===== *)
theory Engine
  imports Dissect Pcap Flow Stats Story DisplayFilter Notify
begin

text \<open>
  \<open>internal/engine/engine.go\<close>: the pipeline that takes packets from a source, dissects them, and
  hands the frames to the analyzer, the display filter, the counters, the flow tracker and the
  session player, keeps them, and queues them for the dashboard. What the engine sends to others
  (broadcasts to the hub, findings to the notifiers, each in its own goroutine) is the list
  \<open>e_out\<close>. \<open>None\<close> is a panic. Everything the engine takes from outside is the record \<open>world\<close>:
  Unicode's tables and the number parser of the filter, the clock at each packet, whether the half
  second between two reports has passed, \<open>sort.Slice\<close>, and the orders in which Go walks the maps.
  The theory \<open>Pipeline\<close> has the properties.
\<close>

section \<open>State\<close>

record world =
  w_tables :: tables
  w_net :: net
  w_clock :: "u64 \<Rightarrow> gotime"
  w_due :: "u64 \<Rightarrow> bool"
  w_sort :: "finding list \<Rightarrow> finding list"
  w_sessions :: "session list \<Rightarrow> session list"
  w_talkers :: "talker list \<Rightarrow> talker list"
  w_convs :: "conversation list \<Rightarrow> conversation list"

record config =
  cf_path :: string
  cf_iface :: string
  cf_bpf :: string
  cf_filter :: string
  cf_max_packets :: int
  cf_include_hex :: bool
  cf_speed :: int
  cf_promisc :: bool
  cf_stdin :: bool
  cf_kernel :: bool
  cf_tg_token :: string
  cf_tg_chat :: string
  cf_tg_dry :: bool
  cf_webhook_url :: string
  cf_webhook_dry :: bool
  cf_write_path :: string

text \<open>The row the dashboard gets for a frame.\<close>

record row =
  ro_no :: u64
  ro_timestamp :: gotime
  ro_src :: string
  ro_dst :: string
  ro_protocol :: string
  ro_info :: string
  ro_length :: nat
  ro_severity :: string
  ro_tags :: "string list"
  ro_meta :: "string \<rightharpoonup> string"
  ro_flow_key :: string

record status =
  su_live :: bool
  su_running :: bool
  su_paused :: bool
  su_iface :: string
  su_path :: string
  su_packets :: u64
  su_source :: string
  su_sessions :: int
  su_telegram :: telegram_state
  su_webhook :: webhook_state
  su_ws_sent :: u64
  su_ws_dropped :: u64

datatype emit =
    Notify finding
  | Tg_text string
  | Wh_post string payload
  | Alert finding
  | Ev_packets "row list"
  | Ev_stats snapshot
  | Ev_flows "conversation list"
  | Ev_security "finding list"
  | Ev_sessions "session list"
  | Ev_story story
  | Ev_status status
  | Ev_done int

record engine =
  e_cfg :: config
  e_dissector :: dissector
  e_stats :: stats
  e_flows :: tracker
  e_security :: analyzer
  e_sessions :: player
  e_telegram :: telegram
  e_webhook :: webhook
  e_frames :: "frame list"
  e_max_store :: int
  e_hub :: bool
  e_running :: bool
  e_paused :: bool
  e_live :: bool
  e_source :: string
  e_stop :: bool
  e_pkt_no :: u64
  e_pending :: "row list"
  e_ws_dropped :: u64
  e_ws_sent :: u64
  e_writer :: "writer option"
  e_out :: "emit list"

definition new_engine :: "net \<Rightarrow> gotime \<Rightarrow> config \<Rightarrow> engine" where
  "new_engine n now cfg =
     \<lparr>e_cfg = cfg, e_dissector = new_dissector\<lparr>d_include_hex := cf_include_hex cfg\<rparr>,
      e_stats = new_stats now, e_flows = new_tracker 10000, e_security = new_analyzer,
      e_sessions = new_player 3000,
      e_telegram = new_telegram n (cf_tg_token cfg) (cf_tg_chat cfg) (cf_tg_dry cfg),
      e_webhook = new_webhook n (cf_webhook_url cfg) (cf_webhook_dry cfg), e_frames = [], e_max_store = 50000, e_hub = False,
      e_running = False, e_paused = False, e_live = (cf_iface cfg \<noteq> [] \<or> cf_stdin cfg),
      e_source = [], e_stop = False, e_pkt_no = 0, e_pending = [], e_ws_dropped = 0,
      e_ws_sent = 0, e_writer = None, e_out = []\<rparr>"

section \<open>Control and reports\<close>

definition set_hub :: "engine \<Rightarrow> engine" where
  "set_hub e = e\<lparr>e_hub := True\<rparr>"

definition engine_status :: "engine \<Rightarrow> status" where
  "engine_status e =
     \<lparr>su_live = e_live e, su_running = e_running e, su_paused = e_paused e,
      su_iface = cf_iface (e_cfg e), su_path = cf_path (e_cfg e), su_packets = e_pkt_no e,
      su_source = e_source e, su_sessions = player_count (e_sessions e),
      su_telegram = telegram_status (e_telegram e), su_webhook = webhook_status (e_webhook e),
      su_ws_sent = e_ws_sent e, su_ws_dropped = e_ws_dropped e\<rparr>"

text \<open>\<open>if e.hub != nil { e.hub.Broadcast(...) }\<close>.\<close>

definition broadcast :: "emit list \<Rightarrow> engine \<Rightarrow> engine" where
  "broadcast evs e = (if e_hub e then e\<lparr>e_out := e_out e @ evs\<rparr> else e)"

definition engine_pause :: "engine \<Rightarrow> engine" where
  "engine_pause e = (let e = e\<lparr>e_paused := True\<rparr> in broadcast [Ev_status (engine_status e)] e)"

definition engine_resume :: "engine \<Rightarrow> engine" where
  "engine_resume e = (let e = e\<lparr>e_paused := False\<rparr> in broadcast [Ev_status (engine_status e)] e)"

definition engine_stop :: "engine \<Rightarrow> engine" where
  "engine_stop e = (if e_stop e then e else e\<lparr>e_stop := True\<rparr>)"

definition frame_by_no :: "u64 \<Rightarrow> engine \<Rightarrow> frame option" where
  "frame_by_no no e = find (\<lambda>f. f_no f = no) (e_frames e)"

fun filtered_from :: "tables \<Rightarrow> string \<Rightarrow> frame list \<Rightarrow> frame list \<Rightarrow> frame list option" where
  "filtered_from t expr [] out = Some out"
| "filtered_from t expr (f # fs) out = do {
     b \<leftarrow> filter_match t f expr;
     filtered_from t expr fs (if b then out @ [f] else out)
   }"

definition engine_filtered :: "tables \<Rightarrow> string \<Rightarrow> engine \<Rightarrow> frame list option" where
  "engine_filtered t expr e = filtered_from t expr (e_frames e) []"

definition engine_story :: "world \<Rightarrow> engine \<Rightarrow> story" where
  "engine_story w e =
     build_story (w_sort w) (w_clock w (e_pkt_no e)) (analyzer_findings (e_security e))
       (map Some (player_list (w_sessions w) 80 (e_sessions e)))"

section \<open>Ingesting a packet\<close>

definition store_frame :: "frame \<Rightarrow> engine \<Rightarrow> engine option" where
  "store_frame f e = do {
     fs \<leftarrow> (if e_max_store e \<le> int (length (e_frames e))
            then slice (e_frames e) (length (e_frames e) div 4) (length (e_frames e))
            else Some (e_frames e));
     Some (e\<lparr>e_frames := fs @ [f]\<rparr>)
   }"

definition slim :: "frame \<Rightarrow> row" where
  "slim f =
     \<lparr>ro_no = f_no f, ro_timestamp = f_timestamp f, ro_src = f_src f, ro_dst = f_dst f,
      ro_protocol = f_protocol f, ro_info = f_info f, ro_length = f_length f,
      ro_severity = f_severity f, ro_tags = f_tags f, ro_meta = f_meta f,
      ro_flow_key = f_flow_key f\<rparr>"

definition max_pending :: nat where "max_pending = 36"

definition queue_ws :: "row \<Rightarrow> engine \<Rightarrow> engine option" where
  "queue_ws r e =
     (if \<not> e_hub e then Some e
      else
        let e = e\<lparr>e_pending := e_pending e @ [r]\<rparr> in
        if max_pending < length (e_pending e) then do {
          let n = length (e_pending e) - max_pending;
          ps \<leftarrow> slice (e_pending e) n (length (e_pending e));
          Some (e\<lparr>e_pending := ps, e_ws_dropped := e_ws_dropped e + word_of_nat n\<rparr>)
        }
        else Some e)"

definition flush_ws :: "engine \<Rightarrow> engine" where
  "flush_ws e =
     (if \<not> e_hub e then e
      else
        let batch = e_pending e; e = e\<lparr>e_pending := []\<rparr> in
        if batch = [] then e
        else broadcast [Ev_packets batch] (e\<lparr>e_ws_sent := e_ws_sent e + word_of_nat (length batch)\<rparr>))"

definition record_packet :: "gotime \<Rightarrow> gotime \<Rightarrow> packet \<Rightarrow> engine \<Rightarrow> engine" where
  "record_packet now ts pkt e =
     (case e_writer e of
        None \<Rightarrow> e
      | Some w \<Rightarrow> e\<lparr>e_writer := Some (snd (write_packet now w ts (p_data pkt)))\<rparr>)"

definition raise_alert :: "finding \<Rightarrow> engine \<Rightarrow> engine" where
  "raise_alert x e = broadcast [Alert x] (e\<lparr>e_out := e_out e @ [Notify x]\<rparr>)"

text \<open>The goroutines that \<open>ingest\<close> starts for a finding, when they run.\<close>

definition tell_telegram :: "net \<Rightarrow> gotime \<Rightarrow> answer \<Rightarrow> finding \<Rightarrow> engine \<Rightarrow> engine" where
  "tell_telegram n now ans f e = e\<lparr>e_telegram := fst (telegram_notify n now ans f (e_telegram e))\<rparr>"

definition tell_webhook :: "net \<Rightarrow> gotime \<Rightarrow> answer \<Rightarrow> finding \<Rightarrow> engine \<Rightarrow> engine" where
  "tell_webhook n now ans f e = e\<lparr>e_webhook := fst (webhook_notify n now ans f (e_webhook e))\<rparr>"

text \<open>What \<open>ingest\<close> does with a frame that passed the display filter.\<close>

definition accept_frame :: "gotime \<Rightarrow> frame \<Rightarrow> engine \<Rightarrow> engine option" where
  "accept_frame now fr e = do {
     st \<leftarrow> stats_observe (now div 1000000000) fr (e_stats e);
     let e = e\<lparr>e_stats := st\<rparr>;
     fl \<leftarrow> tracker_observe fr (e_flows e);
     let e = e\<lparr>e_flows := fl\<rparr>;
     pl \<leftarrow> player_observe fr (e_sessions e);
     let e = e\<lparr>e_sessions := pl\<rparr>;
     e \<leftarrow> store_frame fr e;
     queue_ws (slim fr) e
   }"

definition ingest :: "tables \<Rightarrow> gotime \<Rightarrow> packet \<Rightarrow> engine \<Rightarrow> engine option" where
  "ingest t now pkt e = do {
     let e = e\<lparr>e_pkt_no := e_pkt_no e + 1\<rparr>;
     let ts = (if p_timestamp pkt = zero_time then now else p_timestamp pkt);
     let e = record_packet now ts pkt e;
     fr \<leftarrow> dissect (tab_lower t) (e_dissector e) (e_pkt_no e) ts (p_cap_len pkt) (p_orig_len pkt)
            (p_link_type pkt) (p_data pkt);
     (sec, fr, raised) \<leftarrow> analyzer_observe (tab_lower t) fr (e_security e);
     let e = fold raise_alert raised (e\<lparr>e_security := sec\<rparr>);
     ok \<leftarrow> filter_match t fr (cf_filter (e_cfg e));
     if \<not> ok then Some e else accept_frame now fr e
   }"

section \<open>The run\<close>

datatype source_kind = Src_stdin | Src_kernel | Src_tcpdump | Src_file

text \<open>\<open>openSource\<close>: which source is opened; \<open>tap\<close> is what the kernel tap answers: the name of its
  interface, or nothing if it is not available.\<close>

definition choose_source :: "string option \<Rightarrow> engine \<Rightarrow> source_kind \<times> engine" where
  "choose_source tap e =
     (if cf_stdin (e_cfg e) then (Src_stdin, e\<lparr>e_source := ''stdin''\<rparr>)
      else if cf_iface (e_cfg e) \<noteq> [] then
        (case (if cf_kernel (e_cfg e) \<and> cf_iface (e_cfg e) \<noteq> ''any'' then tap else None) of
           Some iface \<Rightarrow>
             (Src_kernel, e\<lparr>e_source := ''kernel'', e_cfg := (e_cfg e)\<lparr>cf_iface := iface\<rparr>\<rparr>)
         | None \<Rightarrow> (Src_tcpdump, e\<lparr>e_source := ''tcpdump''\<rparr>))
      else (Src_file, e\<lparr>e_source := ''file''\<rparr>))"

definition report_state :: "world \<Rightarrow> engine \<Rightarrow> emit list" where
  "report_state w e =
     [Ev_stats (stats_snapshot (w_talkers w) (e_stats e)),
      Ev_security (analyzer_findings (e_security e)),
      Ev_sessions (player_list (w_sessions w) 40 (e_sessions e)),
      Ev_story (engine_story w e)]"

definition finish_run :: "world \<Rightarrow> int \<Rightarrow> engine \<Rightarrow> engine" where
  "finish_run w matched e =
     broadcast
       ([Ev_stats (stats_snapshot (w_talkers w) (e_stats e)),
         Ev_flows (tracker_top (w_convs w) 50 (e_flows e)),
         Ev_security (analyzer_findings (e_security e)),
         Ev_sessions (player_list (w_sessions w) 40 (e_sessions e)),
         Ev_story (engine_story w e),
         Ev_status (engine_status e)]
        @ (if e_live e then [] else [Ev_done matched])) e"

datatype run_result = Finished engine | Failed rd_error engine | Crashed

text \<open>The loop of \<open>Run\<close>, without other goroutines: nobody pauses or stops the engine while it
  runs, so an engine that is paused waits forever (\<open>None\<close>). \<open>matched\<close> counts packets.\<close>

partial_function (option) run_loop ::
  "world \<Rightarrow> ('r \<Rightarrow> packet rd_result \<times> 'r) \<Rightarrow> 'r \<Rightarrow> int \<Rightarrow> engine \<Rightarrow> run_result option" where
  "run_loop w next src matched e =
     (if e_stop e then Some (Finished (finish_run w matched e))
      else if e_paused e then run_loop w next src matched e
      else (case next src of
          (Panic, _) \<Rightarrow> Some Crashed
        | (Err x, _) \<Rightarrow> if x = EOF then Some (Finished (finish_run w matched e)) else Some (Failed x e)
        | (Ret p, src) \<Rightarrow>
            (case ingest (w_tables w) (w_clock w (e_pkt_no e)) p e of
               None \<Rightarrow> Some Crashed
             | Some e \<Rightarrow>
                 let matched = matched + 1;
                     e = (if w_due w (e_pkt_no e) then broadcast (report_state w e) e else e) in
                 if 0 < cf_max_packets (e_cfg e) \<and> cf_max_packets (e_cfg e) \<le> matched
                 then Some (Finished (finish_run w matched e))
                 else run_loop w next src matched e)))"

text \<open>\<open>Run\<close> on a capture file, given its contents.\<close>

definition open_writer :: "u32 \<Rightarrow> engine \<Rightarrow> engine" where
  "open_writer link e =
     (if cf_write_path (e_cfg e) \<noteq> [] then e\<lparr>e_writer := Some (create_writer link)\<rparr> else e)"

text \<open>The message that the engine is online, if Telegram is set up; the answer is ignored.\<close>

definition say_online :: "engine \<Rightarrow> engine" where
  "say_online e =
     (if telegram_enabled (e_telegram e)
      then
        let msg = ''online '' @ mid_dot @ '' source='' @ e_source e @ '' iface='' @ cf_iface (e_cfg e) in
        case snd (telegram_notify_text Unreachable msg (e_telegram e)) of
          None \<Rightarrow> e
        | Some text \<Rightarrow> e\<lparr>e_out := e_out e @ [Tg_text text]\<rparr>
      else e)"

definition close_run :: "engine \<Rightarrow> engine" where
  "close_run e = flush_ws (e\<lparr>e_running := False, e_writer := map_option close_writer (e_writer e)\<rparr>)"

definition run_file :: "world \<Rightarrow> bytes \<Rightarrow> engine \<Rightarrow> run_result option" where
  "run_file w file e =
     (let e = e\<lparr>e_source := ''file''\<rparr> in
      case new_reader file of
        Panic \<Rightarrow> Some Crashed
      | Err x \<Rightarrow> Some (Failed x e)
      | Ret rd \<Rightarrow>
          let e = (open_writer (r_link_type rd) e)\<lparr>e_running := True\<rparr>;
              e = say_online (broadcast [Ev_status (engine_status e)] e) in
          map_option (\<lambda>r. case r of Finished e \<Rightarrow> Finished (close_run e)
              | Failed x e \<Rightarrow> Failed x (close_run e) | Crashed \<Rightarrow> Crashed)
            (run_loop w (\<lambda>rd. next_packet (w_clock w (r_count rd)) rd) rd 0 e))"

section \<open>Exports\<close>

record export =
  ex_stats :: snapshot
  ex_flows :: "conversation list"
  ex_security :: "finding list"
  ex_sessions :: "session list"
  ex_story :: story
  ex_packets :: "frame list"
  ex_status :: status

definition export_json :: "world \<Rightarrow> engine \<Rightarrow> export" where
  "export_json w e =
     \<lparr>ex_stats = stats_snapshot (w_talkers w) (e_stats e), ex_flows = tracker_top (w_convs w) 100 (e_flows e),
      ex_security = analyzer_findings (e_security e),
      ex_sessions = player_list (w_sessions w) 100 (e_sessions e), ex_story = engine_story w e,
      ex_packets = e_frames e, ex_status = engine_status e\<rparr>"

text \<open>A field, a record and a file as \<open>encoding/csv\<close> writes them.\<close>

definition csv_needs_quotes :: "string \<Rightarrow> bool" where
  "csv_needs_quotes f =
     (if f = [] then False
      else f = [CHR 0x5C, CHR ''.''] \<or> list_ex (\<lambda>c. c \<in> {CHR '','', CHR 0x22, CHR 0x0D, CHR 0x0A}) f
        \<or> drop_any space_encodings f \<noteq> f)"

definition csv_field :: "string \<Rightarrow> string" where
  "csv_field f =
     (if csv_needs_quotes f
      then [CHR 0x22] @ concat (map (\<lambda>c. if c = CHR 0x22 then [c, c] else [c]) f) @ [CHR 0x22]
      else f)"

definition csv_record :: "string list \<Rightarrow> string" where
  "csv_record fs = join '','' (map csv_field fs) @ newline"

definition csv_row :: "net \<Rightarrow> frame \<Rightarrow> string list" where
  "csv_row n f =
     [dec (unat (f_no f)), n_time_nano n (f_timestamp f), f_src f, f_dst f, f_protocol f,
      dec (f_length f), f_info f, f_flow_key f]"

definition export_csv :: "net \<Rightarrow> engine \<Rightarrow> string" where
  "export_csv n e =
     concat (map csv_record
       ([''no'', ''time'', ''src'', ''dst'', ''protocol'', ''length'', ''info'', ''flow'']
        # map (csv_row n) (e_frames e)))"

end
