(* ===== verification/Identity.thy ===== *)
theory Identity
  imports Dissect
begin

text \<open>
  What no dissector changes: the number of a frame, its time and its lengths are those
  \<open>Dissector.Dissect\<close> was given, so the counters downstream count the packet.
\<close>

definition core :: "frame \<Rightarrow> u64 \<times> gotime \<times> u32 \<times> u32 \<times> nat" where
  "core f = (f_no f, f_timestamp f, f_cap_len f, f_orig_len f, f_length f)"

lemma core_simps [simp]:
  "core (add_layer nm sm fs off len c f) = core f"
  "core (set_endpoints s d f) = core f"
  "core (f\<lparr>f_protocol := x\<rparr>) = core f" "core (f\<lparr>f_info := x\<rparr>) = core f"
  "core (f\<lparr>f_tags := ts\<rparr>) = core f" "core (f\<lparr>f_severity := x\<rparr>) = core f"
  "core (f\<lparr>f_meta := m\<rparr>) = core f" "core (f\<lparr>f_src := x\<rparr>) = core f"
  "core (f\<lparr>f_dst := x\<rparr>) = core f" "core (f\<lparr>f_flow_key := x\<rparr>) = core f"
  "core (f\<lparr>f_hex_dump := x\<rparr>) = core f"
  by (simp_all add: core_def add_layer_def set_endpoints_def)

text \<open>\<open>ret P x\<close>: if \<open>x\<close> returns, \<open>P\<close> holds of what it returns.\<close>

definition ret :: "('a \<Rightarrow> bool) \<Rightarrow> 'a option \<Rightarrow> bool" where
  "ret P x = (case x of None \<Rightarrow> True | Some a \<Rightarrow> P a)"

lemma ret_Some [simp]: "ret P (Some a) = P a"
  by (simp add: ret_def)

lemma ret_bind: "(\<And>a. x = Some a \<Longrightarrow> ret P (g a)) \<Longrightarrow> ret P (x \<bind> g)"
  by (cases x) (simp_all add: ret_def)

lemma ret_if: "(c \<Longrightarrow> ret P a) \<Longrightarrow> (\<not> c \<Longrightarrow> ret P b) \<Longrightarrow> ret P (if c then a else b)"
  by simp

lemma ret_case_prod: "(\<And>a b. x = (a, b) \<Longrightarrow> ret P (g a b)) \<Longrightarrow> ret P (case x of (a, b) \<Rightarrow> g a b)"
  by (cases x) simp

lemma retD: "ret P x \<Longrightarrow> x = Some a \<Longrightarrow> P a"
  by (simp add: ret_def)

lemmas ret_intros = ret_bind ret_if ret_case_prod

abbreviation same_core :: "frame \<Rightarrow> (frame \<times> nat) option \<Rightarrow> bool" where
  "same_core f \<equiv> ret (\<lambda>(g, off). core g = core f)"

text \<open>A dissector that goes on with a frame of the same core.\<close>

lemma same_core_cong: "same_core g x \<Longrightarrow> core g = core f \<Longrightarrow> same_core f x"
  by (auto simp: ret_def split: option.splits)

lemma dns_questions_core: "ret (\<lambda>(p, q, g). core g = core f) (dns_questions data n pos qs f)"
proof (induction data n pos qs f rule: dns_questions.induct)
  case (2 data n pos qs f)
  then show ?case by (auto intro!: ret_intros simp: Let_def)
qed simp

lemma dns_answers_core: "ret (\<lambda>(p, q, g). core g = core f) (dns_answers data n i pos as f)"
proof (induction data n i pos as f rule: dns_answers.induct)
  case (2 data n i pos as f)
  then show ?case by (auto intro!: ret_intros simp: Let_def)
qed simp

lemma dissect_dns_core: "same_core f (dissect_dns f data off m)"
  unfolding dissect_dns_def Let_def
  by (auto intro!: ret_intros dest!: retD [OF dns_questions_core] retD [OF dns_answers_core])

lemma dissect_dhcp_core: "same_core f (dissect_dhcp f data off)"
  unfolding dissect_dhcp_def Let_def by (auto intro!: ret_intros)

lemma dissect_quic_core: "same_core f (dissect_quic f data off)"
  unfolding dissect_quic_def Let_def by (auto intro!: ret_intros)

lemma http_header_core: "core (snd (snd (snd (http_header ul line (fs, h, c, f))))) = core f"
  by (auto simp: http_header_def Let_def split: list.split)

lemma http_headers_core: "core (snd (snd (snd (http_headers ul lines st)))) = core (snd (snd (snd st)))"
  unfolding http_headers_def
proof (induction lines arbitrary: st)
  case (Cons l ls)
  obtain fs h c f where "st = (fs, h, c, f)" by (metis surj_pair)
  then show ?case using Cons http_header_core by simp
qed simp

lemma dissect_http_core: "same_core f (dissect_http ul f data off)"
proof -
  have "core (http_layer ul f off n rl ls bl) = core f" for off n rl ls bl
  proof -
    obtain is_req meth path stat fs where s: "http_start rl = (is_req, meth, path, stat, fs)"
      by (metis surj_pair)
    obtain fs' h c g where g: "http_headers ul ls (fs, [], [], f) = (fs', h, c, g)"
      by (metis surj_pair)
    then have "core g = core f" using http_headers_core [of ul ls "(fs, [], [], f)"] by simp
    then show ?thesis by (simp add: http_layer_def s g Let_def)
  qed
  then show ?thesis unfolding dissect_http_def Let_def by (auto intro!: ret_intros)
qed

lemma dissect_http2_core: "same_core f (dissect_http2 ul f data off)"
  unfolding dissect_http2_def Let_def by (auto intro!: ret_intros)

abbreviation state_core :: "tls_state \<Rightarrow> u64 \<times> gotime \<times> u32 \<times> u32 \<times> nat" where
  "state_core st \<equiv> core (snd (snd st))"

lemma tls_handshake_record_core:
  "ret (\<lambda>(r, st'). state_core st' = state_core st) (tls_handshake_record p r st)"
  unfolding tls_handshake_record_def Let_def
  by (auto intro!: ret_intros split: option.splits if_splits)

lemma tls_record_core: "ret (\<lambda>(r, st'). state_core st' = state_core st) (tls_record data pos st)"
proof -
  have h: "state_core st1 = state_core st"
    if "(if c then do { p \<leftarrow> slice data i j; tls_handshake_record p r st } else Some (r, st)) = Some (r1, st1)"
    for c i j r r1 st1
  proof (cases c)
    case True
    with that obtain p where "tls_handshake_record p r st = Some (r1, st1)"
      by (auto simp: bind_eq_Some_conv)
    from retD [OF tls_handshake_record_core this] show ?thesis by simp
  qed (use that in simp)
  show ?thesis
    unfolding tls_record_def tls_alert_record_def Let_def
    by (intro ret_bind ret_case_prod) (auto dest!: h intro!: ret_intros)
qed

lemma tls_records_core:
  "ret (\<lambda>(rs, st'). state_core st' = state_core st) (tls_records data k pos rs st)"
proof (induction k arbitrary: pos rs st)
  case (Suc k)
  show ?case
  proof (cases "tls_record data pos st")
    case None
    then show ?thesis by (simp add: ret_def)
  next
    case (Some x)
    obtain r st1 where x: "x = (r, st1)" by (cases x)
    have c: "state_core st1 = state_core st" using retD [OF tls_record_core Some] x by simp
    then have "ret (\<lambda>(rs, st'). state_core st' = state_core st) (tls_records data k pos' rs' st1)" for pos' rs'
      using Suc [of st1 pos' rs'] by simp
    with c show ?thesis by (simp add: Some x Let_def)
  qed
qed simp

lemma dissect_tls_core: "same_core f (dissect_tls f data off)"
  unfolding dissect_tls_def Let_def
  by (auto intro!: ret_intros dest!: retD [OF tls_records_core] split: option.splits)

lemma dissect_app_tcp_core: "same_core f (dissect_app_tcp ul f data off sp dp)"
  unfolding dissect_app_tcp_def Let_def
  by (auto intro!: ret_intros dissect_tls_core dissect_http2_core dissect_http_core)

lemma dissect_tcp_core: "same_core f (dissect_tcp ul f data off)"
  unfolding dissect_tcp_def Let_def
  by (auto intro!: ret_intros intro: same_core_cong [OF dissect_app_tcp_core])

lemma dissect_app_udp_core: "same_core f (dissect_app_udp f data off sp dp)"
  unfolding dissect_app_udp_def Let_def
  by (auto intro!: ret_intros dissect_dns_core dissect_dhcp_core dissect_quic_core)

lemma dissect_udp_core: "same_core f (dissect_udp f data off)"
  unfolding dissect_udp_def Let_def
  by (auto intro!: ret_intros intro: same_core_cong [OF dissect_app_udp_core])

lemma dissect_icmp_core: "same_core f (dissect_icmp f data off)"
  unfolding dissect_icmp_def Let_def by (auto intro!: ret_intros)

lemma dissect_icmpv6_core: "same_core f (dissect_icmpv6 f data off)"
  unfolding dissect_icmpv6_def Let_def by (auto intro!: ret_intros)

lemma dispatch_ip_core: "same_core f (dispatch_ip ul f data off proto)"
  unfolding dispatch_ip_def Let_def
  by (auto intro!: ret_intros dissect_icmp_core dissect_icmpv6_core dissect_tcp_core dissect_udp_core)

lemma dissect_ipv4_core: "same_core f (dissect_ipv4 ul f data off)"
  unfolding dissect_ipv4_def Let_def
  by (auto intro!: ret_intros intro: same_core_cong [OF dispatch_ip_core])

lemma dissect_ipv6_core: "same_core f (dissect_ipv6 ul f data off)"
  unfolding dissect_ipv6_def Let_def
  by (auto intro!: ret_intros intro: same_core_cong [OF dispatch_ip_core])

lemma dissect_arp_core: "same_core f (dissect_arp f data off)"
  unfolding dissect_arp_def Let_def by (auto intro!: ret_intros)

lemma vlan_tags_core: "core (fst (vlan_tags f data off et)) = core f"
proof (induction f data off et rule: vlan_tags.induct)
  case (1 f data off et)
  have "core (vlan_layer f data off) = core f" by (simp add: vlan_layer_def Let_def)
  with 1 show ?case by (subst vlan_tags.simps) auto
qed

lemma vlanD: "vlan_tags f data off et = (g, r) \<Longrightarrow> core g = core f"
  using vlan_tags_core [of f data off et] by simp

lemma dissect_ethernet_core: "same_core f (dissect_ethernet ul f data off)"
  unfolding dissect_ethernet_def Let_def
  by (auto intro!: ret_intros dest!: vlanD intro: same_core_cong [OF dissect_ipv4_core]
      same_core_cong [OF dissect_ipv6_core] same_core_cong [OF dissect_arp_core] split: option.split)

lemma sll_payload_core: "same_core f (sll_payload ul f data off proto)"
  unfolding sll_payload_def
  by (auto intro!: ret_intros dissect_ipv4_core dissect_ipv6_core dissect_arp_core)

lemma dissect_sll_core:
  "same_core f (dissect_linux_sll ul f data off)" "same_core f (dissect_linux_sll2 ul f data off)"
  unfolding dissect_linux_sll_def dissect_linux_sll2_def Let_def
  by (auto intro!: ret_intros intro: same_core_cong [OF sll_payload_core])

lemma dissect_link_core: "same_core f (dissect_link ul f lt data)"
  unfolding dissect_link_def Let_def
  by (auto intro!: ret_intros dissect_ethernet_core dissect_sll_core dissect_ipv4_core dissect_ipv6_core)

lemma dissect_core:
  assumes "dissect ul d no ts cl ol lt data = Some f"
  shows "f_no f = no \<and> f_timestamp f = ts \<and> f_cap_len f = cl \<and> f_orig_len f = ol \<and>
    f_length f = length data"
proof -
  obtain g off where g: "dissect_link ul (start_frame d no ts cl ol data) lt data = Some (g, off)"
    "f = finish_frame g"
    using assms by (auto simp: dissect_def bind_eq_Some_conv)
  have "core f = core g" by (simp add: g(2) finish_frame_def Let_def)
  moreover have "core g = core (start_frame d no ts cl ol data)"
    using retD [OF dissect_link_core g(1)] by simp
  moreover have "core (start_frame d no ts cl ol data) = (no, ts, cl, ol, length data)"
    by (simp add: start_frame_def blank_frame_def core_def Let_def)
  ultimately show ?thesis by (simp add: core_def)
qed

end
