(* ===== verification/Pipeline.thy ===== *)
theory Pipeline
  imports Engine Identity
begin

text \<open>
  The engine at work: what \<open>ingest\<close> keeps invariant, whatever packets come, and the system of
  goroutines around it. A state of the system is the engine, the packet source, where the loop of
  \<open>Run\<close> stands and how many packets it has taken; one step is a check of the loop, a packet, or
  what another goroutine does in between (pause, resume, stop, the flush of the dashboard queue).
\<close>

section \<open>Numbers that only grow\<close>

text \<open>Numbers of packets not after the \<open>n\<close>-th, each larger than the one before.\<close>

definition numbered_upto :: "nat \<Rightarrow> u64 list \<Rightarrow> bool" where
  "numbered_upto n xs =
     (\<exists>ns. xs = map word_of_nat ns \<and> sorted_wrt (<) ns \<and> (\<forall>k \<in> set ns. k \<le> n))"

lemma numbered_Nil [simp]: "numbered_upto n []"
  by (simp add: numbered_upto_def)

lemma numbered_Suc: "numbered_upto n xs \<Longrightarrow> numbered_upto (Suc n) xs"
  by (force simp: numbered_upto_def)

lemma numbered_snoc: "numbered_upto n xs \<Longrightarrow> numbered_upto (Suc n) (xs @ [word_of_nat (Suc n)])"
proof -
  assume "numbered_upto n xs"
  then obtain ns where "xs = map word_of_nat ns" "sorted_wrt (<) ns" "\<forall>k \<in> set ns. k \<le> n"
    by (auto simp: numbered_upto_def)
  then show ?thesis
    unfolding numbered_upto_def
    by (intro exI [of _ "ns @ [Suc n]"]) (auto simp: sorted_wrt_append less_Suc_eq_le)
qed

lemma numbered_cut: "numbered_upto n (xs @ ys) \<Longrightarrow> numbered_upto n (xs @ drop k ys)"
proof -
  assume "numbered_upto n (xs @ ys)"
  then obtain ns where ns: "xs @ ys = map word_of_nat ns" "sorted_wrt (<) ns" "\<forall>k \<in> set ns. k \<le> n"
    by (auto simp: numbered_upto_def)
  then obtain as bs where ab: "ns = as @ bs" "xs = map word_of_nat as" "ys = map word_of_nat bs"
    by (metis append_eq_map_conv)
  have "sorted_wrt (<) (as @ drop k bs)" "\<forall>j \<in> set (as @ drop k bs). j \<le> n"
    using ns(2,3) by (auto simp: ab sorted_wrt_append sorted_wrt_drop dest: in_set_dropD)
  then show ?thesis
    unfolding numbered_upto_def by (intro exI [of _ "as @ drop k bs"]) (simp add: ab drop_map)
qed

section \<open>The invariant of the engine\<close>

text \<open>The rows of the batches sent so far.\<close>

fun sent_rows :: "emit list \<Rightarrow> row list" where
  "sent_rows [] = []"
| "sent_rows (Ev_packets rs # es) = rs @ sent_rows es"
| "sent_rows (_ # es) = sent_rows es"

lemma sent_rows_append [simp]: "sent_rows (es @ fs) = sent_rows es @ sent_rows fs"
  by (induction es rule: sent_rows.induct) simp_all

definition tables_ok :: "engine \<Rightarrow> bool" where
  "tables_ok e =
     (conv.inv (e_flows e) \<and> t_limit (e_flows e) = 10000 \<and>
      sess.inv (e_sessions e) \<and> p_limit (e_sessions e) = 3000 \<and>
      a_limit (e_security e) = 500 \<and> length (a_findings (e_security e)) \<le> 500 \<and>
      length (wh_seen (e_webhook e)) \<le> 2000)"

definition frames_ok :: "nat \<Rightarrow> engine \<Rightarrow> bool" where
  "frames_ok n e =
     (e_max_store e = 50000 \<and> length (e_frames e) \<le> 50000 \<and> numbered_upto n (map f_no (e_frames e)))"

definition rows_ok :: "nat \<Rightarrow> engine \<Rightarrow> bool" where
  "rows_ok n e =
     (length (e_pending e) \<le> max_pending \<and>
      numbered_upto n (map ro_no (sent_rows (e_out e) @ e_pending e)) \<and>
      e_ws_sent e = word_of_nat (length (sent_rows (e_out e))) \<and>
      (if e_hub e then st_packets (e_stats e) = e_ws_sent e + e_ws_dropped e + word_of_nat (length (e_pending e))
       else e_pending e = [] \<and> e_ws_sent e = 0 \<and> e_ws_dropped e = 0))"

definition engine_ok :: "nat \<Rightarrow> engine \<Rightarrow> bool" where
  "engine_ok n e = (e_pkt_no e = word_of_nat n \<and> tables_ok e \<and> frames_ok n e \<and> rows_ok n e)"

lemma new_engine_ok: "engine_ok 0 (new_engine n now cfg)" "engine_ok 0 (set_hub (new_engine n now cfg))"
  using new_tracker_inv [of 10000] new_player_inv [of 3000]
  by (simp_all add: engine_ok_def tables_ok_def frames_ok_def rows_ok_def new_engine_def set_hub_def
      new_tracker_def new_player_def new_analyzer_def new_stats_def new_webhook_def Let_def)

text \<open>Counting a frame never panics.\<close>

lemma observe_timeline_total: "\<exists>line'. observe_timeline now f line = Some line'"
proof -
  have n: "length xs \<noteq> 0 \<Longrightarrow> last_at xs = Some (last xs)" for xs :: "bucket list"
    by (simp add: last_at_last)
  show ?thesis
    by (cases "line = []"; cases "b_t (last line) = frame_second now f")
      (auto simp: observe_timeline_def Let_def n slice_def)
qed

lemma stats_observe_total:
  "\<exists>s'. stats_observe now f s = Some s' \<and> st_packets s' = st_packets s + 1"
  using observe_timeline_total [of now f "st_timeline s"]
  by (auto simp: stats_observe_def Let_def)

lemma broadcast_fields [simp]:
  "e_cfg (broadcast evs e) = e_cfg e" "e_stats (broadcast evs e) = e_stats e"
  "e_flows (broadcast evs e) = e_flows e" "e_security (broadcast evs e) = e_security e"
  "e_sessions (broadcast evs e) = e_sessions e" "e_frames (broadcast evs e) = e_frames e"
  "e_max_store (broadcast evs e) = e_max_store e" "e_hub (broadcast evs e) = e_hub e"
  "e_paused (broadcast evs e) = e_paused e" "e_stop (broadcast evs e) = e_stop e"
  "e_pkt_no (broadcast evs e) = e_pkt_no e" "e_pending (broadcast evs e) = e_pending e"
  "e_ws_sent (broadcast evs e) = e_ws_sent e" "e_ws_dropped (broadcast evs e) = e_ws_dropped e"
  "e_dissector (broadcast evs e) = e_dissector e" "e_webhook (broadcast evs e) = e_webhook e"
  "e_telegram (broadcast evs e) = e_telegram e" "e_writer (broadcast evs e) = e_writer e"
  "e_out (broadcast evs e) = (if e_hub e then e_out e @ evs else e_out e)"
  by (simp_all add: broadcast_def)

lemma broadcast_ok: "sent_rows evs = [] \<Longrightarrow> engine_ok n (broadcast evs e) = engine_ok n e"
  by (simp add: engine_ok_def tables_ok_def frames_ok_def rows_ok_def)

lemma raise_alerts_fields:
  "e_cfg (fold raise_alert xs e) = e_cfg e" "e_stats (fold raise_alert xs e) = e_stats e"
  "e_flows (fold raise_alert xs e) = e_flows e" "e_security (fold raise_alert xs e) = e_security e"
  "e_sessions (fold raise_alert xs e) = e_sessions e" "e_frames (fold raise_alert xs e) = e_frames e"
  "e_max_store (fold raise_alert xs e) = e_max_store e" "e_hub (fold raise_alert xs e) = e_hub e"
  "e_paused (fold raise_alert xs e) = e_paused e" "e_stop (fold raise_alert xs e) = e_stop e"
  "e_pkt_no (fold raise_alert xs e) = e_pkt_no e" "e_pending (fold raise_alert xs e) = e_pending e"
  "e_ws_sent (fold raise_alert xs e) = e_ws_sent e" "e_ws_dropped (fold raise_alert xs e) = e_ws_dropped e"
  "e_dissector (fold raise_alert xs e) = e_dissector e" "e_webhook (fold raise_alert xs e) = e_webhook e" "e_writer (fold raise_alert xs e) = e_writer e"
  "sent_rows (e_out (fold raise_alert xs e)) = sent_rows (e_out e)"
  by (induction xs arbitrary: e) (simp_all add: raise_alert_def)

lemma record_packet_fields [simp]:
  "e_cfg (record_packet now ts p e) = e_cfg e" "e_stats (record_packet now ts p e) = e_stats e"
  "e_flows (record_packet now ts p e) = e_flows e" "e_security (record_packet now ts p e) = e_security e"
  "e_sessions (record_packet now ts p e) = e_sessions e" "e_frames (record_packet now ts p e) = e_frames e"
  "e_max_store (record_packet now ts p e) = e_max_store e" "e_hub (record_packet now ts p e) = e_hub e"
  "e_paused (record_packet now ts p e) = e_paused e" "e_stop (record_packet now ts p e) = e_stop e"
  "e_pkt_no (record_packet now ts p e) = e_pkt_no e" "e_pending (record_packet now ts p e) = e_pending e"
  "e_ws_sent (record_packet now ts p e) = e_ws_sent e" "e_ws_dropped (record_packet now ts p e) = e_ws_dropped e"
  "e_dissector (record_packet now ts p e) = e_dissector e" "e_webhook (record_packet now ts p e) = e_webhook e"
  "e_out (record_packet now ts p e) = e_out e"
  by (simp_all add: record_packet_def split: option.split)

section \<open>Storing and queueing\<close>

lemma store_frame_ok:
  assumes "frames_ok n e" "f_no f = word_of_nat (Suc n)"
  shows "\<exists>fs. store_frame f e = Some (e\<lparr>e_frames := fs\<rparr>) \<and> length fs \<le> 50000 \<and>
    numbered_upto (Suc n) (map f_no fs)"
proof -
  let ?k = "if 50000 \<le> length (e_frames e) then length (e_frames e) div 4 else 0"
  have "store_frame f e = Some (e\<lparr>e_frames := drop ?k (e_frames e) @ [f]\<rparr>)"
    using assms(1) by (simp add: store_frame_def frames_ok_def slice_def)
  moreover have "numbered_upto n (map f_no (drop ?k (e_frames e)))"
    using assms(1) numbered_cut [of n "[]" "map f_no (e_frames e)" ?k]
    by (simp add: frames_ok_def drop_map)
  then have "numbered_upto (Suc n) (map f_no (drop ?k (e_frames e) @ [f]))"
    using numbered_snoc assms(2) by simp
  moreover have "length (drop ?k (e_frames e) @ [f]) \<le> 50000"
    using assms(1) by (cases "length (e_frames e) = 50000") (auto simp: frames_ok_def)
  ultimately show ?thesis by blast
qed

lemma queue_ws_ok:
  assumes "length (e_pending e) \<le> max_pending"
    and "numbered_upto n (map ro_no (sent_rows (e_out e) @ e_pending e))" "ro_no r = word_of_nat (Suc n)"
  shows "\<exists>ps k. queue_ws r e = Some (if e_hub e
      then e\<lparr>e_pending := ps, e_ws_dropped := e_ws_dropped e + word_of_nat k\<rparr> else e) \<and>
    length ps \<le> max_pending \<and> k + length ps = Suc (length (e_pending e)) \<and>
    numbered_upto (Suc n) (map ro_no (sent_rows (e_out e) @ ps))"
proof -
  let ?q = "e_pending e @ [r]"
  let ?k = "length ?q - max_pending"
  have "queue_ws r e = Some (if e_hub e
      then e\<lparr>e_pending := drop ?k ?q, e_ws_dropped := e_ws_dropped e + word_of_nat ?k\<rparr> else e)"
    by (simp add: queue_ws_def slice_def Let_def)
  moreover have "numbered_upto (Suc n) (map ro_no (sent_rows (e_out e)) @ map ro_no ?q)"
    using numbered_snoc [OF assms(2)] assms(3) by simp
  from numbered_cut [OF this, of ?k]
  have "numbered_upto (Suc n) (map ro_no (sent_rows (e_out e)) @ map ro_no (drop ?k ?q))"
    unfolding drop_map .
  then have "numbered_upto (Suc n) (map ro_no (sent_rows (e_out e) @ drop ?k ?q))"
    unfolding map_append .
  moreover have "length (drop ?k ?q) \<le> max_pending" "?k + length (drop ?k ?q) = Suc (length (e_pending e))"
    using assms(1) by auto
  ultimately show ?thesis by blast
qed

section \<open>Ingesting a packet\<close>

text \<open>What nothing but \<open>Pause\<close>, \<open>Resume\<close> and \<open>Stop\<close> changes.\<close>

definition control :: "engine \<Rightarrow> config \<times> bool \<times> bool \<times> bool" where
  "control e = (e_cfg e, e_hub e, e_paused e, e_stop e)"

text \<open>The engine between the analyzer and the filter is good but for the number.\<close>

definition engine_mid :: "nat \<Rightarrow> engine \<Rightarrow> bool" where
  "engine_mid n e =
     (e_pkt_no e = word_of_nat (Suc n) \<and> tables_ok e \<and> frames_ok n e \<and> rows_ok n e)"

lemma accept_frame_ok:
  assumes "engine_mid n e" "f_no fr = word_of_nat (Suc n)"
  shows "\<exists>e'. accept_frame now fr e = Some e' \<and> engine_ok (Suc n) e' \<and> control e' = control e \<and>
    st_packets (e_stats e') = st_packets (e_stats e) + 1"
proof -
  have ok: "tables_ok e" "frames_ok n e" "rows_ok n e" "e_pkt_no e = word_of_nat (Suc n)"
    using assms(1) by (simp_all add: engine_mid_def)
  obtain st where st: "stats_observe (now div 1000000000) fr (e_stats e) = Some st"
    "st_packets st = st_packets (e_stats e) + 1" using stats_observe_total by blast
  obtain fl where fl: "tracker_observe fr (e_flows e) = Some fl" "conv.inv fl"
    "t_limit fl = t_limit (e_flows e)"
    using conv.observe_refines [of "e_flows e" fr] ok(1) by (auto simp: tables_ok_def)
  obtain pl where pl: "player_observe fr (e_sessions e) = Some pl" "sess.inv pl"
    "p_limit pl = p_limit (e_sessions e)"
    using sess.observe_refines [of "e_sessions e" fr] ok(1) by (auto simp: tables_ok_def)
  let ?e1 = "e\<lparr>e_stats := st, e_flows := fl, e_sessions := pl\<rparr>"
  have "frames_ok n ?e1" using ok(2) by (simp add: frames_ok_def)
  from store_frame_ok [OF this assms(2)] obtain fs where fs:
    "store_frame fr ?e1 = Some (?e1\<lparr>e_frames := fs\<rparr>)" "length fs \<le> 50000"
    "numbered_upto (Suc n) (map f_no fs)" by blast
  let ?e2 = "?e1\<lparr>e_frames := fs\<rparr>"
  have "length (e_pending ?e2) \<le> max_pending"
    "numbered_upto n (map ro_no (sent_rows (e_out ?e2) @ e_pending ?e2))"
    "ro_no (slim fr) = word_of_nat (Suc n)"
    using ok(3) assms(2) by (simp_all add: rows_ok_def slim_def)
  from queue_ws_ok [OF this] obtain ps k where q: "queue_ws (slim fr) ?e2 =
      Some (if e_hub ?e2 then ?e2\<lparr>e_pending := ps, e_ws_dropped := e_ws_dropped ?e2 + word_of_nat k\<rparr> else ?e2)"
    "length ps \<le> max_pending" "k + length ps = Suc (length (e_pending ?e2))"
    "numbered_upto (Suc n) (map ro_no (sent_rows (e_out ?e2) @ ps))" by blast
  let ?e3 = "if e_hub ?e2 then ?e2\<lparr>e_pending := ps, e_ws_dropped := e_ws_dropped ?e2 + word_of_nat k\<rparr> else ?e2"
  have a: "accept_frame now fr e = Some ?e3"
    by (simp add: accept_frame_def st(1) fl(1) pl(1) fs(1) q(1) Let_def)
  have "word_of_nat k + word_of_nat (length ps) = 1 + (word_of_nat (length (e_pending e)) :: u64)"
    using q(3) by (simp flip: of_nat_add)
  moreover have "rows_ok (Suc n) ?e3 = (if e_hub e then
      st_packets st = e_ws_sent e + (e_ws_dropped e + word_of_nat k) + word_of_nat (length ps) else True)"
    using ok(3) q numbered_Suc by (auto simp: rows_ok_def)
  ultimately have "rows_ok (Suc n) ?e3"
    using ok(3) st(2) by (auto simp: rows_ok_def algebra_simps)
  moreover have "tables_ok ?e3" "frames_ok (Suc n) ?e3" "e_pkt_no ?e3 = word_of_nat (Suc n)"
    using ok fl pl fs by (simp_all add: tables_ok_def frames_ok_def)
  ultimately have "engine_ok (Suc n) ?e3" by (simp add: engine_ok_def)
  moreover have "control ?e3 = control e" "st_packets (e_stats ?e3) = st_packets (e_stats e) + 1"
    using st(2) by (simp_all add: control_def)
  ultimately show ?thesis using a by blast
qed

lemma engine_mid_ok: "engine_mid n e \<Longrightarrow> engine_ok (Suc n) e"
  using numbered_Suc by (auto simp: engine_mid_def engine_ok_def frames_ok_def rows_ok_def)

text \<open>A packet is dissected, checked and filtered; it panics only in the dissector or the filter,
  and leaves a good engine.\<close>

definition packet_time :: "gotime \<Rightarrow> packet \<Rightarrow> gotime" where
  "packet_time now p = (if p_timestamp p = zero_time then now else p_timestamp p)"

definition dissect_packet :: "tables \<Rightarrow> gotime \<Rightarrow> packet \<Rightarrow> engine \<Rightarrow> frame option" where
  "dissect_packet t now p e =
     dissect (tab_lower t) (e_dissector e) (e_pkt_no e + 1) (packet_time now p) (p_cap_len p)
       (p_orig_len p) (p_link_type p) (p_data p)"

definition checked :: "tables \<Rightarrow> gotime \<Rightarrow> packet \<Rightarrow> frame \<Rightarrow> engine \<Rightarrow> engine" where
  "checked t now p fr e =
     (let e = record_packet now (packet_time now p) p (e\<lparr>e_pkt_no := e_pkt_no e + 1\<rparr>) in
      fold raise_alert (observe_reports (tab_lower t) fr (e_security e))
        (e\<lparr>e_security := observed (tab_lower t) fr (e_security e)\<rparr>))"

lemma window_length: "window rs xs \<Longrightarrow> length xs \<le> 500"
  by (simp add: window_def)

lemma checked_mid:
  assumes "engine_ok n e"
  shows "engine_mid n (checked t now p fr e)" "control (checked t now p fr e) = control e"
    "e_stats (checked t now p fr e) = e_stats e"
proof -
  let ?sec = "observed (tab_lower t) fr (e_security e)"
  have s: "a_limit (e_security e) = 500" "length (a_findings (e_security e)) \<le> 500"
    using assms by (simp_all add: engine_ok_def tables_ok_def)
  have "window (a_findings (e_security e)) (a_findings (e_security e))" using s(2) by (simp add: window_def)
  from window_fold [OF this, of "observe_reports (tab_lower t) fr (e_security e)"]
  have "a_limit ?sec = 500" "length (a_findings ?sec) \<le> 500"
    using s(1) by (simp_all add: observed_def Let_def window_length)
  then show "engine_mid n (checked t now p fr e)"
    using assms by (auto simp: checked_def Let_def engine_mid_def engine_ok_def tables_ok_def frames_ok_def
        rows_ok_def raise_alerts_fields split: if_splits)
  show "control (checked t now p fr e) = control e" "e_stats (checked t now p fr e) = e_stats e"
    by (simp_all add: checked_def Let_def control_def raise_alerts_fields)
qed

lemma ingest_steps:
  assumes "engine_ok n e"
  shows "ingest t now p e = do {
     fr \<leftarrow> dissect_packet t now p e;
     ok \<leftarrow> filter_match t (marked (tab_lower t) fr) (cf_filter (e_cfg e));
     if \<not> ok then Some (checked t now p fr e)
     else accept_frame now (marked (tab_lower t) fr) (checked t now p fr e)
   }"
proof -
  have a: "analyzer_observe ul f (e_security e) =
      Some (observed ul f (e_security e), marked ul f, observe_reports ul f (e_security e))" for ul f
    using assms analyzer_observe_result [of "e_security e" ul f]
    by (simp add: engine_ok_def tables_ok_def marked_def)
  have c: "e_cfg (checked t now p fr e) = e_cfg e" for fr
    by (simp add: checked_def Let_def raise_alerts_fields)
  show ?thesis
    unfolding ingest_def dissect_packet_def packet_time_def [symmetric] Let_def
    by (simp add: a checked_def raise_alerts_fields Let_def cong: if_cong)
qed

lemma ingest_ok:
  assumes "engine_ok n e" "ingest t now p e = Some e'"
  shows "engine_ok (Suc n) e'" "control e' = control e"
proof -
  obtain fr ok where fr: "dissect_packet t now p e = Some fr"
    and e': "(if \<not> ok then Some (checked t now p fr e)
       else accept_frame now (marked (tab_lower t) fr) (checked t now p fr e)) = Some e'"
    using assms by (auto simp: ingest_steps bind_eq_Some_conv)
  have "f_no (marked (tab_lower t) fr) = word_of_nat (Suc n)"
    using dissect_core fr assms(1) by (auto simp: dissect_packet_def marked_def engine_ok_def)
  from accept_frame_ok [OF checked_mid(1) [OF assms(1), of t now p fr] this, of now]
  have "engine_ok (Suc n) e' \<and> control e' = control e"
    using e' engine_mid_ok checked_mid [OF assms(1), of t now p fr] by (auto split: if_splits)
  then show "engine_ok (Suc n) e'" "control e' = control e" by simp_all
qed

lemma ingest_panic:
  assumes "engine_ok n e" "ingest t now p e = None" "ascii (cf_filter (e_cfg e))"
  shows "\<exists>i. i + 1 < length (p_data p) \<and> p_data p ! i = 3 \<and> p_data p ! (i + 1) = 2"
proof -
  have "dissect_packet t now p e = None"
  proof (rule ccontr)
    assume "dissect_packet t now p e \<noteq> None"
    then obtain fr where fr: "dissect_packet t now p e = Some fr" by blast
    obtain ok where ok: "filter_match t (marked (tab_lower t) fr) (cf_filter (e_cfg e)) = Some ok"
      using match_total [OF assms(3)] by blast
    have "f_no (marked (tab_lower t) fr) = word_of_nat (Suc n)"
      using dissect_core fr assms(1) by (auto simp: dissect_packet_def marked_def engine_ok_def)
    from accept_frame_ok [OF checked_mid(1) [OF assms(1), of t now p fr] this, of now]
    show False using assms(2) by (auto simp: ingest_steps [OF assms(1)] fr ok split: if_splits)
  qed
  then show ?thesis
    using dissect_result [where ul = "tab_lower t" and d = "e_dissector e" and no = "e_pkt_no e + 1"
        and ts = "packet_time now p" and cl = "p_cap_len p" and ol = "p_orig_len p"
        and lt = "p_link_type p" and data = "p_data p"]
    by (simp add: dissect_packet_def has_ws2_def)
qed

end
