(* ===== verification/System.thy ===== *)
theory System
  imports Pipeline
begin

text \<open>
  The goroutines of a running engine as a step relation. The loop of \<open>Run\<close> checks for a stop,
  waits while the engine is paused, and takes a packet; between two of its steps, other
  goroutines may pause, resume or stop the engine or flush the rows queued for the dashboard. A
  packet is taken in one step: what it touches is read by the other goroutines only under locks,
  and the queue of rows is the only part they change. The interface of a packet source is a
  locale with the law that every packet consumes input.
\<close>

section \<open>The packet source\<close>

locale packet_source =
  fixes next_pkt :: "'r \<Rightarrow> packet rd_result \<times> 'r" and left :: "'r \<Rightarrow> nat"
  assumes consumes: "next_pkt src = (Ret p, src') \<Longrightarrow> left src' < left src"

section \<open>Steps\<close>

datatype loc = Top | Waiting | Reading | Ended | Broken rd_error | Dead

record 'r sys =
  y_eng :: engine
  y_loc :: loc
  y_src :: 'r
  y_matched :: int

definition finish_sys :: "world \<Rightarrow> 'r sys \<Rightarrow> 'r sys" where
  "finish_sys w s = s\<lparr>y_loc := Ended, y_eng := finish_run w (y_matched s) (y_eng s)\<rparr>"

text \<open>After a packet: the report of every half second, then the test of the packet limit.\<close>

definition after_packet :: "world \<Rightarrow> bool \<Rightarrow> engine \<Rightarrow> 'r sys \<Rightarrow> 'r sys" where
  "after_packet w due e s =
     (let e = (if due then broadcast (report_state w e) e else e);
          s = s\<lparr>y_eng := e, y_matched := y_matched s + 1\<rparr> in
      if 0 < cf_max_packets (e_cfg e) \<and> cf_max_packets (e_cfg e) \<le> y_matched s
      then finish_sys w s else s\<lparr>y_loc := Top\<rparr>)"

inductive loop_step ::
  "world \<Rightarrow> ('r \<Rightarrow> packet rd_result \<times> 'r) \<Rightarrow> 'r sys \<Rightarrow> 'r sys \<Rightarrow> bool"
  for w :: world and next_pkt :: "'r \<Rightarrow> packet rd_result \<times> 'r"
where
  top_stop: "y_loc s = Top \<Longrightarrow> e_stop (y_eng s) \<Longrightarrow> loop_step w next_pkt s (finish_sys w s)"
| top_go: "y_loc s = Top \<Longrightarrow> \<not> e_stop (y_eng s) \<Longrightarrow> loop_step w next_pkt s (s\<lparr>y_loc := Waiting\<rparr>)"
| wait_stop: "y_loc s = Waiting \<Longrightarrow> e_paused (y_eng s) \<Longrightarrow> e_stop (y_eng s) \<Longrightarrow>
    loop_step w next_pkt s (finish_sys w s)"
| wait_go: "y_loc s = Waiting \<Longrightarrow> \<not> e_paused (y_eng s) \<Longrightarrow> loop_step w next_pkt s (s\<lparr>y_loc := Reading\<rparr>)"
| read_eof: "y_loc s = Reading \<Longrightarrow> next_pkt (y_src s) = (Err EOF, src) \<Longrightarrow>
    loop_step w next_pkt s (finish_sys w s)"
| read_error: "y_loc s = Reading \<Longrightarrow> next_pkt (y_src s) = (Err x, src) \<Longrightarrow> x \<noteq> EOF \<Longrightarrow>
    loop_step w next_pkt s (s\<lparr>y_loc := Broken x\<rparr>)"
| read_panic: "y_loc s = Reading \<Longrightarrow> next_pkt (y_src s) = (Panic, src) \<Longrightarrow>
    loop_step w next_pkt s (s\<lparr>y_loc := Dead\<rparr>)"
| packet_panic: "y_loc s = Reading \<Longrightarrow> next_pkt (y_src s) = (Ret p, src) \<Longrightarrow>
    ingest (w_tables w) now p (y_eng s) = None \<Longrightarrow> loop_step w next_pkt s (s\<lparr>y_loc := Dead\<rparr>)"
| packet_taken: "y_loc s = Reading \<Longrightarrow> next_pkt (y_src s) = (Ret p, src) \<Longrightarrow>
    ingest (w_tables w) now p (y_eng s) = Some e \<Longrightarrow>
    loop_step w next_pkt s (after_packet w due e (s\<lparr>y_src := src\<rparr>))"

datatype act =
    Pause
  | Resume
  | Stop
  | Flush
  | Tell_telegram net gotime answer finding
  | Tell_webhook net gotime answer finding

fun act_of :: "act \<Rightarrow> engine \<Rightarrow> engine" where
  "act_of Pause = engine_pause"
| "act_of Resume = engine_resume"
| "act_of Stop = engine_stop"
| "act_of Flush = flush_ws"
| "act_of (Tell_telegram n now ans f) = tell_telegram n now ans f"
| "act_of (Tell_webhook n now ans f) = tell_webhook n now ans f"

text \<open>A notifier's goroutine runs for a finding that \<open>ingest\<close> raised.\<close>

fun can_act :: "act \<Rightarrow> engine \<Rightarrow> bool" where
  "can_act (Tell_telegram n now ans f) e = (Notify f \<in> set (e_out e))"
| "can_act (Tell_webhook n now ans f) e = (Notify f \<in> set (e_out e))"
| "can_act _ e = True"

inductive env_step :: "act \<Rightarrow> 'r sys \<Rightarrow> 'r sys \<Rightarrow> bool" where
  env: "y_loc s \<noteq> Dead \<Longrightarrow> can_act a (y_eng s) \<Longrightarrow> env_step a s (s\<lparr>y_eng := act_of a (y_eng s)\<rparr>)"

text \<open>A step of the system where the other goroutines do what is in \<open>A\<close>.\<close>

definition sys_step ::
  "world \<Rightarrow> ('r \<Rightarrow> packet rd_result \<times> 'r) \<Rightarrow> act set \<Rightarrow> 'r sys \<Rightarrow> 'r sys \<Rightarrow> bool" where
  "sys_step w next_pkt A s s' = (loop_step w next_pkt s s' \<or> (\<exists>a \<in> A. env_step a s s'))"

definition start_sys :: "'r \<Rightarrow> engine \<Rightarrow> 'r sys" where
  "start_sys src e = \<lparr>y_eng = e, y_loc = Top, y_src = src, y_matched = 0\<rparr>"

inductive_cases loop_stepE: "loop_step w next_pkt s s'"
inductive_cases env_stepE: "env_step a s s'"

section \<open>What every step keeps\<close>

lemma finish_sys_fields [simp]:
  "y_loc (finish_sys w s) = Ended" "y_src (finish_sys w s) = y_src s"
  "y_matched (finish_sys w s) = y_matched s" "control (y_eng (finish_sys w s)) = control (y_eng s)"
  by (simp_all add: finish_sys_def finish_run_def control_def)

lemma finish_sys_ok: "engine_ok n (y_eng (finish_sys w s)) = engine_ok n (y_eng s)"
  by (simp add: finish_sys_def finish_run_def broadcast_ok)

lemma control_broadcast [simp]: "control (broadcast evs e) = control e"
  by (simp add: control_def)

lemma control_parts:
  "e_cfg e = fst (control e)" "e_hub e = fst (snd (control e))"
  "e_paused e = fst (snd (snd (control e)))" "e_stop e = snd (snd (snd (control e)))"
  by (simp_all add: control_def)

lemma after_packet_fields:
  "y_src (after_packet w due e s) = y_src s" "y_matched (after_packet w due e s) = y_matched s + 1"
  "control (y_eng (after_packet w due e s)) = control e"
  "y_loc (after_packet w due e s) \<in> {Top, Ended}"
  "engine_ok n (y_eng (after_packet w due e s)) = engine_ok n e"
  by (simp_all add: after_packet_def Let_def finish_sys_ok broadcast_ok report_state_def)

lemma after_packet_loc:
  "y_loc (after_packet w due e s) = Top \<Longrightarrow>
   0 < cf_max_packets (e_cfg e) \<longrightarrow> y_matched s + 1 < cf_max_packets (e_cfg e)"
  by (auto simp: after_packet_def Let_def split: if_splits)

lemma act_ok: "engine_ok m e \<Longrightarrow> engine_ok m (act_of a e)"
proof (cases a)
  case Flush
  assume ok: "engine_ok m e"
  show ?thesis
  proof (cases "e_hub e \<and> e_pending e \<noteq> []")
    case True
    have s: "sent_rows (e_out (flush_ws e)) = sent_rows (e_out e) @ e_pending e"
      using True by (simp add: flush_ws_def Let_def)
    show ?thesis
      using ok True s
      by (simp add: Flush engine_ok_def tables_ok_def frames_ok_def rows_ok_def)
        (simp add: flush_ws_def Let_def algebra_simps)
  next
    case False
    then have "flush_ws e = e" by (auto simp: flush_ws_def Let_def)
    with ok show ?thesis by (simp add: Flush)
  qed
next
  case (Tell_webhook n now ans f)
  assume ok: "engine_ok m e"
  have "length (wh_seen (e_webhook e)) \<le> 2000" using ok by (simp add: engine_ok_def tables_ok_def)
  note le = webhook_notify_seen [OF this]
  have "frames_ok m (e\<lparr>e_webhook := w\<rparr>) = frames_ok m e" "rows_ok m (e\<lparr>e_webhook := w\<rparr>) = rows_ok m e" for w
    by (simp_all add: frames_ok_def rows_ok_def)
  with le ok show ?thesis
    by (simp add: Tell_webhook tell_webhook_def engine_ok_def tables_ok_def)
qed (auto simp: engine_pause_def engine_resume_def engine_stop_def tell_telegram_def Let_def broadcast_ok
    engine_ok_def tables_ok_def frames_ok_def rows_ok_def split: if_splits)

text \<open>The invariant: as many packets as the number says, never more than the limit.\<close>

definition sys_ok :: "'r sys \<Rightarrow> bool" where
  "sys_ok s =
     (\<exists>n. engine_ok n (y_eng s) \<and> y_matched s = int n \<and>
        (let m = cf_max_packets (e_cfg (y_eng s)) in
         0 < m \<longrightarrow> int n \<le> m \<and> (y_loc s \<in> {Top, Waiting, Reading} \<longrightarrow> int n < m)))"

lemma act_cfg: "e_cfg (act_of a e) = e_cfg e" "e_hub (act_of a e) = e_hub e"
  by (cases a; simp add: engine_pause_def engine_resume_def engine_stop_def flush_ws_def
      tell_telegram_def tell_webhook_def Let_def)+

lemma loop_step_ok:
  assumes "loop_step w next_pkt s s'" "sys_ok s"
  shows "sys_ok s' \<and> control (y_eng s') = control (y_eng s)"
proof -
  obtain n where n: "engine_ok n (y_eng s)" "y_matched s = int n"
    "0 < cf_max_packets (e_cfg (y_eng s)) \<Longrightarrow> int n \<le> cf_max_packets (e_cfg (y_eng s)) \<and>
      (y_loc s \<in> {Top, Waiting, Reading} \<longrightarrow> int n < cf_max_packets (e_cfg (y_eng s)))"
    using assms(2) by (auto simp: sys_ok_def Let_def)
  have fin: "sys_ok (finish_sys w s)"
    using n by (auto simp: sys_ok_def finish_sys_ok Let_def control_parts(1))
  from assms(1) show ?thesis
  proof cases
    case (packet_taken p src now e due)
    let ?t = "after_packet w due e (s\<lparr>y_src := src\<rparr>)"
    from ingest_ok [OF n(1) packet_taken(4)]
    have e: "engine_ok (Suc n) e" "control e = control (y_eng s)" by simp_all
    have cfg: "e_cfg (y_eng ?t) = e_cfg (y_eng s)" "e_cfg e = e_cfg (y_eng s)"
      by (simp_all add: control_parts(1) after_packet_fields e(2))
    have "y_loc ?t = Top \<Longrightarrow> 0 < cf_max_packets (e_cfg (y_eng s)) \<longrightarrow>
        int (Suc n) < cf_max_packets (e_cfg (y_eng s))"
      using after_packet_loc [of w due e "s\<lparr>y_src := src\<rparr>"] n(2) by (auto simp: cfg)
    moreover have "y_loc ?t = Top \<or> y_loc ?t = Ended" using after_packet_fields(4) by blast
    ultimately have "sys_ok ?t"
      unfolding sys_ok_def Let_def cfg
      using n packet_taken(2) e(1)
      by (intro exI [of _ "Suc n"]) (auto simp: after_packet_fields)
    then show ?thesis using packet_taken(1) e(2) by (simp add: after_packet_fields)
  qed (use n fin in \<open>auto simp: sys_ok_def Let_def\<close>)
qed

lemma env_step_ok: "env_step a s s' \<Longrightarrow> sys_ok s \<Longrightarrow> sys_ok s'"
  by (elim env_stepE) (auto simp: sys_ok_def Let_def act_cfg act_ok)

lemma sys_step_ok: "sys_step w next_pkt A s s' \<Longrightarrow> sys_ok s \<Longrightarrow> sys_ok s'"
  using loop_step_ok env_step_ok by (auto simp: sys_step_def)

lemma reach_ok: "(sys_step w next_pkt A)\<^sup>*\<^sup>* s s' \<Longrightarrow> sys_ok s \<Longrightarrow> sys_ok s'"
  by (induction rule: rtranclp_induct) (auto dest: sys_step_ok)

lemma start_ok: "engine_ok 0 e \<Longrightarrow> sys_ok (start_sys src e)"
  by (auto simp: sys_ok_def start_sys_def Let_def)

section \<open>Stopping and pausing\<close>

lemma act_stop: "e_stop e \<Longrightarrow> e_stop (act_of a e)"
  by (cases a) (simp_all add: engine_pause_def engine_resume_def engine_stop_def flush_ws_def
      tell_telegram_def tell_webhook_def Let_def)

lemma act_pause: "a \<noteq> Resume \<Longrightarrow> e_paused e \<Longrightarrow> e_paused (act_of a e)"
  by (cases a) (simp_all add: engine_pause_def engine_resume_def engine_stop_def flush_ws_def
      tell_telegram_def tell_webhook_def Let_def)

text \<open>How many packets the loop may still take once it was stopped, or while it is paused.\<close>

definition stop_budget :: "loc \<Rightarrow> int" where
  "stop_budget l = (if l = Waiting \<or> l = Reading then 1 else 0)"

definition pause_budget :: "loc \<Rightarrow> int" where
  "pause_budget l = (if l = Reading then 1 else 0)"

lemma stop_step:
  assumes "sys_step w next_pkt A s s'" "sys_ok s" "e_stop (y_eng s)"
  shows "e_stop (y_eng s') \<and>
    y_matched s' + stop_budget (y_loc s') \<le> y_matched s + stop_budget (y_loc s)"
  using assms(1) unfolding sys_step_def
proof (elim disjE bexE)
  assume l: "loop_step w next_pkt s s'"
  then have "e_stop (y_eng s')"
    using loop_step_ok [OF l assms(2)] assms(3) by (simp add: control_parts(4))
  moreover from l have "y_matched s' + stop_budget (y_loc s') \<le> y_matched s + stop_budget (y_loc s)"
  proof cases
    case (packet_taken p src now e due)
    then show ?thesis
      using after_packet_fields(4) [of w due e "s\<lparr>y_src := src\<rparr>"]
      by (auto simp: after_packet_fields stop_budget_def)
  qed (use assms(3) in \<open>auto simp: stop_budget_def\<close>)
  ultimately show ?thesis by simp
qed (auto elim!: env_stepE simp: act_stop assms(3))

lemma pause_step:
  assumes "sys_step w next_pkt A s s'" "Resume \<notin> A" "sys_ok s" "e_paused (y_eng s)"
  shows "e_paused (y_eng s') \<and>
    y_matched s' + pause_budget (y_loc s') \<le> y_matched s + pause_budget (y_loc s)"
  using assms(1) unfolding sys_step_def
proof (elim disjE bexE)
  assume l: "loop_step w next_pkt s s'"
  then have "e_paused (y_eng s')"
    using loop_step_ok [OF l assms(3)] assms(4) by (simp add: control_parts(3))
  moreover from l have "y_matched s' + pause_budget (y_loc s') \<le> y_matched s + pause_budget (y_loc s)"
  proof cases
    case (packet_taken p src now e due)
    then show ?thesis
      using after_packet_fields(4) [of w due e "s\<lparr>y_src := src\<rparr>"]
      by (auto simp: after_packet_fields pause_budget_def)
  qed (use assms(4) in \<open>auto simp: pause_budget_def\<close>)
  ultimately show ?thesis by simp
next
  fix a assume a: "a \<in> A" "env_step a s s'"
  then have "a \<noteq> Resume" using assms(2) by blast
  with a(2) show ?thesis by (auto elim!: env_stepE simp: act_pause assms(4))
qed

lemma stop_run:
  assumes "(sys_step w next_pkt A)\<^sup>*\<^sup>* s s'" "sys_ok s" "e_stop (y_eng s)"
  shows "y_matched s' + stop_budget (y_loc s') \<le> y_matched s + stop_budget (y_loc s)"
proof -
  have "sys_ok s' \<and> e_stop (y_eng s') \<and>
      y_matched s' + stop_budget (y_loc s') \<le> y_matched s + stop_budget (y_loc s)"
    using assms(1)
  proof (induction rule: rtranclp_induct)
    case (step s1 s2)
    then show ?case using stop_step [OF step(2)] sys_step_ok [OF step(2)] by force
  qed (use assms in simp)
  then show ?thesis by simp
qed

lemma pause_run:
  assumes "(sys_step w next_pkt A)\<^sup>*\<^sup>* s s'" "Resume \<notin> A" "sys_ok s" "e_paused (y_eng s)"
  shows "y_matched s' + pause_budget (y_loc s') \<le> y_matched s + pause_budget (y_loc s)"
proof -
  have "sys_ok s' \<and> e_paused (y_eng s') \<and>
      y_matched s' + pause_budget (y_loc s') \<le> y_matched s + pause_budget (y_loc s)"
    using assms(1)
  proof (induction rule: rtranclp_induct)
    case (step s1 s2)
    then show ?case using pause_step [OF step(2) assms(2)] sys_step_ok [OF step(2)] by force
  qed (use assms in simp)
  then show ?thesis by simp
qed

section \<open>The loop ends\<close>

fun loc_rank :: "loc \<Rightarrow> nat" where
  "loc_rank Top = 3" | "loc_rank Waiting = 2" | "loc_rank Reading = 1" | "loc_rank _ = 0"

definition final :: "loc \<Rightarrow> bool" where
  "final l = (l \<notin> {Top, Waiting, Reading})"

lemma final_cases: "final l \<longleftrightarrow> loc_rank l = 0"
  by (cases l) (simp_all add: final_def)

lemma read_progress:
  assumes r: "y_loc s = Reading"
  shows "\<exists>s'. loop_step w next_pkt s s'"
proof -
  obtain x src where n: "next_pkt (y_src s) = (x, src)" by fastforce
  show ?thesis
  proof (cases x)
    case (Ret p)
    show ?thesis
    proof (cases "ingest (w_tables w) 0 p (y_eng s)")
      case None
      from packet_panic [where s = s and next_pkt = next_pkt and w = w, OF r n [unfolded Ret] None] show ?thesis by blast
    next
      case (Some e)
      from packet_taken [where s = s and next_pkt = next_pkt and w = w, OF r n [unfolded Ret] Some] show ?thesis by blast
    qed
  next
    case (Err y)
    then show ?thesis
      using read_eof [where s = s and next_pkt = next_pkt, OF r] read_error [where s = s and next_pkt = next_pkt and x = y, OF r] n by (cases "y = EOF") blast+
  next
    case Panic
    from read_panic [where s = s and next_pkt = next_pkt, OF r n [unfolded Panic]] show ?thesis by blast
  qed
qed

lemma loop_progress:
  assumes "\<not> final (y_loc s)" "\<not> e_paused (y_eng s)"
  shows "\<exists>s'. loop_step w next_pkt s s'"
proof -
  consider "y_loc s = Top" | "y_loc s = Waiting" | "y_loc s = Reading"
    using assms(1) by (auto simp: final_def)
  then show ?thesis
  proof cases
    case 1
    show ?thesis using top_stop [OF 1] top_go [OF 1] by (cases "e_stop (y_eng s)") blast+
  next
    case 2
    from wait_go [OF 2 assms(2)] show ?thesis by blast
  next
    case 3
    then show ?thesis by (rule read_progress)
  qed
qed

context packet_source begin

lemma loop_measure:
  "loop_step w next_pkt s s' \<Longrightarrow>
   (s', s) \<in> measures [\<lambda>s. left (y_src s), \<lambda>s. loc_rank (y_loc s)]"
proof (induction rule: loop_step.induct)
  case (packet_taken s p src now e due)
  then show ?case using consumes [OF packet_taken(2)] by (simp add: after_packet_fields)
qed simp_all

lemma loop_wf: "wf {(s', s). loop_step w next_pkt s s'}"
proof (rule wf_subset [OF wf_measures])
  show "{(s', s). loop_step w next_pkt s s'} \<subseteq>
      measures [\<lambda>s. left (y_src s), \<lambda>s. loc_rank (y_loc s)]"
    using loop_measure by blast
qed

lemma loop_ends:
  "sys_ok s \<Longrightarrow> \<not> e_paused (y_eng s) \<Longrightarrow> \<exists>s'. (loop_step w next_pkt)\<^sup>*\<^sup>* s s' \<and> final (y_loc s')"
proof (induction s rule: wf_induct_rule [OF loop_wf [of w]])
  case (1 s)
  show ?case
  proof (cases "final (y_loc s)")
    case False
    then obtain s1 where s1: "loop_step w next_pkt s s1"
      using loop_progress [of s w next_pkt] 1 by blast
    from loop_step_ok [OF s1 "1.prems"(1)] "1.prems"(2)
    have "sys_ok s1" "\<not> e_paused (y_eng s1)" by (simp_all add: control_parts(3))
    with 1 s1 obtain s' where "(loop_step w next_pkt)\<^sup>*\<^sup>* s1 s'" "final (y_loc s')" by blast
    with s1 show ?thesis by (blast intro: converse_rtranclp_into_rtranclp)
  qed blast
qed

end

text \<open>A capture file is such a source.\<close>

interpretation capture: packet_source "\<lambda>rd. next_packet (clock (r_count rd)) rd" "\<lambda>rd. length (r_in rd)"
  for clock :: "u64 \<Rightarrow> gotime"
  by unfold_locales (rule next_packet_shrinks)

section \<open>Properties\<close>

abbreviation live_start :: "net \<Rightarrow> gotime \<Rightarrow> config \<Rightarrow> 'r \<Rightarrow> 'r sys" where
  "live_start n now cfg src \<equiv> start_sys src (set_hub (new_engine n now cfg))"

lemma loop_step_cfg: "loop_step w next_pkt s s' \<Longrightarrow> sys_ok s \<Longrightarrow>
    e_cfg (y_eng s') = e_cfg (y_eng s) \<and> e_hub (y_eng s') = e_hub (y_eng s)"
  using loop_step_ok by (metis control_parts(1,2))

lemma sys_step_cfg: "sys_step w next_pkt A s s' \<Longrightarrow> sys_ok s \<Longrightarrow>
    e_cfg (y_eng s') = e_cfg (y_eng s) \<and> e_hub (y_eng s') = e_hub (y_eng s)"
  unfolding sys_step_def
  by (elim disjE bexE) (auto dest: loop_step_cfg elim!: env_stepE simp: act_cfg)

lemma reach_cfg: "(sys_step w next_pkt A)\<^sup>*\<^sup>* s s' \<Longrightarrow> sys_ok s \<Longrightarrow>
    e_cfg (y_eng s') = e_cfg (y_eng s) \<and> e_hub (y_eng s') = e_hub (y_eng s)"
  by (induction rule: rtranclp_induct) (auto dest: sys_step_cfg intro: reach_ok)

lemma live_ok: "sys_ok (live_start n now cfg src)"
  by (rule start_ok, rule new_engine_ok)

lemma live_reach:
  assumes "(sys_step w next_pkt A)\<^sup>*\<^sup>* (live_start n now cfg src) s"
  shows "sys_ok s" "e_cfg (y_eng s) = cfg" "e_hub (y_eng s)"
  using reach_ok [OF assms live_ok] reach_cfg [OF assms live_ok]
  by (simp_all add: start_sys_def set_hub_def new_engine_def)

text \<open>However long a live capture runs and whatever packets come, with other goroutines that
  pause, resume, stop and flush at any moment, the engine holds at most 50000 frames, 10000
  conversations, 3000 sessions, 500 findings, 36 rows for the dashboard and 2000 keys of the webhook.\<close>

theorem live_capture_bounded:
  assumes "(sys_step w next_pkt A)\<^sup>*\<^sup>* (live_start n now cfg src) s"
  shows "length (e_frames (y_eng s)) \<le> 50000 \<and> length (t_flows (e_flows (y_eng s))) \<le> 10000 \<and>
    length (p_by_key (e_sessions (y_eng s))) \<le> 3000 \<and>
    length (analyzer_findings (e_security (y_eng s))) \<le> 500 \<and> length (e_pending (y_eng s)) \<le> 36 \<and>
    length (wh_seen (e_webhook (y_eng s))) \<le> 2000"
  using live_reach(1) [OF assms]
  by (auto simp: sys_ok_def Let_def engine_ok_def tables_ok_def frames_ok_def rows_ok_def
      conv.inv_def sess.inv_def fifo_inv_def max_pending_def analyzer_findings_def)

text \<open>A source of one packet, and where the engine first stands, for the witnesses.\<close>

definition one_packet :: "bytes \<Rightarrow> bool \<Rightarrow> packet rd_result \<times> bool" where
  "one_packet d again =
     (if again then
        (Ret \<lparr>p_no = 1, p_timestamp = 0, p_cap_len = 44, p_orig_len = 44, p_data = d,
              p_link_type = 101\<rparr>, False)
      else (Err EOF, False))"

definition demo_world :: world where
  "demo_world = \<lparr>w_tables = plain_tables, w_net = demo_net, w_clock = (\<lambda>_. 0), w_due = (\<lambda>_. False), w_sort = id,
     w_sessions = id, w_talkers = id, w_convs = id\<rparr>"

definition demo_config :: config where
  "demo_config = \<lparr>cf_path = [], cf_iface = ''eth0'', cf_bpf = [], cf_filter = [],
     cf_max_packets = 1, cf_include_hex = False, cf_speed = 0, cf_promisc = True,
     cf_stdin = False, cf_kernel = False, cf_tg_token = [], cf_tg_chat = [], cf_tg_dry = False,
     cf_webhook_url = [], cf_webhook_dry = False, cf_write_path = []\<rparr>"

abbreviation demo_start :: "bool sys" where
  "demo_start \<equiv> live_start demo_net 0 demo_config True"

lemma demo_reading:
  "(sys_step demo_world (one_packet d) A)\<^sup>*\<^sup>* demo_start (demo_start\<lparr>y_loc := Reading\<rparr>)"
proof -
  have "sys_step demo_world (one_packet d) A demo_start (demo_start\<lparr>y_loc := Waiting\<rparr>)"
    unfolding sys_step_def
    by (intro disjI1 top_go) (simp_all add: start_sys_def set_hub_def new_engine_def)
  moreover have "sys_step demo_world (one_packet d) A
      (demo_start\<lparr>y_loc := Waiting\<rparr>) (demo_start\<lparr>y_loc := Waiting, y_loc := Reading\<rparr>)"
    unfolding sys_step_def
    by (intro disjI1 wait_go) (simp_all add: start_sys_def set_hub_def new_engine_def)
  ultimately show ?thesis by simp
qed

lemma demo_taken:
  "\<exists>s. (sys_step demo_world (one_packet []) A)\<^sup>*\<^sup>* demo_start s \<and> y_matched s = 1"
proof -
  let ?s = "demo_start\<lparr>y_loc := Reading\<rparr>"
  obtain p where p: "one_packet [] (y_src ?s) = (Ret p, False)" "p_data p = []"
    by (simp add: one_packet_def start_sys_def)
  have "ingest (w_tables demo_world) 0 p (y_eng ?s) \<noteq> None"
    using ingest_panic [OF new_engine_ok(2) [of demo_net 0 demo_config], of "w_tables demo_world" 0 p] p(2)
    by (auto simp: start_sys_def demo_config_def new_engine_def set_hub_def ascii_def)
  then obtain e where e: "ingest (w_tables demo_world) 0 p (y_eng ?s) = Some e" by blast
  have "loop_step demo_world (one_packet []) ?s (after_packet demo_world False e (?s\<lparr>y_src := False\<rparr>))"
    by (rule packet_taken [where s = ?s and next_pkt = "one_packet []", OF _ p(1) e]) simp
  with demo_reading [of "[]" A] show ?thesis
    by (intro exI conjI, elim rtranclp.rtrancl_into_rtrancl)
      (auto simp: sys_step_def after_packet_fields start_sys_def)
qed

lemma demo_crash:
  "loop_step demo_world (one_packet crash_packet) (demo_start\<lparr>y_loc := Reading\<rparr>)
     (demo_start\<lparr>y_loc := Dead\<rparr>)"
proof -
  let ?s = "demo_start\<lparr>y_loc := Reading\<rparr>"
  obtain p where p: "one_packet crash_packet (y_src ?s) = (Ret p, False)" "p_data p = crash_packet"
    "p_link_type p = 101"
    by (simp add: one_packet_def start_sys_def)
  have "ingest (w_tables demo_world) 0 p (set_hub (new_engine demo_net 0 demo_config)) = None"
    by (simp add: ingest_steps [OF new_engine_ok(2)] dissect_packet_def dissect_def crash_link p)
  then have "ingest (w_tables demo_world) 0 p (y_eng ?s) = None" by (simp add: start_sys_def)
  from packet_panic [where s = ?s and next_pkt = "one_packet crash_packet", OF _ p(1) this] show ?thesis by simp
qed

lemma live_capture_bounded_witness:
  "\<exists>s. y_matched s = 1 \<and> length (e_frames (y_eng s)) \<le> 50000 \<and>
    length (t_flows (e_flows (y_eng (s :: bool sys)))) \<le> 10000 \<and> length (e_pending (y_eng s)) \<le> 36"
  using demo_taken [of UNIV] live_capture_bounded by metis

text \<open>C2: every frame that passed the filter was queued for the dashboard once: the frames counted
  are the rows sent, the rows dropped and the rows still waiting (modulo 2^64, as the counters
  are), and the rows sent and waiting are in the order of the packets, none twice.\<close>

theorem dashboard_accounts:
  assumes "(sys_step w next_pkt A)\<^sup>*\<^sup>* (live_start n now cfg src) s"
  defines "e \<equiv> y_eng s"
  shows "st_packets (e_stats e) = e_ws_sent e + e_ws_dropped e + word_of_nat (length (e_pending e)) \<and>
    e_ws_sent e = word_of_nat (length (sent_rows (e_out e))) \<and>
    (\<exists>ns. map ro_no (sent_rows (e_out e) @ e_pending e) = map word_of_nat ns \<and>
      sorted_wrt (<) ns \<and> (\<forall>n \<in> set ns. int n \<le> y_matched s))"
proof -
  obtain m where n: "engine_ok m e" "y_matched s = int m"
    using live_reach(1) [OF assms(1)] by (auto simp: sys_ok_def Let_def e_def)
  show ?thesis
    using n(1) live_reach(3) [OF assms(1)]
    by (simp add: engine_ok_def rows_ok_def n(2) e_def numbered_upto_def)
qed

lemma dashboard_accounts_witness:
  "\<exists>s :: bool sys. y_matched s = 1 \<and> st_packets (e_stats (y_eng s)) =
     e_ws_sent (y_eng s) + e_ws_dropped (y_eng s) + word_of_nat (length (e_pending (y_eng s)))"
  using demo_taken [of UNIV] dashboard_accounts by metis

text \<open>With a packet limit, the engine never takes more packets than the limit, and the number
  of the last packet is the count of packets taken.\<close>

theorem packet_limit:
  assumes "(sys_step w next_pkt A)\<^sup>*\<^sup>* (live_start n now cfg src) s" "0 < cf_max_packets cfg"
  shows "0 \<le> y_matched s \<and> y_matched s \<le> cf_max_packets cfg \<and>
    e_pkt_no (y_eng s) = word_of_int (y_matched s) \<and>
    (y_matched s = cf_max_packets cfg \<longrightarrow> final (y_loc s))"
  using live_reach(1,2) [OF assms(1)] assms(2)
  by (auto simp: sys_ok_def Let_def engine_ok_def final_def)

lemma packet_limit_witness:
  "\<exists>s :: bool sys. y_matched s = 1 \<and> final (y_loc s)"
proof -
  obtain s where s: "(sys_step demo_world (one_packet []) {})\<^sup>*\<^sup>* demo_start s" "y_matched s = 1"
    using demo_taken by blast
  from packet_limit [OF s(1)] s(2) show ?thesis by (auto simp: demo_config_def)
qed

text \<open>C4: with a display filter of ASCII letters, the capture dies of a packet only if the reader
  panicked or the packet has a byte 3 in front of a byte 2.\<close>

theorem crash_cause:
  assumes "(sys_step w next_pkt A)\<^sup>*\<^sup>* (live_start n now cfg src) s" "ascii (cf_filter cfg)"
    and "loop_step w next_pkt s s'" "y_loc s' = Dead"
  shows "fst (next_pkt (y_src s)) = Panic \<or>
    (\<exists>p i. fst (next_pkt (y_src s)) = Ret p \<and> i + 1 < length (p_data p) \<and>
      p_data p ! i = 3 \<and> p_data p ! (i + 1) = 2)"
  using assms(3)
proof cases
  case (packet_panic p src now)
  obtain m where n: "engine_ok m (y_eng s)"
    using live_reach(1) [OF assms(1)] by (auto simp: sys_ok_def Let_def)
  from ingest_panic [OF this packet_panic(4)] show ?thesis
    using packet_panic(3) assms(2) live_reach(2) [OF assms(1)] by simp
next
  case (packet_taken p src now e due)
  then show ?thesis
    using assms(4) after_packet_fields(4) [of w due e "s\<lparr>y_src := src\<rparr>"] by auto
qed (use assms(4) in auto)

lemma crash_cause_witness:
  "(\<exists>p i. fst (one_packet crash_packet True) = Ret p \<and> i + 1 < length (p_data p) \<and>
      p_data p ! i = 3 \<and> p_data p ! (i + 1) = 2) \<or> fst (one_packet crash_packet True) = Panic"
  using crash_cause [OF demo_reading [of crash_packet "{}"] _ demo_crash]
  by (auto simp: demo_config_def ascii_def start_sys_def)

text \<open>C5: after \<open>Stop\<close> the loop takes at most one packet more, whatever the other goroutines do;
  so does a paused engine that nobody resumes.\<close>

theorem stop_and_pause:
  assumes "(sys_step w next_pkt A)\<^sup>*\<^sup>* (live_start n now cfg src) s"
    and "(sys_step w next_pkt B)\<^sup>*\<^sup>* s s'"
    and "e_stop (y_eng s) \<or> e_paused (y_eng s) \<and> Resume \<notin> B"
  shows "y_matched s' \<le> y_matched s + 1"
  using stop_run [OF assms(2) live_reach(1) [OF assms(1)]]
    pause_run [OF assms(2) _ live_reach(1) [OF assms(1)]] assms(3)
  by (auto simp: stop_budget_def pause_budget_def split: if_splits)

lemma stop_and_pause_witness:
  "\<exists>(s :: bool sys) (s' :: bool sys). e_stop (y_eng s) \<and> y_matched s = 0 \<and> y_matched s' = 1 \<and>
     y_matched s' \<le> y_matched s + 1"
proof -
  let ?r = "demo_start\<lparr>y_loc := Reading\<rparr>"
  let ?s = "?r\<lparr>y_eng := act_of Stop (y_eng ?r)\<rparr>"
  have "env_step Stop ?r ?s" by (rule env) simp_all
  then have r: "(sys_step demo_world (one_packet []) UNIV)\<^sup>*\<^sup>* demo_start ?s"
    by (intro rtranclp.rtrancl_into_rtrancl [OF demo_reading]) (auto simp: sys_step_def)
  obtain p where p: "one_packet [] (y_src ?s) = (Ret p, False)" "p_data p = []"
    by (simp add: one_packet_def start_sys_def)
  have k: "engine_ok 0 (y_eng ?s)" "cf_filter (e_cfg (y_eng ?s)) = []"
    using act_ok [OF new_engine_ok(2) [of demo_net 0 demo_config], of Stop]
    by (simp_all add: start_sys_def engine_stop_def set_hub_def new_engine_def demo_config_def)
  then obtain e where e: "ingest (w_tables demo_world) 0 p (y_eng ?s) = Some e"
    using ingest_panic [OF k(1), of "w_tables demo_world" 0 p] p(2) by (auto simp: ascii_def)
  let ?t = "after_packet demo_world False e (?s\<lparr>y_src := False\<rparr>)"
  have "loop_step demo_world (one_packet []) ?s ?t"
    by (rule packet_taken [where s = ?s and next_pkt = "one_packet []", OF _ p(1) e]) simp
  then have t: "(sys_step demo_world (one_packet []) UNIV)\<^sup>*\<^sup>* ?s ?t" by (auto simp: sys_step_def)
  have m: "e_stop (y_eng ?s)" "y_matched ?s = 0" "y_matched ?t = 1"
    by (simp_all add: engine_stop_def after_packet_fields start_sys_def)
  from m stop_and_pause [OF r t disjI1 [OF m(1)]] show ?thesis by blast
qed

text \<open>C3: on a capture file the loop ends: no run of its steps is infinite, and an engine that is
  not paused can always go on until the loop has ended.\<close>

theorem run_ends:
  fixes clock :: "u64 \<Rightarrow> gotime"
  defines "next_pkt \<equiv> \<lambda>rd. next_packet (clock (r_count rd)) rd"
  assumes "(sys_step w next_pkt A)\<^sup>*\<^sup>* (live_start n now cfg rd) s" "\<not> e_paused (y_eng s)"
  shows "wf {(s', s). loop_step w next_pkt s s'} \<and>
    (\<exists>s'. (loop_step w next_pkt)\<^sup>*\<^sup>* s s' \<and> final (y_loc s'))"
  using capture.loop_wf [of w clock] capture.loop_ends [OF live_reach(1) [OF assms(2)] assms(3), of w clock]
  by (simp add: next_pkt_def)

lemma run_ends_witness:
  "\<exists>s'. (loop_step demo_world (next_packet 0))\<^sup>*\<^sup>* (live_start demo_net 0 demo_config (fresh_reader [1, 2, 3])) s' \<and>
     final (y_loc s')"
  using run_ends [OF rtranclp.rtrancl_refl, where w = demo_world and clock = "\<lambda>_. 0"]
  by (simp add: start_sys_def set_hub_def new_engine_def)

end
