(* ===== verification/Batch.thy ===== *)
theory Batch
  imports System
begin

text \<open>
  The run over a whole capture file: the loop of \<open>Run\<close> with the reader as its source is a fold of
  \<open>ingest\<close> over the packets of the file, so what the file holds is what the engine holds. The
  lemmas compose the reader, the dissector, the analyzer and the store, and the recorder with the
  writer and the reader.
\<close>

section \<open>A list of packets\<close>

text \<open>A packet and the report after it, as the loop of \<open>Run\<close> does them.\<close>

definition take_packet :: "world \<Rightarrow> packet \<Rightarrow> engine \<Rightarrow> engine option" where
  "take_packet w p e =
     map_option (\<lambda>e. if w_due w (e_pkt_no e) then broadcast (report_state w e) e else e)
       (ingest (w_tables w) (w_clock w (e_pkt_no e)) p e)"

fun take_packets :: "world \<Rightarrow> packet list \<Rightarrow> engine \<Rightarrow> engine option" where
  "take_packets w [] e = Some e"
| "take_packets w (p # ps) e = do { e \<leftarrow> take_packet w p e; take_packets w ps e }"

lemma take_packet_ok:
  assumes "engine_ok n e" "take_packet w p e = Some e'"
  shows "engine_ok (Suc n) e'" "control e' = control e"
  using assms(2) ingest_ok [OF assms(1)]
  by (auto simp: take_packet_def broadcast_ok report_state_def)

lemma take_packets_ok:
  "engine_ok n e \<Longrightarrow> take_packets w ps e = Some e' \<Longrightarrow>
   engine_ok (n + length ps) e' \<and> control e' = control e"
proof (induction ps arbitrary: n e)
  case (Cons p ps)
  then obtain e1 where e1: "take_packet w p e = Some e1" "take_packets w ps e1 = Some e'"
    by (auto simp: bind_eq_Some_conv)
  from Cons.IH [OF take_packet_ok(1) [OF Cons.prems(1) e1(1)] e1(2)]
    take_packet_ok(2) [OF Cons.prems(1) e1(1)] show ?case by simp
qed simp

lemma take_packets_total:
  "engine_ok n e \<Longrightarrow> ascii (cf_filter (e_cfg e)) \<Longrightarrow> \<forall>p \<in> set ps. \<not> has_ws2 (p_data p) \<Longrightarrow>
   \<exists>e'. take_packets w ps e = Some e'"
proof (induction ps arbitrary: n e)
  case (Cons p ps)
  have "ingest (w_tables w) (w_clock w (e_pkt_no e)) p e \<noteq> None"
    using ingest_panic [OF Cons.prems(1), of "w_tables w" "w_clock w (e_pkt_no e)" p] Cons.prems(2,3)
    unfolding has_ws2_def by auto
  then obtain e1 where e1: "take_packet w p e = Some e1" by (auto simp: take_packet_def)
  note ok = take_packet_ok [OF Cons.prems(1) e1]
  have "e_cfg e1 = e_cfg e" using ok(2) by (simp add: control_parts(1))
  with Cons.IH [OF ok(1)] Cons.prems(2,3) e1 show ?case by simp
qed simp

section \<open>The loop is the fold\<close>

lemma all_packets_out:
  "all_packets clock rd out = map_option (apfst ((@) out)) (all_packets clock rd [])"
proof (induction rd arbitrary: out rule: measure_induct_rule [of "\<lambda>rd. length (r_in rd)"])
  case (less rd)
  obtain x rd' where n: "next_packet (clock (r_count rd)) rd = (x, rd')" by fastforce
  show ?case
  proof (cases x)
    case (Ret p)
    have "length (r_in rd') < length (r_in rd)"
      using next_packet_shrinks n Ret by blast
    from less [OF this, of "out @ [p]"] less [OF this, of "[p]"] show ?thesis
      by (simp add: all_packets.simps [of clock rd] n Ret option.map_comp comp_def apfst_def map_prod_def split_beta)
  qed (simp_all add: all_packets.simps [of clock rd] n)
qed

definition run_result_of :: "world \<Rightarrow> int \<Rightarrow> engine \<Rightarrow> (packet list \<times> rd_error option) option \<Rightarrow> run_result" where
  "run_result_of w m e got =
     (case got of
        None \<Rightarrow> Crashed
      | Some (ps, err) \<Rightarrow>
          (case take_packets w ps e of
             None \<Rightarrow> Crashed
           | Some e' \<Rightarrow>
               (case err of None \<Rightarrow> Finished (finish_run w (m + int (length ps)) e') | Some x \<Rightarrow> Failed x e')))"

lemma run_loop_all:
  assumes "engine_ok n e" "\<not> e_stop e" "\<not> e_paused e" "cf_max_packets (e_cfg e) \<le> 0"
  shows "run_loop w (\<lambda>rd. next_packet (w_clock w (r_count rd)) rd) rd m e =
    Some (run_result_of w m e (all_packets (w_clock w) rd []))"
  using assms
proof (induction rd arbitrary: n e m rule: measure_induct_rule [of "\<lambda>rd. length (r_in rd)"])
  case (less rd)
  obtain x rd' where n: "next_packet (w_clock w (r_count rd)) rd = (x, rd')" by fastforce
  note loop = run_loop.simps [of w "\<lambda>rd. next_packet (w_clock w (r_count rd)) rd" rd m e]
  show ?case
  proof (cases x)
    case (Ret p)
    have sh: "length (r_in rd') < length (r_in rd)"
      using next_packet_shrinks n Ret by blast
    have a: "all_packets (w_clock w) rd [] = map_option (apfst ((#) p)) (all_packets (w_clock w) rd' [])"
      using all_packets_out [of "w_clock w" rd' "[p]"]
      by (simp add: all_packets.simps [of "w_clock w" rd] n Ret append_Cons [abs_def])
    show ?thesis
    proof (cases "ingest (w_tables w) (w_clock w (e_pkt_no e)) p e")
      case None
      then show ?thesis
        using less.prems(2,3)
        by (simp add: loop n Ret a run_result_of_def take_packet_def split: option.split)
    next
      case (Some e0)
      define e1 where "e1 = (if w_due w (e_pkt_no e0) then broadcast (report_state w e0) e0 else e0)"
      have t: "take_packet w p e = Some e1" by (simp add: take_packet_def Some e1_def)
      note ok = take_packet_ok [OF less.prems(1) t]
      have c: "\<not> e_stop e1" "\<not> e_paused e1" "cf_max_packets (e_cfg e1) \<le> 0"
        using ok(2) less.prems(2-4) by (simp_all add: control_parts)
      have "run_loop w (\<lambda>rd. next_packet (w_clock w (r_count rd)) rd) rd m e =
          run_loop w (\<lambda>rd. next_packet (w_clock w (r_count rd)) rd) rd' (m + 1) e1"
        using less.prems(2,3) c(3) by (simp add: loop n Ret Some e1_def [symmetric] Let_def)
      also have "\<dots> = Some (run_result_of w (m + 1) e1 (all_packets (w_clock w) rd' []))"
        by (rule less.IH [OF sh ok(1) c])
      also have "run_result_of w (m + 1) e1 (all_packets (w_clock w) rd' []) =
          run_result_of w m e (all_packets (w_clock w) rd [])"
        by (cases "all_packets (w_clock w) rd' []")
          (auto simp: run_result_of_def a t add.assoc split: option.split)
      finally show ?thesis .
    qed
  next
    case (Err x)
    then show ?thesis
      using less.prems(2,3)
      by (simp add: loop n all_packets.simps [of "w_clock w" rd] run_result_of_def)
  next
    case Panic
    then show ?thesis
      using less.prems(2,3)
      by (simp add: loop n all_packets.simps [of "w_clock w" rd] run_result_of_def)
  qed
qed

section \<open>What the fold leaves\<close>

text \<open>The frame of the packet with index \<open>k\<close>: its dissection, with the marks of the analyzer.\<close>

definition frame_of :: "world \<Rightarrow> dissector \<Rightarrow> nat \<Rightarrow> packet \<Rightarrow> frame option" where
  "frame_of w d k p =
     map_option (marked (tab_lower (w_tables w)))
       (dissect (tab_lower (w_tables w)) d (word_of_nat (Suc k)) (packet_time (w_clock w (word_of_nat k)) p)
          (p_cap_len p) (p_orig_len p) (p_link_type p) (p_data p))"

lemma queue_ws_keeps:
  "queue_ws r e = Some e' \<Longrightarrow>
   e_dissector e' = e_dissector e \<and> e_writer e' = e_writer e \<and> e_frames e' = e_frames e"
  by (auto simp: queue_ws_def Let_def bind_eq_Some_conv split: if_splits)

lemma store_frame_keeps:
  "store_frame f e = Some e' \<Longrightarrow>
   e_dissector e' = e_dissector e \<and> e_writer e' = e_writer e \<and>
   (int (length (e_frames e)) < e_max_store e \<longrightarrow> e_frames e' = e_frames e @ [f])"
  by (auto simp: store_frame_def bind_eq_Some_conv)

lemma accept_frame_keeps:
  assumes "accept_frame now fr e = Some e'"
  shows "e_dissector e' = e_dissector e \<and> e_writer e' = e_writer e \<and>
    (int (length (e_frames e)) < e_max_store e \<longrightarrow> e_frames e' = e_frames e @ [fr])"
proof -
  obtain st fl pl e1 where "store_frame fr (e\<lparr>e_stats := st, e_flows := fl, e_sessions := pl\<rparr>) = Some e1"
    "queue_ws (slim fr) e1 = Some e'"
    using assms by (auto simp: accept_frame_def Let_def bind_eq_Some_conv)
  from store_frame_keeps [OF this(1)] queue_ws_keeps [OF this(2)] show ?thesis by simp
qed

lemma checked_keeps:
  "e_dissector (checked t now p fr e) = e_dissector e" "e_frames (checked t now p fr e) = e_frames e"
  "e_max_store (checked t now p fr e) = e_max_store e"
  "e_writer (checked t now p fr e) =
    map_option (\<lambda>wr. snd (write_packet now wr (packet_time now p) (p_data p))) (e_writer e)"
  by (simp_all add: checked_def Let_def raise_alerts_fields record_packet_def split: option.split)

lemma ingest_keeps:
  assumes "engine_ok n e" "ingest t now p e = Some e'"
  shows "e_dissector e' = e_dissector e"
    "e_writer e' = map_option (\<lambda>wr. snd (write_packet now wr (packet_time now p) (p_data p))) (e_writer e)"
proof -
  obtain fr ok where e': "(if \<not> ok then Some (checked t now p fr e)
       else accept_frame now (marked (tab_lower t) fr) (checked t now p fr e)) = Some e'"
    using assms(2) by (auto simp: ingest_steps [OF assms(1)] bind_eq_Some_conv)
  show "e_dissector e' = e_dissector e"
    "e_writer e' = map_option (\<lambda>wr. snd (write_packet now wr (packet_time now p) (p_data p))) (e_writer e)"
    using e' accept_frame_keeps [of now "marked (tab_lower t) fr" "checked t now p fr e" e']
    by (auto simp: checked_keeps split: if_splits)
qed

lemma ingest_frames:
  assumes "engine_ok n e" "ingest t now p e = Some e'" "cf_filter (e_cfg e) = []"
    "length (e_frames e) < 50000"
  shows "\<exists>fr. dissect_packet t now p e = Some fr \<and> e_frames e' = e_frames e @ [marked (tab_lower t) fr]"
proof -
  have m: "filter_match t f [] = Some True" for f using length_trim_space [of "[]"] by (simp add: filter_match_def)
  obtain fr where fr: "dissect_packet t now p e = Some fr"
    "accept_frame now (marked (tab_lower t) fr) (checked t now p fr e) = Some e'"
    using assms(2,3) by (auto simp: ingest_steps [OF assms(1)] bind_eq_Some_conv m)
  have "int (length (e_frames (checked t now p fr e))) < e_max_store (checked t now p fr e)"
    using assms(1,4) by (simp add: checked_keeps engine_ok_def frames_ok_def)
  from this accept_frame_keeps [OF fr(2)] fr(1) show ?thesis by (simp add: checked_keeps)
qed

lemma take_packet_keeps:
  assumes "take_packet w p e = Some e'"
  shows "\<exists>e0. ingest (w_tables w) (w_clock w (e_pkt_no e)) p e = Some e0 \<and> e_frames e' = e_frames e0 \<and>
    e_dissector e' = e_dissector e0 \<and> e_writer e' = e_writer e0"
  using assms by (auto simp: take_packet_def)

lemma take_packets_frames:
  assumes "engine_ok n e" "take_packets w ps e = Some e'" "cf_filter (e_cfg e) = []"
    "length (e_frames e) + length ps \<le> 50000"
  shows "\<exists>fs. e_frames e' = e_frames e @ fs \<and>
    list_all2 (\<lambda>(k, p) fr. frame_of w (e_dissector e) k p = Some fr) (enumerate n ps) fs"
  using assms
proof (induction ps arbitrary: n e)
  case (Cons p ps)
  obtain e1 where e1: "take_packet w p e = Some e1" "take_packets w ps e1 = Some e'"
    using Cons.prems(2) by (auto simp: bind_eq_Some_conv)
  obtain e0 where e0: "ingest (w_tables w) (w_clock w (e_pkt_no e)) p e = Some e0"
    "e_frames e1 = e_frames e0" "e_dissector e1 = e_dissector e0"
    using take_packet_keeps [OF e1(1)] by blast
  note ok = take_packet_ok [OF Cons.prems(1) e1(1)]
  have c: "e_cfg e1 = e_cfg e" using ok(2) by (simp add: control_parts(1))
  have n: "e_pkt_no e = word_of_nat n" using Cons.prems(1) by (simp add: engine_ok_def)
  obtain fr where fr: "dissect_packet (w_tables w) (w_clock w (e_pkt_no e)) p e = Some fr"
    "e_frames e0 = e_frames e @ [marked (tab_lower (w_tables w)) fr]"
    using ingest_frames [OF Cons.prems(1) e0(1) Cons.prems(3)] Cons.prems(4) by auto
  have f: "frame_of w (e_dissector e) n p = Some (marked (tab_lower (w_tables w)) fr)"
    using fr(1) by (simp add: frame_of_def dissect_packet_def n add.commute)
  have d: "e_dissector e1 = e_dissector e" using e0 ingest_keeps(1) [OF Cons.prems(1) e0(1)] by simp
  obtain fs where "e_frames e' = e_frames e1 @ fs"
    "list_all2 (\<lambda>(k, p) fr. frame_of w (e_dissector e1) k p = Some fr) (enumerate (Suc n) ps) fs"
    using Cons.IH [OF ok(1) e1(2)] Cons.prems(3,4) by (auto simp: c e0(2) fr(2))
  then show ?case
    using f by (intro exI [of _ "marked (tab_lower (w_tables w)) fr # fs"]) (simp add: e0(2) fr(2) d)
qed simp

text \<open>What the recorder writes while packets are taken.\<close>

lemma take_packets_writer:
  assumes "engine_ok n e" "take_packets w ps e = Some e'" "e_writer e = Some wr" "w_file wr = Some fl"
    "list_all (\<lambda>p. writable (p_timestamp p, p_data p)) ps"
  shows "\<exists>wr'. e_writer e' = Some wr' \<and>
    w_file wr' = Some (fl @ records (map (\<lambda>p. (p_timestamp p, p_data p)) ps))"
  using assms
proof (induction ps arbitrary: n e wr fl)
  case (Cons p ps)
  obtain e1 where e1: "take_packet w p e = Some e1" "take_packets w ps e1 = Some e'"
    using Cons.prems(2) by (auto simp: bind_eq_Some_conv)
  obtain e0 where e0: "ingest (w_tables w) (w_clock w (e_pkt_no e)) p e = Some e0"
    "e_writer e1 = e_writer e0"
    using take_packet_keeps [OF e1(1)] by blast
  have z: "p_timestamp p \<noteq> zero_time" using Cons.prems(5) by (auto simp: writable_def zero_time_def)
  let ?wr = "snd (write_packet (w_clock w (e_pkt_no e)) wr (p_timestamp p) (p_data p))"
  have "e_writer e1 = Some ?wr"
    using ingest_keeps(2) [OF Cons.prems(1) e0(1)] z by (simp add: e0(2) Cons.prems(3) packet_time_def)
  moreover have f: "w_file ?wr = Some (fl @ record_header (p_timestamp p) (p_data p) @ p_data p)"
    using z by (simp add: write_packet_def Cons.prems(4))
  ultimately show ?case
    using Cons.IH [OF take_packet_ok(1) [OF Cons.prems(1) e1(1)] e1(2) _ f] Cons.prems(5)
    by (simp add: records_def)
qed (simp add: records_def)

lemma numbered_fields:
  "map p_data (numbered l k qs) = map snd qs" "map p_timestamp (numbered l k qs) = map (micros \<circ> fst) qs"
  by (induction qs arbitrary: k) (auto simp: numbered_def written_packet_def)

section \<open>Properties\<close>

text \<open>What \<open>Run\<close> makes of a new engine before its loop.\<close>

definition started :: "u32 \<Rightarrow> engine \<Rightarrow> engine" where
  "started link e =
     (let e = (open_writer link (e\<lparr>e_source := ''file''\<rparr>))\<lparr>e_running := True\<rparr>
      in say_online (broadcast [Ev_status (engine_status e)] e))"

lemma started_new:
  fixes n :: net and now :: gotime and cfg :: config and link :: u32
  defines "e \<equiv> started link (new_engine n now cfg)"
  shows "engine_ok 0 e" "control e = (cfg, False, False, False)" "e_frames e = []"
    "e_dissector e = new_dissector\<lparr>d_include_hex := cf_include_hex cfg\<rparr>"
    "cf_write_path cfg \<noteq> [] \<Longrightarrow> e_writer e = Some (create_writer link)"
proof -
  let ?n = "new_engine n now cfg"
  obtain out wr where out: "e = ?n\<lparr>e_source := ''file'', e_writer := wr, e_running := True, e_out := out\<rparr>"
    "sent_rows out = []" "cf_write_path cfg \<noteq> [] \<longrightarrow> wr = Some (create_writer link)"
  proof -
    have h: "\<not> e_hub ?n" "e_out ?n = []" "e_cfg ?n = cfg" by (simp_all add: new_engine_def)
    let ?w = "if cf_write_path cfg \<noteq> [] then Some (create_writer link) else e_writer ?n"
    let ?e = "?n\<lparr>e_source := ''file'', e_writer := ?w, e_running := True\<rparr>"
    have s: "e = say_online ?e"
      using h by (simp add: e_def started_def open_writer_def broadcast_def Let_def)
    show thesis
      by (cases "snd (telegram_notify_text Unreachable (''online '' @ mid_dot @ '' source='' @ ''file'' @ '' iface=''
            @ cf_iface cfg) (e_telegram ?n))")
        (use h s in \<open>auto intro!: that [of "e_out e" ?w] simp: say_online_def Let_def split: if_splits\<close>)
  qed
  show "engine_ok 0 e"
    using new_engine_ok(1) [of n now cfg] out(2)
    by (simp add: out(1) engine_ok_def tables_ok_def frames_ok_def rows_ok_def new_engine_def)
  show "control e = (cfg, False, False, False)" "e_frames e = []"
    "e_dissector e = new_dissector\<lparr>d_include_hex := cf_include_hex cfg\<rparr>"
    "cf_write_path cfg \<noteq> [] \<Longrightarrow> e_writer e = Some (create_writer link)"
    using out by (simp_all add: new_engine_def control_def)
qed

lemma close_finish_keeps:
  "e_frames (close_run (finish_run w m e)) = e_frames e" "e_pkt_no (close_run (finish_run w m e)) = e_pkt_no e"
  "\<not> e_running (close_run (finish_run w m e))"
  by (simp_all add: close_run_def finish_run_def flush_ws_def broadcast_def Let_def)

text \<open>The last events of a run on a file: the last status says that the engine runs, which \<open>Run\<close> only
  changes when it returns, and the rows still pending come behind the event that ends the run.\<close>

lemma last_events:
  assumes "e_hub e" "\<not> e_live e" "e_running e"
  shows "\<exists>pre st. e_out (close_run (finish_run w m e)) =
      pre @ [Ev_status st, Ev_done m] @ (if e_pending e = [] then [] else [Ev_packets (e_pending e)]) \<and>
    su_running st"
  using assms
  by (intro exI [of _ "engine_status e"] exI [of _ "e_out e @ [Ev_stats _, Ev_flows _, Ev_security _, Ev_sessions _, Ev_story _]"])
    (simp add: close_run_def finish_run_def flush_ws_def broadcast_def engine_status_def Let_def)

lemma run_file_started:
  assumes "new_reader file = Ret rd" "cf_max_packets cfg \<le> 0"
  shows "run_file w file (new_engine n now cfg) =
    Some (case run_result_of w 0 (started (r_link_type rd) (new_engine n now cfg)) (all_packets (w_clock w) rd [])
      of Finished e \<Rightarrow> Finished (close_run e) | Failed x e \<Rightarrow> Failed x (close_run e) | Crashed \<Rightarrow> Crashed)"
proof -
  let ?e = "started (r_link_type rd) (new_engine n now cfg)"
  note s = started_new(1,2) [where n = n and now = now and cfg = cfg and link = "r_link_type rd"]
  have "run_loop w (\<lambda>rd. next_packet (w_clock w (r_count rd)) rd) rd 0 ?e =
      Some (run_result_of w 0 ?e (all_packets (w_clock w) rd []))"
    using s(2) assms(2) by (intro run_loop_all [OF s(1)]) (simp_all add: control_parts)
  then show ?thesis
    by (simp add: run_file_def assms(1) started_def Let_def)
qed

lemma run_file_frames:
  assumes "new_reader file = Ret rd" "all_packets (w_clock w) rd [] = Some (ps, None)"
    and "cf_filter cfg = []" "cf_max_packets cfg \<le> 0" "length ps \<le> 50000"
    and "list_all (\<lambda>p. \<not> has_ws2 (p_data p)) ps"
  obtains e where "run_file w file (new_engine n now cfg) = Some (Finished e)" "\<not> e_running e"
    "e_pkt_no e = word_of_nat (length ps)"
    "list_all2 (\<lambda>(k, p) fr. frame_of w (new_dissector\<lparr>d_include_hex := cf_include_hex cfg\<rparr>) k p = Some fr)
       (enumerate 0 ps) (e_frames e)"
proof -
  let ?e = "started (r_link_type rd) (new_engine n now cfg)"
  note s = started_new(1-4) [where n = n and now = now and cfg = cfg and link = "r_link_type rd"]
  have c: "cf_filter (e_cfg ?e) = []" using s(2) assms(3) by (simp add: control_parts)
  then obtain e where e: "take_packets w ps ?e = Some e"
    using take_packets_total [OF s(1), of ps w] assms(6) by (auto simp: ascii_def list_all_iff)
  have "run_file w file (new_engine n now cfg) =
      Some (Finished (close_run (finish_run w (int (length ps)) e)))"
    using run_file_started [OF assms(1,4), of w n now] by (simp add: run_result_of_def assms(2) e)
  then show thesis
    using that take_packets_ok [OF s(1) e] take_packets_frames [OF s(1) e c] assms(5)
    by (auto simp: close_finish_keeps s(3,4) engine_ok_def)
qed

text \<open>Parsing a capture file without a display filter, none of whose packets has a byte 3 in front
  of a byte 2, ends, and leaves exactly one frame per packet, in the order of the file: the
  dissection of that packet under its number and timestamp, with the marks of the analyzer.\<close>

theorem parse_file:
  assumes "new_reader file = Ret rd" "all_packets (w_clock w) rd [] = Some (ps, None)"
    and "cf_filter cfg = []" "cf_max_packets cfg \<le> 0" "length ps \<le> 50000"
    and "\<forall>p \<in> set ps. \<not> has_ws2 (p_data p)"
  shows "\<exists>e. run_file w file (new_engine n now cfg) = Some (Finished e) \<and> \<not> e_running e \<and>
    e_pkt_no e = word_of_nat (length ps) \<and>
    list_all2 (\<lambda>(k, p) fr. frame_of w (new_dissector\<lparr>d_include_hex := cf_include_hex cfg\<rparr>) k p = Some fr)
      (enumerate 0 ps) (e_frames e)"
proof -
  have "list_all (\<lambda>p. \<not> has_ws2 (p_data p)) ps" using assms(6) by (simp add: list_all_iff)
  show ?thesis
    by (rule run_file_frames [OF assms(1-5) \<open>list_all _ ps\<close>, of n now]) (rule exI, intro conjI)
qed

definition parse_config :: config where
  "parse_config = demo_config\<lparr>cf_max_packets := 0, cf_write_path := ''out.pcap''\<rparr>"

lemma parse_file_witness:
  "\<exists>e. run_file demo_world (file_header 1 @ records [(7000, [1, 2, 4])]) (new_engine demo_net 0 parse_config)
     = Some (Finished e) \<and> length (e_frames e) = 1"
proof -
  let ?ps = "[(7000, [1, 2, 4])]"
  let ?rd = "(fresh_reader (records ?ps))\<lparr>r_order := LE, r_snap_len := 65535, r_link_type := 1\<rparr>"
  have a: "all_packets (w_clock demo_world) ?rd [] = Some (numbered 1 0 ?ps, None)"
    using all_packets_written [of ?rd ?ps 0 "w_clock demo_world" "[]"]
    by (simp add: fresh_reader_def writable_def max_block_def)
  have n: "numbered 1 0 ?ps = [written_packet 1 1 (7000, [1, 2, 4])]" by (simp add: numbered_def)
  have "\<not> has_ws2 (p_data (written_packet 1 1 (7000, [1, 2, 4])))"
    by (auto simp: has_ws2_def written_packet_def nth_Cons split: nat.splits)
  with parse_file [OF file_header_read a, of parse_config demo_net 0] show ?thesis
    by (auto simp: n parse_config_def demo_config_def dest: list_all2_lengthD)
qed

text \<open>C11: what \<open>--write\<close> records while packets are taken, the reader reads back: the same data in the
  same order, the link type, the timestamps to the microsecond; of a packet that was cut, only the
  length captured.\<close>

theorem recording_roundtrip:
  assumes "take_packets w ps (started link (new_engine n now cfg)) = Some e" "cf_write_path cfg \<noteq> []"
    and "list_all (\<lambda>p. writable (p_timestamp p, p_data p)) ps"
  shows "\<exists>wr fl rd qs. e_writer e = Some wr \<and> w_file wr = Some fl \<and> new_reader fl = Ret rd \<and>
    all_packets clock rd [] = Some (qs, None) \<and>
    map p_data qs = map p_data ps \<and> map p_timestamp qs = map (\<lambda>p. micros (p_timestamp p)) ps \<and>
    (\<forall>q \<in> set qs. p_link_type q = (if link = 0 then link_type_ethernet else link) \<and>
      p_orig_len q = word_of_nat (length (p_data q)))"
proof -
  let ?l = "if link = 0 then link_type_ethernet else link"
  let ?ps = "map (\<lambda>p. (p_timestamp p, p_data p)) ps"
  let ?rd = "(fresh_reader (records ?ps))\<lparr>r_order := LE, r_snap_len := 65535, r_link_type := ?l\<rparr>"
  note s = started_new(1,5) [where n = n and now = now and cfg = cfg and link = link]
  have f: "w_file (create_writer link) = Some (file_header ?l)" by (simp add: create_writer_def Let_def)
  obtain wr where wr: "e_writer e = Some wr" "w_file wr = Some (file_header ?l @ records ?ps)"
    using take_packets_writer [OF s(1) assms(1) s(2) f assms(3)] assms(2) by blast
  have "list_all writable ?ps" using assms(3) by (simp add: list.pred_map comp_def)
  then have "all_packets clock ?rd [] = Some ([] @ numbered ?l 0 ?ps, None)"
    using all_packets_written [of ?rd ?ps 0 clock "[]"] by (simp add: fresh_reader_def)
  moreover have "q \<in> set (numbered l k qs) \<Longrightarrow> p_link_type q = l \<and> p_orig_len q = word_of_nat (length (p_data q))"
    for q l k qs
    by (auto simp: numbered_def written_packet_def)
  ultimately show ?thesis
    using wr file_header_read [of ?l "records ?ps"]
    by (intro exI [of _ wr] exI [of _ "file_header ?l @ records ?ps"] exI [of _ ?rd] exI [of _ "numbered ?l 0 ?ps"])
      (auto simp: comp_def numbered_fields)
qed

lemma recording_roundtrip_witness:
  "\<exists>(e :: engine) wr fl rd. e_writer e = Some wr \<and> w_file wr = Some fl \<and> new_reader fl = Ret rd \<and>
     (\<exists>qs. all_packets (\<lambda>_. 0) rd [] = Some (qs, None) \<and> map p_data qs = [[1, 2, 4]])"
proof -
  let ?p = "\<lparr>p_no = 1, p_timestamp = 7000, p_cap_len = 3, p_orig_len = 9, p_data = [1, 2, 4], p_link_type = 1\<rparr>"
  note s = started_new(1,2) [where n = demo_net and now = 0 and cfg = parse_config and link = 1]
  have "\<not> has_ws2 [1, 2, 4]" by (auto simp: has_ws2_def nth_Cons split: nat.splits)
  then obtain e where e: "take_packets demo_world [?p] (started 1 (new_engine demo_net 0 parse_config)) = Some e"
    using take_packets_total [OF s(1), of "[?p]" demo_world] s(2)
    by (auto simp: control_parts parse_config_def demo_config_def ascii_def)
  have "cf_write_path parse_config \<noteq> []" "list_all (\<lambda>p. writable (p_timestamp p, p_data p)) [?p]"
    by (simp_all add: parse_config_def writable_def max_block_def)
  from recording_roundtrip [OF e this, of "\<lambda>_. 0"] obtain wr fl rd qs where
    "e_writer e = Some wr" "w_file wr = Some fl" "new_reader fl = Ret rd"
    "all_packets (\<lambda>_. 0) rd [] = Some (qs, None)" "map p_data qs = map p_data [?p]"
    by (elim exE conjE) (rule that)
  then show ?thesis
    by (intro exI [of _ e] exI [of _ wr] exI [of _ fl] exI [of _ rd] exI [of _ qs] conjI) simp_all
qed

end
