(* ===== verification/Generator.thy ===== *)
theory Generator
  imports Demo Batch
begin

text \<open>
  \<open>writeDemoPCAP\<close> of \<open>cmd/fluxtap/main.go\<close>: the capture file that \<open>fluxtap gen\<close> writes, from the
  packets of \<open>Demo\<close>. Its records have the layout of the writer's. The theorem puts generator,
  reader and engine together: what is generated is parsed, packet by packet.
\<close>

section \<open>The file\<close>

text \<open>\<open>fmt.Sscanf\<close> with \<open>%d\<close>: 0 is left if there is no number.\<close>

definition scan_int :: "string \<Rightarrow> int" where
  "scan_int s =
     (let t = dropWhile (\<lambda>c. c = CHR '' '' \<or> c = CHR 0x09) s;
          neg = has_prefix t ''-''; t = (if neg \<or> has_prefix t ''+'' then drop 1 t else t);
          ds = takeWhile (\<lambda>c. digit_val c \<noteq> None) t;
          v = int (fold (\<lambda>c v. v * 10 + the (digit_val c)) ds 0);
          v = (if neg then - v else v)
      in if - (2 ^ 63) \<le> v \<and> v < 2 ^ 63 then v else 0)"

definition dns_response :: "string \<Rightarrow> string \<Rightarrow> bytes option" where
  "dns_response name ip = do {
     let q = (dns_query name 1)[2 := 0x81, 3 := 0x80, 6 := 0, 7 := 1];
     let parts = split ''.'' ip;
     a \<leftarrow> idx parts 0;
     b \<leftarrow> idx parts 1;
     c \<leftarrow> idx parts 2;
     d \<leftarrow> idx parts 3;
     Some (q @ encode_dns_name name @ put_be16 1 @ put_be16 1 @ put_be32 60 @ put_be16 4
       @ map (\<lambda>p. word_of_int (scan_int p)) [a, b, c, d])
   }"

definition http_request :: string where
  "http_request = ''GET /index.html HTTP/1.1'' @ crlf @ ''Host: example.com'' @ crlf
     @ ''User-Agent: FluxTap/1.0'' @ crlf @ ''Authorization: Basic dXNlcjpwYXNz'' @ crlf
     @ ''Accept: */*'' @ crlf @ crlf"

definition http_response :: string where
  "http_response = ''HTTP/1.1 200 OK'' @ crlf @ ''Content-Type: text/html'' @ crlf
     @ ''Content-Length: 13'' @ crlf @ crlf @ ''Hello, PCAP!'' @ newline"

definition quic_packet :: bytes where
  "quic_packet = 0xc0 # put_be32 1 @ replicate 35 0"

definition syn_packet :: "nat \<Rightarrow> bytes" where
  "syn_packet i = eth_frame 0x0800
     (ipv4tcp client_ip server_ip (word_of_nat (40000 + i)) (word_of_nat (20 + i)) 0x02 [])"

text \<open>The answer to the DNS query is built from four decimal parts, so it exists.\<close>

definition demo_head :: "bytes list" where
  "demo_head =
     [eth_frame 0x0806 arp_request, eth_frame 0x0806 arp_reply,
      eth_frame 0x0800 (ipv4udp client_ip dns_ip 53000 53 (dns_query ''example.com'' 1)),
      eth_frame 0x0800 (ipv4udp dns_ip client_ip 53 53000 (the (dns_response ''example.com'' ''93.184.216.34''))),
      eth_frame 0x0800 (ipv4udp client_ip dns_ip 53001 53 (dns_query ''api.github.com'' 28)),
      eth_frame 0x0800 (ipv4udp client_ip dns_ip 53002 53
        (dns_query (concat (replicate 8 ''longlabel'') @ ''.evil.test'') 1)),
      eth_frame 0x0800 (ipv4udp (0, 0, 0, 0) (255, 255, 255, 255) 68 67 dhcp_discover),
      eth_frame 0x0800 (ipv4tcp client_ip server_ip 49152 80 0x18 (bytes_of http_request)),
      eth_frame 0x0800 (ipv4tcp server_ip client_ip 80 49152 0x18 (bytes_of http_response)),
      eth_frame 0x0800 (ipv4tcp client_ip server_ip 49153 8080 0x18
        (bytes_of (''PRI * HTTP/2.0'' @ crlf @ crlf @ ''SM'' @ crlf @ crlf) @ http2_settings)),
      eth_frame 0x0800 (ipv4tcp client_ip server_ip 49154 443 0x18 (tls_client_hello ''www.google.com'')),
      eth_frame 0x0800 (ipv4tcp server_ip client_ip 443 49154 0x18 tls_server_hello),
      eth_frame 0x0800 (ipv4udp client_ip server_ip 49155 443 quic_packet),
      eth_frame 0x0800 (ipv4icmp client_ip server_ip)]
     @ map syn_packet [0..<35]"

definition demo_pad :: "nat \<Rightarrow> bytes" where
  "demo_pad n = eth_frame 0x0800
     (if n mod 5 = 0 then
        ipv4udp client_ip dns_ip (word_of_nat (40000 + n)) 53 (dns_query (''host'' @ dec n @ ''.local'') 1)
      else if n mod 5 = 1 then
        ipv4tcp client_ip server_ip (word_of_nat (50000 + n mod 1000)) 443 0x18 (tls_app_data 64)
      else if n mod 5 = 2 then
        ipv4tcp client_ip server_ip (word_of_nat (51000 + n mod 1000)) 80 0x18
          (bytes_of (''GET / HTTP/1.1'' @ crlf @ ''Host: x.test'' @ crlf @ crlf))
      else if n mod 5 = 3 then ipv4icmp client_ip (1, 1, 1, 1)
      else ipv4udp client_ip server_ip (word_of_nat (52000 + n mod 1000)) 443 quic_packet)"

definition demo_frames :: "int \<Rightarrow> bytes list" where
  "demo_frames cnt = demo_head @ map demo_pad [length demo_head..<nat cnt]"

text \<open>The time of the \<open>n\<close>-th record: a minute ago, and 5 to 21 milliseconds more for each.\<close>

primrec demo_time :: "gotime \<Rightarrow> nat \<Rightarrow> gotime" where
  "demo_time now 0 = now - 60000000000"
| "demo_time now (Suc n) = demo_time now n + int (5 + n mod 17) * 1000000"

definition demo_records :: "gotime \<Rightarrow> int \<Rightarrow> (gotime \<times> bytes) list" where
  "demo_records now cnt = map (\<lambda>(n, d). (demo_time now n, d)) (enumerate 0 (demo_frames cnt))"

definition demo_pcap :: "gotime \<Rightarrow> int \<Rightarrow> bytes" where
  "demo_pcap now cnt =
     put_le32 0xa1b2c3d4 @ put_le16 2 @ put_le16 4 @ put_le32 0 @ put_le32 0 @ put_le32 65535 @ put_le32 1
     @ concat (map (\<lambda>(ts, d).
         put_le32 (word_of_int (ts div 1000000000)) @ put_le32 (word_of_int (ts mod 1000000000 div 1000))
         @ put_le32 (word_of_nat (length d)) @ put_le32 (word_of_nat (length d)) @ d) (demo_records now cnt))"

section \<open>No packet crashes the dissector\<close>

fun calm :: "bytes \<Rightarrow> bool" where
  "calm (a # b # xs) = (\<not> (a = 3 \<and> b = 2) \<and> calm (b # xs))"
| "calm xs = True"

lemma calm_iff: "calm xs = (\<not> has_ws2 xs)"
proof (induction xs rule: calm.induct)
  case (1 a b xs)
  have "has_ws2 (a # b # xs) \<longleftrightarrow> a = 3 \<and> b = 2 \<or> has_ws2 (b # xs)"
    unfolding has_ws2_def
  proof
    assume "\<exists>i. i + 1 < length (a # b # xs) \<and> (a # b # xs) ! i = 3 \<and> (a # b # xs) ! (i + 1) = 2"
    then obtain i where i: "i + 1 < length (a # b # xs)" "(a # b # xs) ! i = 3" "(a # b # xs) ! (i + 1) = 2"
      by blast
    then show "a = 3 \<and> b = 2 \<or> (\<exists>i. i + 1 < length (b # xs) \<and> (b # xs) ! i = 3 \<and> (b # xs) ! (i + 1) = 2)"
      by (cases i) auto
  next
    assume "a = 3 \<and> b = 2 \<or> (\<exists>i. i + 1 < length (b # xs) \<and> (b # xs) ! i = 3 \<and> (b # xs) ! (i + 1) = 2)"
    then show "\<exists>i. i + 1 < length (a # b # xs) \<and> (a # b # xs) ! i = 3 \<and> (a # b # xs) ! (i + 1) = 2"
    proof
      assume "\<exists>i. i + 1 < length (b # xs) \<and> (b # xs) ! i = 3 \<and> (b # xs) ! (i + 1) = 2"
      then obtain i where "i + 1 < length (b # xs)" "(b # xs) ! i = 3" "(b # xs) ! (i + 1) = 2" by blast
      then show ?thesis by (intro exI [of _ "Suc i"]) simp
    qed (intro exI [of _ 0], simp)
  qed
  with 1 show ?case by simp
qed (simp_all add: has_ws2_def)

text \<open>Two calm parts are calm together if no 3 ends the first.\<close>

lemma calm_append: "calm xs \<Longrightarrow> calm ys \<Longrightarrow> last (0 # xs) \<noteq> 3 \<Longrightarrow> calm (xs @ ys)"
proof (induction xs)
  case (Cons a xs)
  then show ?case by (cases xs; cases ys) auto
qed simp

lemma calm_without: "3 \<notin> set xs \<Longrightarrow> calm xs"
  by (induction xs rule: calm.induct) auto

lemma calm_Cons: "a \<noteq> 3 \<Longrightarrow> calm (a # xs) = calm xs"
  by (cases xs) simp_all

definition calm_frame :: "bytes \<Rightarrow> bool" where
  "calm_frame p = (calm p \<and> length p \<le> 400)"

text \<open>The first byte of a length below 768 is not 3.\<close>

lemma put_be16_small: "n < 768 \<Longrightarrow> put_be16 (word_of_nat n) = [word_of_nat (n div 256), word_of_nat (n mod 256)]"
  by (simp add: put_be16_def unat_of_nat_u16)

lemma byte_eq: "n < 256 \<Longrightarrow> m < 256 \<Longrightarrow> (word_of_nat n :: byte) = word_of_nat m \<longleftrightarrow> n = m"
  by (metis unat_of_nat_byte)

lemma high_small: "n < 768 \<Longrightarrow> (word_of_nat (n div 256) :: byte) \<noteq> 3"
  using byte_eq [of "n div 256" 3] by simp

definition calm_port :: "u16 \<Rightarrow> bool" where
  "calm_port p = (calm (put_be16 p) \<and> hd (put_be16 p) \<noteq> 2)"

lemma put_be16_types: "put_be16 0x0800 = [8, 0]" "put_be16 0x0806 = [8, 6]"
  by (simp_all add: put_be16_def)

lemma calm_udp:
  assumes "calm_frame p" "calm (put_be16 fp)" "calm_port tp" "3 \<notin> set (ip4_bytes s)" "3 \<notin> set (ip4_bytes d)"
  shows "calm (eth_frame 0x0800 (ipv4udp s d fp tp p))" "length (eth_frame 0x0800 (ipv4udp s d fp tp p)) \<le> 454"
proof -
  let ?t = "28 + length p" and ?u = "8 + length p"
  have l: "length p \<le> 400" "calm p" using assms(1) by (simp_all add: calm_frame_def)
  have u: "(word_of_nat (?u div 256) :: byte) \<noteq> 2"
    using byte_eq [of "?u div 256" 2] l by simp
  have h: "(word_of_nat (?t div 256) :: byte) \<noteq> 3" "(word_of_nat (?u div 256) :: byte) \<noteq> 3"
    using l by (auto intro!: high_small)
  have n: "put_be16 (word_of_nat ?t) = [word_of_nat (?t div 256), word_of_nat (?t mod 256)]"
    "put_be16 (word_of_nat ?u) = [word_of_nat (?u div 256), word_of_nat (?u mod 256)]"
    using l by (simp_all only: put_be16_small)
  obtain s1 s2 s3 s4 d1 d2 d3 d4 where a: "s = (s1, s2, s3, s4)" "d = (d1, d2, d3, d4)"
    by (metis surj_pair)
  obtain x y v w where q: "put_be16 fp = [x, y]" "put_be16 tp = [v, w]" by (simp add: put_be16_def)
  show "calm (eth_frame 0x0800 (ipv4udp s d fp tp p))"
    using assms(2-5) l u h q
    by (simp add: eth_frame_def ipv4udp_def a Let_def n calm_Cons calm_port_def put_be16_types
        del: of_nat_add)
  show "length (eth_frame 0x0800 (ipv4udp s d fp tp p)) \<le> 454"
    using l by (simp add: eth_frame_def ipv4udp_def a Let_def)
qed

lemma calm_tcp:
  assumes "calm_frame p" "calm (put_be16 fp)" "calm_port tp" "3 \<notin> set (ip4_bytes s)" "3 \<notin> set (ip4_bytes d)"
  shows "calm (eth_frame 0x0800 (ipv4tcp s d fp tp fl p))"
    "length (eth_frame 0x0800 (ipv4tcp s d fp tp fl p)) \<le> 454"
proof -
  let ?t = "40 + length p"
  have l: "length p \<le> 400" "calm p" using assms(1) by (simp_all add: calm_frame_def)
  have h: "(word_of_nat (?t div 256) :: byte) \<noteq> 3"
    using l by (auto intro!: high_small)
  have n: "put_be16 (word_of_nat ?t) = [word_of_nat (?t div 256), word_of_nat (?t mod 256)]"
    using l by (simp_all only: put_be16_small)
  obtain s1 s2 s3 s4 d1 d2 d3 d4 where a: "s = (s1, s2, s3, s4)" "d = (d1, d2, d3, d4)"
    by (metis surj_pair)
  obtain x y v w where q: "put_be16 fp = [x, y]" "put_be16 tp = [v, w]" by (simp add: put_be16_def)
  have c: "put_be32 1000 = [0, 0, 3, 232]" "put_be32 2000 = [0, 0, 7, 208]" "put_be16 65535 = [255, 255]"
    by (simp_all add: put_be32_def put_be16_def)
  have t: "20 + 20 + length p = ?t" by simp
  show "calm (eth_frame 0x0800 (ipv4tcp s d fp tp fl p))"
    using assms(2-5) l h q
    by (simp add: eth_frame_def ipv4tcp_def a Let_def t n calm_Cons calm_port_def put_be16_types c
        del: of_nat_add add_numeral_left)
  show "length (eth_frame 0x0800 (ipv4tcp s d fp tp fl p)) \<le> 454"
    using l by (simp add: eth_frame_def ipv4tcp_def a Let_def)
qed

lemma calm_icmp:
  assumes "3 \<notin> set (ip4_bytes s)" "3 \<notin> set (ip4_bytes d)"
  shows "calm (eth_frame 0x0800 (ipv4icmp s d))" "length (eth_frame 0x0800 (ipv4icmp s d)) \<le> 454"
proof -
  have "3 \<notin> set (eth_frame 0x0800 (ipv4icmp s d))"
    using assms by (simp add: eth_frame_def ipv4icmp_def put_be16_types put_be16_def [of 28])
  then show "calm (eth_frame 0x0800 (ipv4icmp s d))" by (rule calm_without)
  show "length (eth_frame 0x0800 (ipv4icmp s d)) \<le> 454"
    by (cases s; cases d) (simp add: eth_frame_def ipv4icmp_def)
qed

text \<open>Names: a 3 can only be the length of a label, and a letter follows it.\<close>

definition letters :: "string \<Rightarrow> bool" where
  "letters s = (\<forall>c \<in> set s. 3 < (of_char c :: nat))"

lemma letters_bytes: "letters s \<Longrightarrow> b \<in> set (bytes_of s) \<Longrightarrow> b \<noteq> 3 \<and> b \<noteq> 2"
proof -
  assume "letters s" "b \<in> set (bytes_of s)"
  then obtain c where c: "b = char_byte c" "3 < (of_char c :: nat)" by (auto simp: letters_def bytes_of_def)
  have "unat b = of_char c" unfolding c(1) char_byte_def by (intro unat_of_nat_byte) simp
  with c(2) show ?thesis by auto
qed

lemma letters_calm: "letters s \<Longrightarrow> calm (bytes_of s)"
  using letters_bytes calm_without by blast

lemma calm_labels:
  "list_all letters ls \<Longrightarrow> calm rest \<Longrightarrow> calm (concat (map (\<lambda>p. word_of_nat (length p) # bytes_of p) ls) @ rest)"
proof (induction ls)
  case (Cons l ls)
  let ?r = "concat (map (\<lambda>p. word_of_nat (length p) # bytes_of p) ls) @ rest"
  have r: "calm ?r" using Cons by simp
  have b: "\<forall>b \<in> set (bytes_of l). b \<noteq> 3 \<and> b \<noteq> 2" using Cons.prems(1) letters_bytes by auto
  have "calm (word_of_nat (length l) # bytes_of l @ ?r)"
  proof (cases "bytes_of l")
    case Nil
    then have "length l = 0" by (simp add: bytes_of_def)
    with Nil r show ?thesis by (simp add: calm_Cons)
  next
    case (Cons x xs)
    have "calm (bytes_of l @ ?r)"
      using b by (intro calm_append r calm_without) (auto simp: Cons)
    then show ?thesis using b by (simp add: Cons)
  qed
  then show ?case by simp
qed simp

lemma set_join: "p \<in> set ps \<Longrightarrow> set p \<subseteq> set (join sep ps)"
  by (induction sep ps rule: join.induct) auto

lemma calm_query:
  assumes "letters name" "3 \<notin> set (put_be16 qt)"
  shows "calm (dns_query name qt)"
proof -
  have "list_all letters (split ''.'' name)"
    using set_join [of _ "split ''.'' name" "''.''"] assms(1) unfolding join_split
    by (auto simp: list_all_iff letters_def)
  from calm_labels [OF this, of "0 # put_be16 qt @ [0, 1]"] show ?thesis
    using calm_without [of "0 # put_be16 qt @ [0, 1]"] assms(2)
    by (simp add: dns_query_def encode_dns_name_def calm_Cons put_be16_def [of 1])
qed

lemma calm_be16: "calm (put_be16 w) = (w \<noteq> 770)"
proof -
  have lt: "unat w < 65536" by (rule unat_u16_less)
  have "unat w div 256 = 3 \<and> unat w mod 256 = 2 \<longleftrightarrow> unat w = 770"
  proof
    assume h: "unat w div 256 = 3 \<and> unat w mod 256 = 2"
    from mult_div_mod_eq [of 256 "unat w"] show "unat w = 770"
      unfolding conjunct1 [OF h] conjunct2 [OF h] by simp
  qed simp
  moreover have "w = 770 \<longleftrightarrow> unat w = 770" by (simp add: word_unat_eq_iff)
  moreover have "(word_of_nat (unat w div 256) :: byte) = 3 \<longleftrightarrow> unat w div 256 = 3"
    "(word_of_nat (unat w mod 256) :: byte) = 2 \<longleftrightarrow> unat w mod 256 = 2"
    using byte_eq [of "unat w div 256" 3] byte_eq [of "unat w mod 256" 2] lt by simp_all
  ultimately show ?thesis by (simp add: put_be16_def)
qed

lemma client_port: "k < 65536 \<Longrightarrow> k \<noteq> 770 \<Longrightarrow> calm (put_be16 (word_of_nat k))"
  unfolding calm_be16 using unat_of_nat_u16 [of k] by auto

lemma calm_ports:
  "calm_port 53" "calm_port 443" "calm_port 80" "calm_port 8080" "calm_port 67" "calm_port 53000"
  "calm_port 49152" "calm_port 49154"
  by (simp_all add: calm_port_def put_be16_def)

lemma syn_port: "i < 100 \<Longrightarrow> calm_port (word_of_nat (20 + i))"
  using put_be16_small [of "20 + i"] client_port [of "20 + i"] by (simp add: calm_port_def)

lemma demo_hosts:
  "3 \<notin> set (ip4_bytes client_ip)" "3 \<notin> set (ip4_bytes server_ip)" "3 \<notin> set (ip4_bytes dns_ip)"
  "3 \<notin> set (ip4_bytes (0, 0, 0, 0))" "3 \<notin> set (ip4_bytes (255, 255, 255, 255))"
  "3 \<notin> set (ip4_bytes (1, 1, 1, 1))"
  by (simp_all add: client_ip_def server_ip_def dns_ip_def)

lemma letters_append [simp]:
  "letters (a @ b) = (letters a \<and> letters b)" "letters (c # s) = (3 < (of_char c :: nat) \<and> letters s)" "letters []"
  by (auto simp: letters_def)

lemma letters_consts [simp]:
  "letters crlf" "letters newline" "letters http_request" "letters http_response" "letters (dec n)"
proof -
  show "letters (dec n)"
    using set_dec [of n] by (auto simp: letters_def)
  show "letters crlf" "letters newline" by (simp_all add: letters_def crlf_def newline_def)
  show "letters http_request" "letters http_response"
    by (simp_all add: letters_def http_request_def http_response_def crlf_def newline_def)
qed

lemma demo_payloads:
  "calm_frame (bytes_of http_request)" "calm_frame (bytes_of http_response)"
  "calm_frame (bytes_of (''GET / HTTP/1.1'' @ crlf @ ''Host: x.test'' @ crlf @ crlf))"
  "calm_frame (bytes_of (''PRI * HTTP/2.0'' @ crlf @ crlf @ ''SM'' @ crlf @ crlf) @ http2_settings)"
  "calm_frame quic_packet" "calm_frame dhcp_discover" "calm_frame []"
proof -
  have l: "calm_frame (bytes_of s)" if "letters s" "length s \<le> 400" for s
    using that letters_calm by (simp add: calm_frame_def bytes_of_def)
  show "calm_frame (bytes_of http_request)" "calm_frame (bytes_of http_response)"
    by (rule l; simp add: http_request_def http_response_def crlf_def newline_def letters_def)+
  show "calm_frame (bytes_of (''GET / HTTP/1.1'' @ crlf @ ''Host: x.test'' @ crlf @ crlf))"
    by (rule l; simp add: crlf_def letters_def)
  have h2: "http2_settings = [0, 0, 6, 4, 0, 0, 0, 0, 0, 0, 3, 0, 0, 0, 100]"
    by (simp add: http2_settings_def put_be16_def put_be32_def)
  have "calm (bytes_of (''PRI * HTTP/2.0'' @ crlf @ crlf @ ''SM'' @ crlf @ crlf) @ http2_settings)"
    by (rule calm_append) (auto intro!: letters_calm simp: h2 bytes_of_def crlf_def letters_def char_byte_def)
  then show "calm_frame (bytes_of (''PRI * HTTP/2.0'' @ crlf @ crlf @ ''SM'' @ crlf @ crlf) @ http2_settings)"
    by (simp add: calm_frame_def h2 bytes_of_def crlf_def)
  show "calm_frame quic_packet" "calm_frame dhcp_discover" "calm_frame []"
    by (auto intro!: calm_without simp: calm_frame_def quic_packet_def dhcp_discover_def put_be32_def)
qed

lemma calm_app_data: "calm_frame (tls_app_data 64)"
proof -
  have "calm (map word_of_nat [k..<n])" if "n \<le> 256" for k n
    using that
  proof (induction "n - k" arbitrary: k)
    case (Suc m)
    show ?case
    proof (cases "Suc k < n")
      case True
      then have "[k..<n] = k # Suc k # [Suc (Suc k)..<n]" "[Suc k..<n] = Suc k # [Suc (Suc k)..<n]"
        by (simp_all add: upt_conv_Cons)
      moreover have "calm (map word_of_nat [Suc k..<n])" using Suc by simp
      moreover have "\<not> ((word_of_nat k :: byte) = 3 \<and> (word_of_nat (Suc k) :: byte) = 2)"
        using byte_eq [of k 3] byte_eq [of "Suc k" 2] True Suc.prems by auto
      ultimately show ?thesis by simp
    next
      case False
      then show ?thesis using Suc.hyps(2) by (cases "k < n") (auto simp: upt_conv_Cons)
    qed
  qed simp
  from this [of 64 0] show ?thesis
    by (simp add: calm_frame_def tls_app_data_def put_be16_def calm_Cons del: upt.simps upt_rec_numeral)
qed

lemma calm_zeros:
  "calm (replicate n 0 @ r) = calm r" "0 < n \<Longrightarrow> calm (3 # replicate n 0 @ r) = calm r"
proof -
  show z: "calm (replicate n 0 @ r) = calm r" for n by (induction n) (simp_all add: calm_Cons)
  show "0 < n \<Longrightarrow> calm (3 # replicate n 0 @ r) = calm r"
    using z [of "n - 1"] by (cases n) (simp_all add: calm_Cons)
qed

lemma calm_server_hello: "calm_frame tls_server_hello"
  by (simp add: calm_frame_def tls_server_hello_def tls_handshake_bytes_def put_be16_def Let_def calm_Cons
      calm_zeros)

lemma calm_client_hello: "calm_frame (tls_client_hello ''www.google.com'')"
  by (simp add: calm_frame_def tls_client_hello_def tls_handshake_bytes_def hello_prefix_def
      build_sni_extension_def put_be16_def Let_def calm_Cons calm_zeros bytes_of_def char_byte_def)

lemma calm_answer:
  "\<exists>d. dns_response ''example.com'' ''93.184.216.34'' = Some d \<and> calm_frame d"
proof -
  have s: "split ''.'' ''93.184.216.34'' = [''93'', ''184'', ''216'', ''34'']"
    "split ''.'' ''example.com'' = [''example'', ''com'']"
    by (simp_all add: split_def sub_eval)
  have n: "scan_int ''93'' = 93" "scan_int ''184'' = 184" "scan_int ''216'' = 216" "scan_int ''34'' = 34"
    by code_simp+
  show ?thesis
    by (simp add: dns_response_def s n idx_def dns_query_def encode_dns_name_def bytes_of_def char_byte_def
        put_be16_def put_be32_def calm_frame_def)
qed

section \<open>What is generated is parsed\<close>

definition demo_ok :: "bytes \<Rightarrow> bool" where
  "demo_ok d = (calm d \<and> length d \<le> 454)"

lemma demo_ok_frames:
  "calm_frame p \<Longrightarrow> calm (put_be16 a) \<Longrightarrow> calm_port b \<Longrightarrow> 3 \<notin> set (ip4_bytes s) \<Longrightarrow> 3 \<notin> set (ip4_bytes d) \<Longrightarrow>
    demo_ok (eth_frame 0x0800 (ipv4udp s d a b p))"
  "calm_frame p \<Longrightarrow> calm (put_be16 a) \<Longrightarrow> calm_port b \<Longrightarrow> 3 \<notin> set (ip4_bytes s) \<Longrightarrow> 3 \<notin> set (ip4_bytes d) \<Longrightarrow>
    demo_ok (eth_frame 0x0800 (ipv4tcp s d a b fl p))"
  "3 \<notin> set (ip4_bytes s) \<Longrightarrow> 3 \<notin> set (ip4_bytes d) \<Longrightarrow> demo_ok (eth_frame 0x0800 (ipv4icmp s d))"
  unfolding demo_ok_def by (blast intro: calm_udp calm_tcp calm_icmp)+

lemma query_frame: "letters name \<Longrightarrow> length name \<le> 300 \<Longrightarrow> qt \<in> {1, 28} \<Longrightarrow> calm_frame (dns_query name qt)"
proof -
  assume a: "letters name" "length name \<le> 300" "qt \<in> {1, 28}"
  have "length (concat (map (\<lambda>p. word_of_nat (length p) # bytes_of p) ls)) \<le> Suc (length (join ''.'' ls))" for ls
    by (induction "''.''" ls rule: join.induct) (simp_all add: bytes_of_def)
  from this [of "split ''.'' name"] have "length (encode_dns_name name) \<le> length name + 2"
    by (simp add: encode_dns_name_def join_split)
  moreover have "3 \<notin> set (put_be16 qt)" using a(3) by (auto simp: put_be16_def)
  ultimately show ?thesis using a(1,2) calm_query by (simp add: calm_frame_def dns_query_def)
qed

lemma demo_head_ok: "list_all demo_ok demo_head" "length demo_head = 49"
proof -
  have arp: "demo_ok (eth_frame 0x0806 arp_request)" "demo_ok (eth_frame 0x0806 arp_reply)"
    by (simp_all add: demo_ok_def eth_frame_def arp_request_def arp_reply_def arp_packet_def put_be16_def
        client_ip_def server_ip_def calm_Cons)
  have syn: "demo_ok (syn_packet i)" if "i < 35" for i
    using that demo_hosts syn_port [of i] demo_payloads client_port [of "40000 + i"]
    by (auto simp: syn_packet_def intro!: demo_ok_frames(2))
  have q: "calm_frame (dns_query ''example.com'' 1)" "calm_frame (dns_query ''api.github.com'' 28)"
    "calm_frame (dns_query (concat (replicate 8 ''longlabel'') @ ''.evil.test'') 1)"
    by (rule query_frame; simp add: letters_def numeral_eq_Suc)+
  obtain d where d: "the (dns_response ''example.com'' ''93.184.216.34'') = d" "calm_frame d"
    using calm_answer by auto
  have p: "calm (put_be16 k)" if "k \<noteq> 770" for k using that by (simp add: calm_be16)
  show "list_all demo_ok demo_head"
    unfolding demo_head_def list_all_append
    using arp syn q d demo_hosts demo_payloads calm_ports calm_client_hello calm_server_hello
    by (auto simp: list_all_iff d(1) intro!: demo_ok_frames p)
  show "length demo_head = 49" by (simp add: demo_head_def)
qed

lemma demo_pad_ok: "n < 50000 \<Longrightarrow> demo_ok (demo_pad n)"
proof -
  assume n: "n < 50000"
  have h: "calm_frame (dns_query (''host'' @ dec n @ ''.local'') 1)"
    using length_dec [of n 4] n by (intro query_frame) simp_all
  have s: "calm (put_be16 (word_of_nat (40000 + n)))" if "n mod 5 = 0"
  proof (rule ccontr)
    assume "\<not> ?thesis"
    then have w: "(word_of_nat (40000 + n) :: u16) = 770" by (simp only: calm_be16 not_not)
    have "unat (word_of_nat (40000 + n) :: u16) = 770" unfolding w by simp
    then have r: "(40000 + n) mod 65536 = 770" unfolding unat_of_nat by simp
    from mult_div_mod_eq [of 65536 "40000 + n"]
    have "40000 + n = 65536 * ((40000 + n) div 65536) + 770" unfolding r by (rule sym)
    moreover have "(40000 + n) div 65536 \<le> 1" using n by simp
    ultimately have "n = 26306" using n by (cases "(40000 + n) div 65536") auto
    with that show False by simp
  qed
  have m: "n mod 1000 < 1000" by simp
  have c: "calm (put_be16 (word_of_nat (k + n mod 1000)))" if "50000 \<le> k" "k \<le> 52000" for k
    using that m by (intro client_port) linarith+
  show ?thesis
    unfolding demo_pad_def
    using h s c [of 50000] c [of 51000] c [of 52000] demo_hosts demo_payloads calm_ports calm_app_data
    by (auto intro!: demo_ok_frames)
qed

lemma demo_frames_ok: "cnt \<le> 50000 \<Longrightarrow> list_all demo_ok (demo_frames cnt)"
  using demo_head_ok(1) demo_pad_ok by (auto simp: demo_frames_def list_all_iff)

lemma demo_time_range:
  "now - 60000000000 \<le> demo_time now n \<and> demo_time now n \<le> now - 60000000000 + int n * 21000000"
proof (induction n)
  case (Suc n)
  have "n mod 17 \<le> 16" using mod_less_divisor [of 17 n] by simp
  then have "0 \<le> int (5 + n mod 17) * 1000000" "int (5 + n mod 17) * 1000000 \<le> 21000000" by simp_all
  with Suc show ?case by (simp add: algebra_simps)
qed simp

text \<open>C9: the file that \<open>fluxtap gen\<close> writes for any count up to 50000 is parsed from end to end: the
  run finishes with exactly one frame for each generated packet, in order, each the dissection of
  that packet; there are at least 49.\<close>

theorem generated_is_parsed:
  assumes "60000000000 \<le> now" "now \<le> 4000000000000000000" "cnt \<le> 50000"
    and "cf_filter cfg = []" "cf_max_packets cfg \<le> 0"
  shows "\<exists>e. run_file w (demo_pcap now cnt) (new_engine n start cfg) = Some (Finished e) \<and>
    length (e_frames e) = max 49 (nat cnt) \<and>
    list_all2 (\<lambda>(k, p) fr. frame_of w (new_dissector\<lparr>d_include_hex := cf_include_hex cfg\<rparr>) k p = Some fr)
      (enumerate 0 (numbered 1 0 (demo_records now cnt))) (e_frames e)"
proof -
  let ?ps = "demo_records now cnt"
  let ?rd = "(fresh_reader (records ?ps))\<lparr>r_order := LE, r_snap_len := 65535, r_link_type := 1\<rparr>"
  have len: "length ?ps = max 49 (nat cnt)"
    by (simp add: demo_records_def demo_frames_def demo_head_ok(2))
  have "map snd ?ps = demo_frames cnt"
    by (simp add: demo_records_def comp_def case_prod_beta')
  then have ok: "demo_ok (snd p)" if "p \<in> set ?ps" for p
    using that demo_frames_ok [OF assms(3)] by (metis image_eqI list.set_map list_all_iff)
  have t: "0 \<le> fst p \<and> fst p < 4294967296 * 1000000000" if "p \<in> set ?ps" for p
  proof -
    from that have "p \<in> (\<lambda>(n, d). (demo_time now n, d)) ` set (enumerate 0 (demo_frames cnt))"
      by (simp add: demo_records_def)
    then obtain q where "p = (\<lambda>(n, d). (demo_time now n, d)) q" "q \<in> set (enumerate 0 (demo_frames cnt))"
      by (rule imageE)
    then obtain k where k: "k < length ?ps" "fst p = demo_time now k"
      by (auto simp: in_set_enumerate_eq demo_records_def split_beta)
    have "int k \<le> 50000" using k(1) assms(3) by (simp add: len)
    with k(2) demo_time_range [of now k] assms(1,2) show ?thesis by simp
  qed
  have "list_all writable ?ps"
    using ok t by (force simp: list_all_iff writable_def demo_ok_def max_block_def)
  then have "all_packets (w_clock w) ?rd [] = Some ([] @ numbered 1 0 ?ps, None)"
    using all_packets_written [of ?rd ?ps 0 "w_clock w" "[]"] by (simp add: fresh_reader_def)
  then have a: "all_packets (w_clock w) ?rd [] = Some (numbered 1 0 ?ps, None)" by simp
  have f: "new_reader (demo_pcap now cnt) = Ret ?rd"
    using file_header_read [of 1 "records ?ps"]
    by (simp add: demo_pcap_def file_header_def records_def record_header_def)
  have l: "length (numbered 1 0 ?ps) \<le> 50000" using assms(3) by (simp add: numbered_def len)
  have "list_all (\<lambda>d. \<not> has_ws2 d) (map p_data (numbered 1 0 ?ps))"
    using ok by (auto simp: numbered_fields list_all_iff demo_ok_def calm_iff)
  then have "list_all (\<lambda>p. \<not> has_ws2 (p_data p)) (numbered 1 0 ?ps)" by (simp add: list_all_iff)
  from run_file_frames [OF f a assms(4,5) l this, of n start] obtain e where
    e: "run_file w (demo_pcap now cnt) (new_engine n start cfg) = Some (Finished e)"
    "list_all2 (\<lambda>(k, p) fr. frame_of w (new_dissector\<lparr>d_include_hex := cf_include_hex cfg\<rparr>) k p = Some fr)
       (enumerate 0 (numbered 1 0 ?ps)) (e_frames e)" .
  from list_all2_lengthD [OF e(2)] have "length (e_frames e) = max 49 (nat cnt)"
    by (simp add: numbered_def len)
  with e show ?thesis by blast
qed

lemma generated_is_parsed_witness:
  "\<exists>e. run_file demo_world (demo_pcap 60000000000 120) (new_engine demo_net 0 parse_config) = Some (Finished e) \<and>
     length (e_frames e) = 120"
  using generated_is_parsed [of 60000000000 120 parse_config demo_world demo_net 0]
  by (auto simp: parse_config_def demo_config_def)

end
