(* ===== verification/Live.thy ===== *)
theory Live
  imports System
begin

text \<open>
  \<open>internal/pcap/live.go\<close> and \<open>afpacket.go\<close>: the live packet sources. The subprocess and the socket
  are outside: of tcpdump there are the arguments it is started with, the bytes it has written, its error stream
  and whether it has exited; of the socket, the answers of \<open>recvfrom\<close>. The lemmas: a display filter
  cannot add arguments; an error of opening leaves no tcpdump behind; when tcpdump has exited, what
  it has written and nobody has read is lost; the kernel tap never returns without a packet, and
  closes its socket once; tcpdump is a packet source.
\<close>

section \<open>tcpdump\<close>

record live_opts =
  lo_iface :: string
  lo_snap_len :: int
  lo_bpf :: string
  lo_promisc :: bool
  lo_stdin :: bool

record live =
  lv_rd :: reader
  lv_iface :: string
  lv_closed :: bool

definition dec_int :: "int \<Rightarrow> string" where
  "dec_int i = (if i < 0 then CHR ''-'' # dec (nat (- i)) else dec (nat i))"

definition tcpdump_args :: "live_opts \<Rightarrow> string list" where
  "tcpdump_args opts =
     (let iface = (if lo_iface opts = [] then ''any'' else lo_iface opts);
          snap = (if lo_snap_len opts \<le> 0 then 65535 else lo_snap_len opts);
          args = [''-i'', iface, ''-w'', ''-'', ''-U'', ''--immediate-mode'', ''-n'', ''-s'', dec_int snap];
          args = (if \<not> lo_promisc opts then args @ [''-p''] else args);
          args = args @ [''--'']
      in if lo_bpf opts \<noteq> [] then args @ [lo_bpf opts] else args)"

text \<open>\<open>OpenLive\<close>, once the pcap header can be read from the pipe; \<open>inp\<close> is what comes through it.\<close>

definition open_live :: "live_opts \<Rightarrow> bytes \<Rightarrow> live rd_result" where
  "open_live opts inp =
     (case new_reader inp of
        Ret rd \<Rightarrow> Ret \<lparr>lv_rd = rd,
          lv_iface = (if lo_stdin opts then ''stdin'' else if lo_iface opts = [] then ''any'' else lo_iface opts),
          lv_closed = False\<rparr>
      | Err e \<Rightarrow> Err e
      | Panic \<Rightarrow> Panic)"

text \<open>What a piece of the error stream of tcpdump is printed as, and the errors of \<open>OpenLive\<close>: the hint
  is what tcpdump has written to its error stream, if anything.\<close>

definition tcpdump_lines :: "string \<Rightarrow> string list" where
  "tcpdump_lines msg =
     map (\<lambda>line. ''tcpdump: '' @ line @ newline) (filter (\<lambda>line. line \<noteq> []) (map trim_space (split newline msg)))"

definition header_error :: "string \<Rightarrow> string \<Rightarrow> string \<Rightarrow> string" where
  "header_error iface err buf =
     (let hint = trim_space buf;
          hint = (if hint = []
                  then ''permission denied? try: sudo fluxtap live -i '' @ iface @ ''  OR  sudo tcpdump -i ''
                    @ iface @ '' -U -w - | fluxtap live --stdin''
                  else hint)
      in ''pcap stream: '' @ err @ '' ('' @ hint @ '')'')"

definition timeout_error :: "string \<Rightarrow> string" where
  "timeout_error buf =
     (let hint = trim_space buf;
          hint = (if hint = [] then ''timeout waiting for tcpdump pcap header '' @ em_dash @ '' need root/CAP_NET_RAW''
                  else hint)
      in ''live capture failed: '' @ hint)"

text \<open>The goroutine that reads the error stream: what it has gathered and printed after the pieces it
  has read.\<close>

fun read_stderr :: "string list \<Rightarrow> string \<times> string list \<Rightarrow> string \<times> string list" where
  "read_stderr [] (buf, printed) = (buf, printed)"
| "read_stderr (msg # msgs) (buf, printed) =
     (if msg \<noteq> [] then read_stderr msgs (buf @ msg, printed @ tcpdump_lines msg)
      else read_stderr msgs (buf, printed))"

text \<open>\<open>OpenLive\<close> as a whole. From outside come the errors of the pipes and of starting tcpdump, what has
  come through its output within 4 seconds (\<open>None\<close>: not a whole header), the pieces read from its error
  stream by then, and the texts of errors. \<open>None\<close> is a panic of the goroutine that reads the header;
  with the result comes what has become of tcpdump.\<close>

datatype child = Not_started | Running "string list" | Killed "string list"

record launch =
  la_stdout :: "string option"
  la_stderr :: "string option"
  la_start :: "string option"
  la_output :: "bytes option"
  la_messages :: "string list"

definition launch_live ::
  "(rd_error \<Rightarrow> string) \<Rightarrow> launch \<Rightarrow> bytes \<Rightarrow> live_opts \<Rightarrow> ((string + live) \<times> child) option" where
  "launch_live text la stdin opts =
     (if lo_stdin opts then
        (case open_live opts stdin of
           Ret l \<Rightarrow> Some (Inr l, Not_started)
         | Err e \<Rightarrow> Some (Inl (''stdin pcap stream: '' @ text e
             @ '' (pipe: sudo tcpdump -i eth0 -U -w - | fluxtap live --stdin)''), Not_started)
         | Panic \<Rightarrow> None)
      else
        let args = tcpdump_args opts; iface = (if lo_iface opts = [] then ''any'' else lo_iface opts) in
        case la_stdout la of
          Some x \<Rightarrow> Some (Inl x, Not_started)
        | None \<Rightarrow>
        case la_stderr la of
          Some x \<Rightarrow> Some (Inl x, Not_started)
        | None \<Rightarrow>
        case la_start la of
          Some x \<Rightarrow> Some (Inl (''start tcpdump: '' @ x), Not_started)
        | None \<Rightarrow>
        let (buf, printed) = read_stderr (la_messages la) ([], []) in
        case la_output la of
          None \<Rightarrow> Some (Inl (timeout_error buf), Killed args)
        | Some out \<Rightarrow>
            (case open_live opts out of
               Ret l \<Rightarrow> Some (Inr l, Running args)
             | Err e \<Rightarrow> Some (Inl (header_error iface (text e) buf), Killed args)
             | Panic \<Rightarrow> None))"

text \<open>\<open>Next\<close>; \<open>closed\<close> is the flag after the read.\<close>

definition live_next :: "gotime \<Rightarrow> bool \<Rightarrow> live \<Rightarrow> packet rd_result \<times> live" where
  "live_next now closed l =
     (if lv_closed l then (Err EOF, l)
      else case next_packet now (lv_rd l) of
        (Err e, rd) \<Rightarrow> (Err (if closed then EOF else e), l\<lparr>lv_rd := rd, lv_closed := closed\<rparr>)
      | (x, rd) \<Rightarrow> (x, l\<lparr>lv_rd := rd, lv_closed := closed\<rparr>))"

definition live_link_type :: "live \<Rightarrow> u32" where
  "live_link_type l = r_link_type (lv_rd l)"

text \<open>\<open>Close\<close>, and the goroutine that waits for tcpdump.\<close>

definition live_close :: "live \<Rightarrow> live" where
  "live_close l = (if lv_closed l then l else l\<lparr>lv_closed := True\<rparr>)"

definition tcpdump_exited :: "live \<Rightarrow> live" where
  "tcpdump_exited l = l\<lparr>lv_closed := True\<rparr>"

section \<open>Interfaces\<close>

text \<open>\<open>strings.Fields(s)[0]\<close>; \<open>None\<close> if there is no field.\<close>

fun until_space :: "string \<Rightarrow> string" where
  "until_space [] = []"
| "until_space (c # s) = (if drop_any space_encodings (c # s) \<noteq> c # s then [] else c # until_space s)"

definition first_field :: "string \<Rightarrow> string option" where
  "first_field s = (let t = trim_by space_encodings s in if t = [] then None else Some (until_space t))"

definition iface_name :: "string \<Rightarrow> string option" where
  "iface_name line =
     first_field (case find_sub ''.'' line of Some dot \<Rightarrow> drop (dot + 1) line | None \<Rightarrow> line)"

fun iface_names :: "string list \<Rightarrow> string list \<Rightarrow> string list option" where
  "iface_names [] names = Some names"
| "iface_names (line # lines) names =
     (let line = trim_space line in
      if line = [] then iface_names lines names
      else do {
        name \<leftarrow> iface_name line;
        iface_names lines (names @ [name])
      })"

text \<open>The output of \<open>tcpdump -D\<close> and the entries of \<open>/sys/class/net\<close>, if they could be read.\<close>

definition list_interfaces :: "string option \<Rightarrow> string list option \<Rightarrow> string list option" where
  "list_interfaces out entries = do {
     names \<leftarrow> (case out of Some text \<Rightarrow> iface_names (split newline text) [] | None \<Rightarrow> Some []);
     Some (if names \<noteq> [] then names
           else case entries of None \<Rightarrow> [''any'', ''lo''] | Some es \<Rightarrow> ''any'' # es)
   }"

section \<open>The kernel tap\<close>

record kernel_tap =
  kt_fd :: int
  kt_iface :: string
  kt_link_type :: u32
  kt_snap :: nat
  kt_closed :: bool
  kt_seq :: u64

text \<open>\<open>OpenKernel\<close>; the three errors are those of looking up the interface, opening the socket \<open>fd\<close> and
  binding it. With the result comes the descriptor that is closed on the way out, if any.\<close>

definition open_kernel ::
  "string option \<Rightarrow> string + int \<Rightarrow> string option \<Rightarrow> string \<Rightarrow> int \<Rightarrow> (string + kernel_tap) \<times> int option" where
  "open_kernel no_iface socket no_bind iface snap =
     (if iface = [] \<or> iface = ''any''
      then (Inl (''kernel tap needs a real iface (eth0/lo); use --tcpdump for '' @ [CHR 0x27] @ ''any'' @ [CHR 0x27]), None)
      else case no_iface of
        Some x \<Rightarrow> (Inl (''iface '' @ iface @ '': '' @ x), None)
      | None \<Rightarrow>
          (case socket of
             Inl x \<Rightarrow> (Inl (''AF_PACKET: '' @ x @ '' (need root/CAP_NET_RAW)''), None)
           | Inr fd \<Rightarrow>
               (case no_bind of
                  Some x \<Rightarrow> (Inl (''bind: '' @ x), Some fd)
                | None \<Rightarrow> (Inr \<lparr>kt_fd = fd, kt_iface = iface, kt_link_type = link_type_ethernet,
                    kt_snap = (if snap \<le> 0 then 65535 else nat snap), kt_closed = False, kt_seq = 0\<rparr>, None))))"

definition kernel_iface :: "kernel_tap \<Rightarrow> string" where
  "kernel_iface k = kt_iface k @ '' [kernel]''"

text \<open>\<open>Close\<close>, with the descriptor it closes.\<close>

definition kernel_close :: "kernel_tap \<Rightarrow> kernel_tap \<times> int option" where
  "kernel_close k =
     (if kt_closed k then (k, None)
      else
        let k = k\<lparr>kt_closed := True\<rparr> in
        if 0 \<le> kt_fd k then (k\<lparr>kt_fd := -1\<rparr>, Some (kt_fd k)) else (k, None))"

text \<open>One turn of the loop of \<open>Next\<close>: whether another goroutine calls \<open>Close\<close> before it looks at the
  tap, the answer of \<open>recvfrom\<close>, and whether one calls \<open>Close\<close> while it waits for the answer; \<open>True\<close> is
  an error number the loop names as one to retry.\<close>

datatype recv = Recv_error bool | Recv bytes

type_synonym turn = "bool \<times> recv \<times> bool"

definition close_if :: "bool \<Rightarrow> kernel_tap \<Rightarrow> kernel_tap" where
  "close_if c k = (if c then fst (kernel_close k) else k)"

text \<open>\<open>Next\<close> on the turns that happen, and what is left of them; \<open>None\<close>: it has not returned yet. The
  error is the one of a closed tap.\<close>

fun kernel_next :: "gotime \<Rightarrow> turn list \<Rightarrow> kernel_tap \<Rightarrow> ((packet option \<times> turn list) \<times> kernel_tap) option" where
  "kernel_next now [] k = None"
| "kernel_next now ((c, r, c') # ts) k =
     (let k = close_if c k in
      if kt_closed k then Some ((None, ts), k)
      else
        let k = close_if c' k in
        case r of
          Recv_error retry \<Rightarrow>
            if \<not> retry \<and> kt_closed k then Some ((None, ts), k) else kernel_next now ts k
        | Recv d \<Rightarrow>
            let d = take (kt_snap k) d in
            if d = [] then kernel_next now ts k
            else
              let seq = kt_seq k + 1; n = word_of_nat (length d) in
              Some ((Some \<lparr>p_no = seq, p_timestamp = now, p_cap_len = n, p_orig_len = n, p_data = d,
                           p_link_type = kt_link_type k\<rparr>, ts), k\<lparr>kt_seq := seq\<rparr>))"

definition htons :: "u16 \<Rightarrow> u16" where
  "htons v = (push_bit 8 v) OR (drop_bit 8 v)"

section \<open>A live source\<close>

lemma live_next_shrinks:
  "live_next now closed l = (Ret p, l') \<Longrightarrow> length (r_in (lv_rd l')) < length (r_in (lv_rd l))"
  using next_packet_shrinks [of now "lv_rd l"]
  by (cases "next_packet now (lv_rd l)"; cases "fst (next_packet now (lv_rd l))")
    (auto simp: live_next_def split: if_splits)

interpretation tcpdump: packet_source "live_next now closed" "\<lambda>l. length (r_in (lv_rd l))"
  for now closed
  by unfold_locales (rule live_next_shrinks)

text \<open>A tcpdump that was started runs on only for a capture that was opened: no error leaves one behind.\<close>

lemma launch_child:
  assumes "launch_live text la stdin opts = Some (res, ch)"
  shows "(\<exists>args. ch = Running args) \<longleftrightarrow> \<not> lo_stdin opts \<and> (\<exists>l. res = Inr l)"
    "ch \<in> {Not_started, Running (tcpdump_args opts), Killed (tcpdump_args opts)}"
  using assms
  by (auto simp: launch_live_def Let_def split: if_splits option.splits rd_result.splits prod.splits)

text \<open>What tcpdump says reaches the user: its error stream is printed, and is the hint of the error.\<close>

lemma stderr_gathered: "fst (read_stderr msgs (buf, pr)) = buf @ concat msgs"
  by (induction msgs "(buf, pr)" arbitrary: buf pr rule: read_stderr.induct) simp_all

text \<open>A capture filter is one argument behind the end of the options of tcpdump, or nothing: the
  arguments before it do not depend on it.\<close>

theorem bpf_single_argument:
  "\<exists>front. \<forall>b. tcpdump_args (opts\<lparr>lo_bpf := b\<rparr>) = front @ [''--''] @ (if b = [] then [] else [b])"
  by (rule exI [of _ "butlast (tcpdump_args (opts\<lparr>lo_bpf := []\<rparr>))"]) (simp add: tcpdump_args_def Let_def)

text \<open>Once tcpdump has exited, the next turn of the loop ends the capture as complete, whatever
  packets are still unread in the pipe.\<close>

theorem exit_ends_capture:
  assumes "y_loc s = Reading" "y_src s = tcpdump_exited l"
    and "loop_step w (live_next now closed) s s'"
  shows "s' = finish_sys w s \<and> y_matched s' = y_matched s \<and> y_loc s' = Ended"
  using assms(3)
proof cases
  case read_eof
  then show ?thesis by simp
qed (use assms(1,2) in \<open>simp_all add: live_next_def tcpdump_exited_def\<close>)

lemma exit_ends_capture_witness:
  "y_loc (finish_sys demo_world (start_sys (tcpdump_exited \<lparr>lv_rd = fresh_reader [1, 2], lv_iface = [],
     lv_closed = False\<rparr>) (new_engine demo_net 0 demo_config)\<lparr>y_loc := Reading\<rparr>)) = Ended"
proof -
  let ?l = "\<lparr>lv_rd = fresh_reader [1, 2], lv_iface = [], lv_closed = False\<rparr>"
  let ?s = "start_sys (tcpdump_exited ?l) (new_engine demo_net 0 demo_config)\<lparr>y_loc := Reading\<rparr>"
  have r: "y_loc ?s = Reading" "y_src ?s = tcpdump_exited ?l" by (simp_all add: start_sys_def)
  have "live_next 0 False (y_src ?s) = (Err EOF, y_src ?s)"
    by (simp add: start_sys_def live_next_def tcpdump_exited_def)
  from read_eof [where s = ?s and next_pkt = "live_next 0 False", OF r(1) this] have "loop_step demo_world (live_next 0 False) ?s (finish_sys demo_world ?s)" .
  from exit_ends_capture [OF r this] show ?thesis by blast
qed

text \<open>A closed tap is closed for good, and the descriptor is closed once, however often and by whom
  \<open>Close\<close> is called: closing it twice would close a descriptor that somebody else has opened since.\<close>

fun closes :: "nat \<Rightarrow> kernel_tap \<Rightarrow> int list" where
  "closes 0 k = []"
| "closes (Suc n) k = (case kernel_close k of (k, fd) \<Rightarrow> (case fd of None \<Rightarrow> closes n k | Some x \<Rightarrow> x # closes n k))"

lemma closed_for_good: "kt_closed k \<Longrightarrow> closes n k = [] \<and> kernel_next now (t # ts) k = Some ((None, ts), k)"
  by (induction n) (cases t; simp add: kernel_close_def close_if_def)+

lemma closed_once:
  "\<not> kt_closed k \<Longrightarrow> 0 \<le> kt_fd k \<Longrightarrow> closes (Suc n) k = [kt_fd k]"
  using closed_for_good [of "fst (kernel_close k)" n] by (simp add: kernel_close_def Let_def)

text \<open>The kernel tap does not come back on time-outs and errors: while nobody closes it and no packet
  comes, its \<open>Next\<close> never returns, so the loop does not see that it was stopped or paused.\<close>

theorem kernel_tap_waits:
  assumes "\<not> kt_closed k"
    and "\<forall>(c, r, c') \<in> set ts. \<not> c \<and> \<not> c' \<and> (r = Recv [] \<or> (\<exists>retry. r = Recv_error retry))"
  shows "kernel_next now ts k = None"
  using assms by (induction ts) (auto simp: close_if_def)

lemma kernel_tap_waits_witness:
  "kernel_next 0 (replicate 1000 (False, Recv_error True, False)) \<lparr>kt_fd = 3, kt_iface = ''eth0'',
     kt_link_type = 1, kt_snap = 65535, kt_closed = False, kt_seq = 0\<rparr> = None"
  by (rule kernel_tap_waits) auto

text \<open>What a packet of the tap is: at most the snap length, the next number, the link type of Ethernet.\<close>

lemma kernel_next_packet:
  "kernel_next now ts k = Some ((Some p, ts'), k') \<Longrightarrow>
   p_no p = kt_seq k + 1 \<and> kt_seq k' = p_no p \<and> p_data p \<noteq> [] \<and> length (p_data p) \<le> kt_snap k \<and>
   p_cap_len p = word_of_nat (length (p_data p)) \<and> p_orig_len p = p_cap_len p \<and>
   p_link_type p = kt_link_type k \<and> length ts' < length ts"
proof (induction ts arbitrary: k)
  case (Cons t ts)
  obtain c r c' where t: "t = (c, r, c')" by (cases t) auto
  have keep: "kt_seq (close_if b x) = kt_seq x" "kt_snap (close_if b x) = kt_snap x"
    "kt_link_type (close_if b x) = kt_link_type x" for b x
    by (simp_all add: close_if_def kernel_close_def Let_def)
  show ?case
    using Cons.prems Cons.IH [of "close_if c' (close_if c k)"]
    by (auto simp: t Let_def keep min_def split: recv.splits if_splits)
qed simp

end
