(* ===== verification/Web.thy ===== *)
theory Web
  imports Live
begin

text \<open>
  \<open>internal/web/server.go\<close>: the dashboard server. A request is what \<open>net/http\<close> makes of it: its method,
  its cleaned path, its host, the first value of each query parameter and header, and its body. A
  reply is a status code, the headers set, and what is written; \<open>Abort\<close> is a panic in a handler, which
  \<open>net/http\<close> turns into a closed connection; \<open>Refused\<close> is the WebSocket library's reply to a handshake. The record \<open>outside\<close> has what the handlers get from
  others: the embedded page and picture, the answer of the HTTP client, the interfaces, the action
  and the command that \<open>encoding/json\<close> reads from a body, and whether the WebSocket handshake
  succeeds apart from the origin. A connection is its number. The lemmas: without the token no
  handler reads or changes the engine; which requests open a WebSocket, from which
  origins; the limits.
\<close>

section \<open>State\<close>

record server =
  sv_addr :: string
  sv_token :: string
  sv_no_auth :: bool
  sv_subs :: "nat list"

record options =
  op_addr :: string
  op_token :: string
  op_no_auth :: bool

record request =
  rq_method :: string
  rq_path :: string
  rq_host :: string
  rq_query :: "string \<Rightarrow> string"
  rq_header :: "string \<Rightarrow> string"
  rq_body :: string

record outside =
  ou_world :: world
  ou_html :: string
  ou_png :: string
  ou_answer :: answer
  ou_ifaces :: "string list option"
  ou_action :: "string \<Rightarrow> string"
  ou_cmd :: "string \<Rightarrow> string option"
  ou_upgrade :: bool
  ou_conn :: nat

datatype content =
    Text string
  | Html string
  | Png string
  | C_stats snapshot
  | C_flows "conversation list"
  | C_security "finding list"
  | C_status status "bool option"
  | C_ifaces "string list"
  | C_sessions "session list"
  | C_session session
  | C_story story
  | C_telegram telegram_state
  | C_webhook webhook_state
  | C_rows "row list"
  | C_packet frame
  | C_export export

datatype reply =
    Reply nat "(string \<times> string) list" content
  | Upgraded "emit list"
  | Refused
  | Abort

text \<open>\<open>randomToken\<close>: \<open>rnd\<close> is what \<open>crypto/rand\<close> gives, \<open>nano\<close> the clock in nanoseconds.\<close>

definition random_token :: "bytes option \<Rightarrow> int \<Rightarrow> string" where
  "random_token rnd nano =
     (case rnd of Some b \<Rightarrow> hex_bytes b | None \<Rightarrow> hex_bytes (bytes_of (dec_int nano)))"

definition new_server :: "bytes option \<Rightarrow> int \<Rightarrow> options \<Rightarrow> engine \<Rightarrow> server \<times> engine" where
  "new_server rnd nano opts e =
     (let token = trim_space (op_token opts);
          token = (if \<not> op_no_auth opts \<and> token = [] then random_token rnd nano else token)
      in (\<lparr>sv_addr = op_addr opts, sv_token = token, sv_no_auth = op_no_auth opts, sv_subs = []\<rparr>, set_hub e))"

definition auth_enabled :: "server \<Rightarrow> bool" where
  "auth_enabled sv = (\<not> sv_no_auth sv \<and> sv_token sv \<noteq> [])"

section \<open>Who may do what\<close>

definition check_origin :: "request \<Rightarrow> bool" where
  "check_origin r =
     (let origin = rq_header r ''Origin''; host = rq_host r;
          allowed = [''http://'' @ host, ''https://'' @ host, ''http://127.0.0.1'', ''http://localhost'',
            ''https://127.0.0.1'', ''https://localhost''] in
      if origin = [] then True
      else if list_ex (\<lambda>a. origin = a \<or> has_prefix origin (a @ '':'')) allowed then True
      else has_prefix origin (''http://'' @ host) \<or> has_prefix origin (''https://'' @ host))"

text \<open>The token a request presents; \<open>None\<close> if cutting off \<open>Bearer\<close> is out of range.\<close>

definition presented_token :: "(nat \<Rightarrow> nat) \<Rightarrow> request \<Rightarrow> string option" where
  "presented_token ul r = do {
     let tok = rq_query r ''token'';
     tok \<leftarrow> (if tok = [] then
              let h = rq_header r ''Authorization'' in
              if has_prefix (to_lower ul h) ''bearer '' then map_option trim_space (slice h 7 (length h))
              else Some tok
            else Some tok);
     Some (if tok = [] then rq_header r ''X-FluxTap-Token'' else tok)
   }"

definition authorize :: "(nat \<Rightarrow> nat) \<Rightarrow> server \<Rightarrow> request \<Rightarrow> bool option" where
  "authorize ul sv r =
     (if \<not> auth_enabled sv then Some True
      else map_option (\<lambda>tok. tok = sv_token sv) (presented_token ul r))"

section \<open>Replies\<close>

definition http_error :: "string \<Rightarrow> nat \<Rightarrow> reply" where
  "http_error msg code =
     Reply code [(''Content-Type'', ''text/plain; charset=utf-8''), (''X-Content-Type-Options'', ''nosniff'')]
       (Text (msg @ newline))"

definition write_json :: "content \<Rightarrow> reply" where
  "write_json c = Reply 200 [(''Content-Type'', ''application/json'')] c"

definition security_headers :: "(string \<times> string) list" where
  "security_headers =
     [(''X-Content-Type-Options'', ''nosniff''), (''X-Frame-Options'', ''DENY''),
      (''Referrer-Policy'', ''no-referrer''),
      (''Content-Security-Policy'', ''default-src 'self'; style-src 'self' 'unsafe-inline'; ''
         @ ''script-src 'self' 'unsafe-inline'; connect-src 'self' ws: wss:; img-src 'self' data:'')]"

definition with_security_headers :: "reply \<Rightarrow> reply" where
  "with_security_headers rp =
     (case rp of Reply code hs c \<Rightarrow> Reply code (fold (\<lambda>(k, v). AList.update k v) hs security_headers) c
      | _ \<Rightarrow> rp)"

text \<open>\<open>strconv.Atoi\<close> and \<open>strconv.ParseUint(s, 10, 64)\<close>, whose errors the handlers ignore: a syntax error
  gives 0, a value out of range the nearest one in range.\<close>

definition parse_digits :: "string \<Rightarrow> nat option" where
  "parse_digits s =
     (if s \<noteq> [] \<and> list_all (\<lambda>c. digit_val c \<noteq> None) s
      then Some (fold (\<lambda>c v. v * 10 + the (digit_val c)) s 0) else None)"

definition atoi :: "string \<Rightarrow> int" where
  "atoi s =
     (let neg = has_prefix s ''-''; t = (if neg \<or> has_prefix s ''+'' then drop 1 s else s) in
      case parse_digits t of
        None \<Rightarrow> 0
      | Some n \<Rightarrow> if neg then max (- (2 ^ 63)) (- int n) else min (2 ^ 63 - 1) (int n))"

definition parse_uint64 :: "string \<Rightarrow> u64" where
  "parse_uint64 s =
     (case parse_digits s of None \<Rightarrow> 0 | Some n \<Rightarrow> if 2 ^ 64 \<le> n then - 1 else word_of_nat n)"

section \<open>Handlers\<close>

text \<open>A handler gets the request and the engine, and returns the reply and the engine.\<close>

type_synonym handler = "outside \<Rightarrow> server \<Rightarrow> request \<Rightarrow> engine \<Rightarrow> reply \<times> engine"

definition handle_stats :: handler where
  "handle_stats ou sv r e = (write_json (C_stats (stats_snapshot (w_talkers (ou_world ou)) (e_stats e))), e)"

definition handle_flows :: handler where
  "handle_flows ou sv r e = (write_json (C_flows (tracker_top (w_convs (ou_world ou)) 100 (e_flows e))), e)"

definition handle_security :: handler where
  "handle_security ou sv r e = (write_json (C_security (analyzer_findings (e_security e))), e)"

definition handle_status :: handler where
  "handle_status ou sv r e = (write_json (C_status (engine_status e) (Some (auth_enabled sv))), e)"

definition handle_ifaces :: handler where
  "handle_ifaces ou sv r e =
     (case ou_ifaces ou of None \<Rightarrow> Abort | Some names \<Rightarrow> write_json (C_ifaces names), e)"

definition handle_control :: handler where
  "handle_control ou sv r e =
     (if rq_method r \<noteq> ''POST'' then (http_error ''POST required'' 405, e)
      else
        let act = ou_action ou (take 4096 (rq_body r)) in
        if act = ''pause'' then let e = engine_pause e in (write_json (C_status (engine_status e) None), e)
        else if act = ''resume'' then let e = engine_resume e in (write_json (C_status (engine_status e) None), e)
        else if act = ''stop'' then let e = engine_stop e in (write_json (C_status (engine_status e) None), e)
        else (http_error ''unknown action'' 400, e))"

definition handle_sessions :: handler where
  "handle_sessions ou sv r e =
     (let limit = atoi (rq_query r ''limit''); limit = (if limit \<le> 0 then 50 else limit) in
      (write_json (C_sessions (player_list (w_sessions (ou_world ou)) limit (e_sessions e))), e))"

definition handle_session :: handler where
  "handle_session ou sv r e =
     (let key = rq_query r ''key'' in
      if key = [] then (http_error ''key required'' 400, e)
      else case player_get key (e_sessions e) of
        None \<Rightarrow> (http_error ''not found'' 404, e)
      | Some s \<Rightarrow> (write_json (C_session s), e))"

definition handle_story :: handler where
  "handle_story ou sv r e = (write_json (C_story (engine_story (ou_world ou) e)), e)"

definition test_message :: string where
  "test_message = ''test ping from FluxTap dashboard''"

definition handle_telegram_test :: handler where
  "handle_telegram_test ou sv r e =
     (if rq_method r \<noteq> ''POST'' then (http_error ''POST required'' 405, e)
      else
        let (err, sent) = telegram_notify_text (ou_answer ou) test_message (e_telegram e);
            e = (case sent of None \<Rightarrow> e | Some text \<Rightarrow> e\<lparr>e_out := e_out e @ [Tg_text text]\<rparr>) in
        (case err of
           Some m \<Rightarrow> http_error m 400
         | None \<Rightarrow> write_json (C_telegram (telegram_status (e_telegram e))), e))"

definition handle_webhook_test :: handler where
  "handle_webhook_test ou sv r e =
     (if rq_method r \<noteq> ''POST'' then (http_error ''POST required'' 405, e)
      else
        let (err, sent) = webhook_notify_text (w_net (ou_world ou)) (ou_answer ou) test_message (e_webhook e);
            e = (case sent of None \<Rightarrow> e | Some (dial, p) \<Rightarrow> e\<lparr>e_out := e_out e @ [Wh_post dial p]\<rparr>) in
        (case err of
           Some m \<Rightarrow> http_error m 400
         | None \<Rightarrow> write_json (C_webhook (webhook_status (e_webhook e))), e))"

text \<open>A row of the packet table has the fields of the rows for the live table.\<close>

definition handle_packets :: handler where
  "handle_packets ou sv r e =
     (let q = rq_query r ''filter''; limit = atoi (rq_query r ''limit'');
          limit = (if limit \<le> 0 then 200 else limit);
          limit = (if 300 < limit then 300 else limit) in
      case engine_filtered (w_tables (ou_world ou)) q e of
        None \<Rightarrow> (Abort, e)
      | Some frames \<Rightarrow>
          let frames = (if limit < int (length frames) then drop (length frames - nat limit) frames else frames)
          in (write_json (C_rows (map slim frames)), e))"

definition handle_packet :: handler where
  "handle_packet ou sv r e =
     (case frame_by_no (parse_uint64 (rq_query r ''no'')) e of
        None \<Rightarrow> (http_error ''not found'' 404, e)
      | Some f \<Rightarrow> (write_json (C_packet f), e))"

definition handle_export_json :: handler where
  "handle_export_json ou sv r e =
     (Reply 200 [(''Content-Type'', ''application/json''),
        (''Content-Disposition'', ''attachment; filename=fluxtap.json'')] (C_export (export_json (ou_world ou) e)), e)"

definition auth_mark :: string where
  "auth_mark = ''/*__FLUXTAP_AUTH__*/''"

text \<open>\<open>strings.Replace(s, old, new, 1)\<close>.\<close>

definition replace_first :: "string \<Rightarrow> string \<Rightarrow> string \<Rightarrow> string" where
  "replace_first s old new =
     (case find_sub old s of None \<Rightarrow> s | Some i \<Rightarrow> take i s @ new @ drop (i + length old) s)"

definition handle_index :: handler where
  "handle_index ou sv r e =
     (Reply 200 [(''Content-Type'', ''text/html; charset=utf-8'')]
        (Html (replace_first (ou_html ou) auth_mark
           (if auth_enabled sv then ''window.__FLUXTAP_AUTH__=true;'' else ''window.__FLUXTAP_AUTH__=false;''))), e)"

definition handle_favicon :: handler where
  "handle_favicon ou sv r e =
     (Reply 200 [(''Content-Type'', ''image/png''), (''Cache-Control'', ''public, max-age=86400'')]
        (Png (ou_png ou)), e)"

definition with_auth :: "handler \<Rightarrow> handler" where
  "with_auth h ou sv r e =
     (case authorize (tab_lower (w_tables (ou_world ou))) sv r of
        None \<Rightarrow> (Abort, e)
      | Some False \<Rightarrow> (http_error ''unauthorized'' 401, e)
      | Some True \<Rightarrow> h ou sv r e)"

section \<open>WebSockets\<close>

definition handle_ws :: "outside \<Rightarrow> server \<Rightarrow> request \<Rightarrow> engine \<Rightarrow> reply \<times> server" where
  "handle_ws ou sv r e =
     (case authorize (tab_lower (w_tables (ou_world ou))) sv r of
        None \<Rightarrow> (Abort, sv)
      | Some False \<Rightarrow> (http_error ''unauthorized'' 401, sv)
      | Some True \<Rightarrow>
          if \<not> ou_upgrade ou \<or> \<not> check_origin r then (Refused, sv)
          else
            (Upgraded [Ev_stats (stats_snapshot (w_talkers (ou_world ou)) (e_stats e)),
               Ev_status (engine_status e),
               Ev_sessions (player_list (w_sessions (ou_world ou)) 40 (e_sessions e)),
               Ev_story (engine_story (ou_world ou) e)],
             sv\<lparr>sv_subs := sv_subs sv @ [ou_conn ou]\<rparr>))"

text \<open>A message on a connection, and its end.\<close>

definition ws_message :: "outside \<Rightarrow> string \<Rightarrow> engine \<Rightarrow> engine" where
  "ws_message ou data e =
     (case ou_cmd ou data of
        None \<Rightarrow> e
      | Some cmd \<Rightarrow>
          if cmd = ''pause'' then engine_pause e
          else if cmd = ''resume'' then engine_resume e
          else if cmd = ''stop'' then engine_stop e else e)"

definition ws_end :: "nat \<Rightarrow> server \<Rightarrow> server" where
  "ws_end c sv = sv\<lparr>sv_subs := removeAll c (sv_subs sv)\<rparr>"

text \<open>\<open>Broadcast\<close>: \<open>enc\<close> is \<open>json.Marshal\<close> of the event, \<open>up c\<close> whether writing to \<open>c\<close> succeeds. The
  result has what was written to whom.\<close>

definition server_broadcast ::
  "(emit \<Rightarrow> string option) \<Rightarrow> (nat \<Rightarrow> bool) \<Rightarrow> emit \<Rightarrow> server \<Rightarrow> server \<times> (nat \<times> string) list" where
  "server_broadcast enc up ev sv =
     (case enc ev of
        None \<Rightarrow> (sv, [])
      | Some msg \<Rightarrow>
          let dead = filter (\<lambda>c. \<not> up c) (sv_subs sv) in
          (sv\<lparr>sv_subs := filter (\<lambda>c. c \<notin> set dead) (sv_subs sv)\<rparr>,
           map (\<lambda>c. (c, msg)) (filter up (sv_subs sv))))"

section \<open>Routes\<close>

definition api_handlers :: "(string \<times> handler) list" where
  "api_handlers =
     [(''/api/stats'', handle_stats), (''/api/packets'', handle_packets), (''/api/packet'', handle_packet),
      (''/api/flows'', handle_flows), (''/api/security'', handle_security), (''/api/status'', handle_status),
      (''/api/ifaces'', handle_ifaces), (''/api/control'', handle_control),
      (''/api/sessions'', handle_sessions), (''/api/session'', handle_session), (''/api/story'', handle_story),
      (''/api/telegram/test'', handle_telegram_test), (''/api/webhook/test'', handle_webhook_test),
      (''/api/export.json'', handle_export_json)]"

definition serve_http :: "outside \<Rightarrow> request \<Rightarrow> server \<times> engine \<Rightarrow> reply \<times> server \<times> engine" where
  "serve_http ou r = (\<lambda>(sv, e).
     if rq_path r = ''/ws'' then
       (case handle_ws ou sv r e of (rp, sv) \<Rightarrow> (with_security_headers rp, sv, e))
     else
       let h = (if rq_path r = ''/favicon.png'' then handle_favicon
                else case map_of api_handlers (rq_path r) of Some h \<Rightarrow> with_auth h | None \<Rightarrow> handle_index)
       in case h ou sv r e of (rp, e) \<Rightarrow> (with_security_headers rp, sv, e))"

text \<open>What the start prints; \<open>host\<close> is the host that \<open>net.SplitHostPort\<close> finds in the address.\<close>

definition dashboard_url :: "server \<Rightarrow> string" where
  "dashboard_url sv =
     ''http://'' @ sv_addr sv @ (if auth_enabled sv then ''/?token='' @ sv_token sv else [])"

definition warns_bind :: "string option \<Rightarrow> bool" where
  "warns_bind host =
     (case host of
        None \<Rightarrow> False
      | Some h \<Rightarrow> h \<noteq> [] \<and> h \<noteq> ''127.0.0.1'' \<and> h \<noteq> ''localhost'' \<and> h \<noteq> ''::1'')"

definition warning_sign :: string where
  "warning_sign = [CHR 0xE2, CHR 0x9A, CHR 0xA0, CHR 0xEF, CHR 0xB8, CHR 0x8F]"

definition start_lines :: "string option \<Rightarrow> server \<Rightarrow> engine \<Rightarrow> string list" where
  "start_lines host sv e =
     (let mode = (if e_live e then ''LIVE'' else ''file'');
          mode = (if e_source e \<noteq> [] then mode @ ''/'' @ e_source e else mode) in
      [[CHR 0xE2, CHR 0x9A, CHR 0xA1] @ '' FluxTap ['' @ mode @ ''] '' @ arrow @ '' '' @ dashboard_url sv @ newline,
       if auth_enabled sv
       then [CHR 0xF0, CHR 0x9F, CHR 0x94, CHR 0x90]
         @ '' dashboard token required (pass ?token= or Authorization: Bearer)'' @ newline
       else warning_sign @ ''  dashboard auth DISABLED (--no-auth)'' @ newline]
      @ (if warns_bind host
         then [warning_sign @ ''  bind '' @ sv_addr sv @ '' is not loopback '' @ em_dash
           @ '' anyone who can reach it can use the API (token still required unless --no-auth)'' @ newline]
         else []))"

section \<open>Reading the token never fails\<close>

abbreviation ascii_count :: "string \<Rightarrow> nat" where
  "ascii_count s \<equiv> length (filter (\<lambda>c. (of_char c :: nat) < 0x80) s)"

lemma ascii_count_rune: "ascii_count (encode_rune r) \<le> 1"
proof -
  have h: "(of_char (char_of n) :: nat) = n" if "n < 256" for n using that by simp
  define q where "q = (if in_range 0xD800 0xDFFF r \<or> 0x10FFFF < r then rune_error else r)"
  have q: "q \<le> 0x10FFFF" by (simp add: q_def)
  consider "q < 0x80" | "0x80 \<le> q" "q < 0x800" | "0x800 \<le> q" "q < 0x10000" | "0x10000 \<le> q" by linarith
  then show ?thesis
  proof cases
    case 1
    then show ?thesis by (simp add: encode_rune_def q_def [symmetric] Let_def)
  next
    case 2
    then have "0xC0 + q div 64 < 256" by simp
    with 2 show ?thesis by (simp add: encode_rune_def q_def [symmetric] Let_def h)
  next
    case 3
    then have "0xE0 + q div 4096 < 256" by simp
    with 3 show ?thesis by (simp add: encode_rune_def q_def [symmetric] Let_def h)
  next
    case 4
    then have "0xF0 + q div 262144 < 256" using q by simp
    with 4 show ?thesis by (simp add: encode_rune_def q_def [symmetric] Let_def h)
  qed
qed

lemma length_runes: "length (runes s) \<le> length s"
proof (induction s rule: runes.induct)
  case (1 s)
  show ?case
  proof (cases "s = []")
    case False
    then have "length (drop (snd (decode_rune s)) s) < length s"
      using decode_rune_width [of s] by (cases s) auto
    with 1 [OF False] False show ?thesis by (subst runes.simps) simp
  qed simp
qed

lemma ascii_count_lower: "ascii_count (to_lower ul s) \<le> length s"
proof -
  have "ascii_count (concat (map f rs)) \<le> length rs" if "\<And>r. ascii_count (f r) \<le> 1" for f and rs :: "nat list"
  proof (induction rs)
    case (Cons r rs)
    with that [of r] show ?case by simp
  qed simp
  from this [of "\<lambda>r. encode_rune (lower_rune ul r)" "runes s"] ascii_count_rune length_runes [of s]
  show ?thesis unfolding to_lower_def by (meson order_trans)
qed

lemma presented_token_total: "\<exists>tok. presented_token ul r = Some tok"
proof -
  have "7 \<le> length h" if pre: "has_prefix (to_lower ul h) ''bearer ''" for h
  proof -
    obtain t where "to_lower ul h = ''bearer '' @ t" using pre by (auto simp: has_prefix_iff)
    then have "7 \<le> ascii_count (to_lower ul h)" by simp
    with ascii_count_lower [of ul h] show ?thesis by linarith
  qed
  then show ?thesis by (auto simp: presented_token_def Let_def slice_def)
qed

section \<open>Without the token\<close>

definition public_reply :: "outside \<Rightarrow> server \<Rightarrow> request \<Rightarrow> engine \<Rightarrow> reply \<Rightarrow> bool" where
  "public_reply ou sv r e rp =
     (rp \<in> {with_security_headers (http_error ''unauthorized'' 401),
            with_security_headers (fst (handle_favicon ou sv r e)),
            with_security_headers (fst (handle_index ou sv r e))})"

lemma handle_public [simp]: "snd (handle_favicon ou sv r e) = e" "snd (handle_index ou sv r e) = e"
  by (simp_all add: handle_favicon_def handle_index_def)

lemma serve_unauthorized:
  assumes "auth_enabled sv" "presented_token (tab_lower (w_tables (ou_world ou))) r \<noteq> Some (sv_token sv)"
  shows "\<exists>rp. serve_http ou r (sv, e) = (rp, sv, e) \<and> public_reply ou sv r e rp"
proof -
  have a: "authorize (tab_lower (w_tables (ou_world ou))) sv r = Some False"
    using assms presented_token_total [of "tab_lower (w_tables (ou_world ou))" r]
    by (auto simp: authorize_def)
  have w: "with_auth h ou sv r e = (http_error ''unauthorized'' 401, e)" for h
    by (simp add: with_auth_def a)
  show ?thesis
    using handle_public [of ou sv r e]
    by (auto simp: serve_http_def Let_def handle_ws_def a w public_reply_def case_prod_beta'
        split: option.split)
qed

text \<open>C8: with authentication on, a request that does not present the token gets an error 401 or one of
  the two embedded files, and changes neither the engine nor the connections of the server.\<close>

theorem no_token_no_access:
  assumes "auth_enabled sv" "presented_token (tab_lower (w_tables (ou_world ou))) r \<noteq> Some (sv_token sv)"
  shows "\<exists>rp. serve_http ou r (sv, e) = (rp, sv, e) \<and> public_reply ou sv r e rp"
  by (rule serve_unauthorized [OF assms])

lemma api_handler_get:
  "(p, h) \<in> set api_handlers \<Longrightarrow> rq_method r \<noteq> ''POST'' \<Longrightarrow> snd (h ou sv r e) = e"
  by (auto simp: api_handlers_def handle_stats_def handle_flows_def handle_security_def handle_status_def
      handle_ifaces_def handle_control_def handle_sessions_def handle_session_def handle_story_def
      handle_telegram_test_def handle_webhook_test_def handle_packets_def handle_packet_def
      handle_export_json_def Let_def split: option.splits)

lemma with_auth_get:
  "(p, h) \<in> set api_handlers \<Longrightarrow> rq_method r \<noteq> ''POST'' \<Longrightarrow> snd (with_auth h ou sv r e) = e"
  using api_handler_get by (auto simp: with_auth_def split: option.split bool.split)

text \<open>Only a POST can change the engine, and no request but a WebSocket handshake changes the
  connections.\<close>

theorem get_changes_nothing:
  assumes "rq_method r \<noteq> ''POST''"
  shows "snd (snd (serve_http ou r (sv, e))) = e \<and>
    (rq_path r \<noteq> ''/ws'' \<longrightarrow> fst (snd (serve_http ou r (sv, e))) = sv)"
  using with_auth_get [OF map_of_SomeD assms] handle_public [of ou sv r e]
  by (auto simp: serve_http_def Let_def case_prod_beta' split: option.split)

definition demo_outside :: outside where
  "demo_outside = \<lparr>ou_world = demo_world, ou_html = auth_mark, ou_png = [], ou_answer = Unreachable,
     ou_ifaces = Some [''lo''], ou_action = (\<lambda>_. ''stop''), ou_cmd = (\<lambda>_. None), ou_upgrade = True,
     ou_conn = 7\<rparr>"

definition demo_request :: "string \<Rightarrow> string \<Rightarrow> string \<Rightarrow> request" where
  "demo_request meth path tok = \<lparr>rq_method = meth, rq_path = path, rq_host = ''tap.example'',
     rq_query = (\<lambda>k. if k = ''token'' then tok else []), rq_header = (\<lambda>_. []), rq_body = []\<rparr>"

abbreviation demo_server :: server where
  "demo_server \<equiv> \<lparr>sv_addr = ''127.0.0.1:8090'', sv_token = ''s3cret'', sv_no_auth = False, sv_subs = [1]\<rparr>"

lemma no_token_no_access_witness:
  "\<exists>rp. serve_http demo_outside (demo_request ''POST'' ''/api/control'' ''guess'')
     (demo_server, new_engine demo_net 0 demo_config) = (rp, demo_server, new_engine demo_net 0 demo_config)"
  using no_token_no_access [of demo_server demo_outside "demo_request ''POST'' ''/api/control'' ''guess''"]
  by (auto simp: auth_enabled_def presented_token_def demo_request_def)

lemma get_changes_nothing_witness:
  "snd (snd (serve_http demo_outside (demo_request ''GET'' ''/api/control'' ''s3cret'')
     (demo_server, new_engine demo_net 0 demo_config))) = new_engine demo_net 0 demo_config"
  using get_changes_nothing [of "demo_request ''GET'' ''/api/control'' ''s3cret''"]
  by (simp add: demo_request_def)

text \<open>The server asks for a token unless it was told not to: without one it makes its own.\<close>

theorem auth_by_default:
  assumes "\<not> op_no_auth opts" "rnd \<noteq> Some []"
  shows "auth_enabled (fst (new_server rnd nano opts e)) \<and> sv_subs (fst (new_server rnd nano opts e)) = [] \<and>
    e_hub (snd (new_server rnd nano opts e))"
proof -
  have h: "hex_bytes bs = [] \<longleftrightarrow> bs = []" for bs
    using length_hex_bytes [of bs] by (cases bs) auto
  have "bytes_of (dec_int nano) \<noteq> []"
    by (simp add: dec_int_def bytes_of_def)
  then have "random_token rnd nano \<noteq> []"
    using assms(2) by (auto simp: random_token_def h split: option.split)
  then show ?thesis using assms(1) by (simp add: new_server_def auth_enabled_def set_hub_def Let_def)
qed

lemma auth_by_default_witness:
  "auth_enabled (fst (new_server (Some (replicate 16 7)) 0
     \<lparr>op_addr = ''127.0.0.1:8090'', op_token = [], op_no_auth = False\<rparr> (new_engine demo_net 0 demo_config)))"
proof -
  have "Some (replicate 16 (7 :: byte)) \<noteq> Some []" by (auto dest: arg_cong [where f = length])
  from auth_by_default [OF _ this] show ?thesis by simp
qed

section \<open>Who may open the WebSocket\<close>

text \<open>The origins that may: none, the beginning of the host's own origin followed by anything, and a
  local one with any port.\<close>

definition opening_origin :: "string \<Rightarrow> string \<Rightarrow> bool" where
  "opening_origin host origin =
     (origin = [] \<or>
      (\<exists>scheme \<in> {''http://'', ''https://''}.
         (\<exists>rest. origin = scheme @ host @ rest) \<or>
         (\<exists>local \<in> {''127.0.0.1'', ''localhost''}. \<exists>rest.
            origin = scheme @ local @ rest \<and> (rest = [] \<or> hd rest = CHR '':''))))"

lemma same_or_port: "origin = a \<or> has_prefix origin (a @ '':'') \<longleftrightarrow>
  (\<exists>rest. origin = a @ rest \<and> (rest = [] \<or> hd rest = CHR '':''))"
proof
  assume "origin = a \<or> has_prefix origin (a @ '':'')"
  then show "\<exists>rest. origin = a @ rest \<and> (rest = [] \<or> hd rest = CHR '':'')"
    by (auto simp: has_prefix_iff)
next
  assume "\<exists>rest. origin = a @ rest \<and> (rest = [] \<or> hd rest = CHR '':'')"
  then obtain rest where r: "origin = a @ rest" "rest = [] \<or> hd rest = CHR '':''" by blast
  then show "origin = a \<or> has_prefix origin (a @ '':'')"
    by (cases rest) (auto simp: has_prefix_iff)
qed

lemma check_origin_iff: "check_origin r \<longleftrightarrow> opening_origin (rq_host r) (rq_header r ''Origin'')"
proof -
  let ?or = "rq_header r ''Origin''"
  define own where "own s \<longleftrightarrow> has_prefix ?or (s @ rq_host r)" for s
  define ok where "ok a \<longleftrightarrow> ?or = a \<or> has_prefix ?or (a @ '':'')" for a
  have own: "ok (s @ rq_host r) \<Longrightarrow> own s" for s
    unfolding ok_def own_def by (auto simp: has_prefix_iff)
  have "check_origin r \<longleftrightarrow> ?or = [] \<or> own ''http://'' \<or> own ''https://'' \<or>
      ok (''http://'' @ ''127.0.0.1'') \<or> ok (''http://'' @ ''localhost'') \<or>
      ok (''https://'' @ ''127.0.0.1'') \<or> ok (''https://'' @ ''localhost'')"
    using own [of "''http://''"] own [of "''https://''"]
    unfolding check_origin_def Let_def own_def ok_def by auto
  also have "\<dots> \<longleftrightarrow> opening_origin (rq_host r) ?or"
  proof -
    have "own s \<longleftrightarrow> (\<exists>rest. ?or = s @ rq_host r @ rest)" for s
      by (simp add: own_def has_prefix_iff)
    moreover have "ok (s @ l) \<longleftrightarrow> (\<exists>rest. ?or = s @ l @ rest \<and> (rest = [] \<or> hd rest = CHR '':''))" for s l
      using same_or_port [of ?or "s @ l"] by (simp add: ok_def)
    ultimately show ?thesis unfolding opening_origin_def bex_simps by blast
  qed
  finally show ?thesis .
qed

lemma api_replies:
  "(p, h) \<in> set api_handlers \<Longrightarrow> with_security_headers (fst (with_auth h ou sv r e)) \<noteq> Upgraded evs"
  by (auto simp: api_handlers_def handle_stats_def handle_flows_def handle_security_def handle_status_def
      handle_ifaces_def handle_control_def handle_sessions_def handle_session_def handle_story_def
      handle_telegram_test_def handle_webhook_test_def handle_packets_def handle_packet_def
      handle_export_json_def with_auth_def with_security_headers_def write_json_def http_error_def Let_def
      split: option.splits bool.splits reply.splits prod.splits if_splits)

lemma only_ws_upgrades:
  assumes "rq_path r \<noteq> ''/ws''"
  shows "fst (serve_http ou r (sv, e)) \<noteq> Upgraded evs \<and> fst (snd (serve_http ou r (sv, e))) = sv"
proof -
  let ?h = "if rq_path r = ''/favicon.png'' then handle_favicon
    else case map_of api_handlers (rq_path r) of Some h \<Rightarrow> with_auth h | None \<Rightarrow> handle_index"
  have "serve_http ou r (sv, e) = (with_security_headers (fst (?h ou sv r e)), sv, snd (?h ou sv r e))"
    using assms by (simp add: serve_http_def Let_def split_beta)
  moreover have "with_security_headers (fst (?h ou sv r e)) \<noteq> Upgraded evs"
    using api_replies [OF map_of_SomeD]
    by (auto simp: handle_favicon_def handle_index_def with_security_headers_def [of "Reply _ _ _"]
        split: option.split)
  ultimately show ?thesis by simp
qed

text \<open>C40: which requests open a WebSocket: exactly those to \<open>/ws\<close> that present the token, if
  authentication is on, pass the other checks of the handshake, and have no origin, a local one with
  any port, or one that starts with \<open>http://HOST\<close> or \<open>https://HOST\<close>, whatever follows: so with
  \<open>--no-auth\<close>, or with the token, a page of any host whose name starts with that of the dashboard
  may. Opening it adds one connection, and every other request leaves the connections alone.\<close>

theorem websocket_opens:
  "(\<exists>evs. fst (serve_http ou r (sv, e)) = Upgraded evs) =
     (rq_path r = ''/ws'' \<and>
      (sv_no_auth sv \<or> sv_token sv = [] \<or>
       presented_token (tab_lower (w_tables (ou_world ou))) r = Some (sv_token sv)) \<and>
      ou_upgrade ou \<and> opening_origin (rq_host r) (rq_header r ''Origin'')) \<and>
   fst (snd (serve_http ou r (sv, e))) =
     (if \<exists>evs. fst (serve_http ou r (sv, e)) = Upgraded evs
      then sv\<lparr>sv_subs := sv_subs sv @ [ou_conn ou]\<rparr> else sv)"
proof (cases "rq_path r = ''/ws''")
  case True
  obtain tok where "presented_token (tab_lower (w_tables (ou_world ou))) r = Some tok"
    using presented_token_total by blast
  moreover define ok where "ok \<longleftrightarrow> sv_no_auth sv \<or> sv_token sv = [] \<or> tok = sv_token sv"
  ultimately have a: "authorize (tab_lower (w_tables (ou_world ou))) sv r = Some ok"
    and t: "sv_no_auth sv \<or> sv_token sv = [] \<or>
      presented_token (tab_lower (w_tables (ou_world ou))) r = Some (sv_token sv) \<longleftrightarrow> ok"
    by (auto simp: authorize_def auth_enabled_def)
  show ?thesis
    unfolding t
    by (cases ok; cases "ou_upgrade ou \<and> opening_origin (rq_host r) (rq_header r ''Origin'')")
      (auto simp: True serve_http_def handle_ws_def a check_origin_iff with_security_headers_def http_error_def)
qed (use only_ws_upgrades in auto)

lemma websocket_opens_witness:
  "fst (snd (serve_http demo_outside (demo_request ''GET'' ''/ws'' []
       \<lparr>rq_header := (\<lambda>_. [])(''Origin'' := ''http://tap.example.evil.test'')\<rparr>)
     (demo_server\<lparr>sv_no_auth := True\<rparr>, new_engine demo_net 0 demo_config))) =
   demo_server\<lparr>sv_no_auth := True, sv_subs := [1, 7]\<rparr>"
proof -
  let ?r = "demo_request ''GET'' ''/ws'' [] \<lparr>rq_header := (\<lambda>_. [])(''Origin'' := ''http://tap.example.evil.test'')\<rparr>"
  have "opening_origin (rq_host ?r) (rq_header ?r ''Origin'')"
    by (simp add: opening_origin_def demo_request_def)
  then show ?thesis
    using websocket_opens [of demo_outside ?r "demo_server\<lparr>sv_no_auth := True\<rparr>" "new_engine demo_net 0 demo_config"]
    by (simp add: demo_request_def demo_outside_def)
qed

lemma filtered_total:
  "ascii q \<Longrightarrow> \<exists>P. filtered_from t q fs out = Some (out @ filter P fs) \<and>
     (\<forall>f \<in> set fs. filter_match t f q = Some (P f))"
proof -
  assume a: "ascii q"
  define P where "P f = the (filter_match t f q)" for f
  have m: "filter_match t f q = Some (P f)" for f
    using match_total [OF a, of t f] by (auto simp: P_def)
  have "filtered_from t q fs out = Some (out @ filter P fs)"
    by (induction fs arbitrary: out) (simp_all add: m)
  with m show ?thesis by blast
qed

text \<open>C39: the packet table answers every ASCII filter with the newest of the frames it matches, at most
  300 of them and as many as were asked for.\<close>

theorem packets_page:
  assumes "ascii (rq_query r ''filter'')"
  shows "\<exists>P n. fst (handle_packets ou sv r e) =
      write_json (C_rows (map slim (drop (length (filter P (e_frames e)) - n) (filter P (e_frames e))))) \<and>
    (\<forall>f \<in> set (e_frames e). filter_match (w_tables (ou_world ou)) f (rq_query r ''filter'') = Some (P f)) \<and>
    n \<le> 300 \<and> (0 < atoi (rq_query r ''limit'') \<longrightarrow> int n = min 300 (atoi (rq_query r ''limit'')))"
proof -
  let ?l = "atoi (rq_query r ''limit'')"
  let ?n = "nat (if 300 < (if ?l \<le> 0 then 200 else ?l) then 300 else if ?l \<le> 0 then 200 else ?l)"
  obtain P where P: "engine_filtered (w_tables (ou_world ou)) (rq_query r ''filter'') e = Some (filter P (e_frames e))"
    "\<forall>f \<in> set (e_frames e). filter_match (w_tables (ou_world ou)) f (rq_query r ''filter'') = Some (P f)"
    using filtered_total [OF assms, of "w_tables (ou_world ou)" "e_frames e" "[]"]
    by (auto simp: engine_filtered_def)
  have "fst (handle_packets ou sv r e) =
      write_json (C_rows (map slim (drop (length (filter P (e_frames e)) - ?n) (filter P (e_frames e)))))"
    by (simp add: handle_packets_def Let_def P(1))
  with P(2) show ?thesis by (intro exI [of _ P] exI [of _ ?n] conjI) auto
qed

lemma packets_page_witness:
  "\<exists>fs. length fs \<le> 300 \<and> fst (handle_packets demo_outside demo_server
     (demo_request ''GET'' ''/api/packets'' ''s3cret'') (new_engine demo_net 0 demo_config)) =
     write_json (C_rows (map slim fs))"
proof -
  have "ascii (rq_query (demo_request ''GET'' ''/api/packets'' ''s3cret'') ''filter'')"
    by (simp add: demo_request_def)
  from packets_page [OF this, of demo_outside demo_server "new_engine demo_net 0 demo_config"]
  show ?thesis by (auto simp: new_engine_def intro: exI [of _ "[]"])
qed

text \<open>A broadcast is written once to every connection that still takes it, and the others are
  dropped.\<close>

theorem broadcast_delivers:
  assumes "server_broadcast enc up ev sv = (sv', out)" "enc ev = Some msg" "distinct (sv_subs sv)"
  shows "sv_subs sv' = filter up (sv_subs sv) \<and> distinct (map fst out) \<and>
    set out = {(c, msg) |c. c \<in> set (sv_subs sv) \<and> up c} \<and> sv_token sv' = sv_token sv"
proof -
  have "filter (\<lambda>c. c \<in> set xs \<longrightarrow> up c) xs = filter up xs" for xs
    by (rule filter_cong) simp_all
  then have "sv' = sv\<lparr>sv_subs := filter up (sv_subs sv)\<rparr>" "out = map (\<lambda>c. (c, msg)) (filter up (sv_subs sv))"
    using assms(1,2) by (auto simp: server_broadcast_def Let_def)
  with assms(3) show ?thesis by (auto simp: comp_def)
qed

lemma broadcast_delivers_witness:
  "set [(1 :: nat, ''m'')] = {(c, ''m'') |c. c \<in> set (sv_subs demo_server) \<and> True}"
  using broadcast_delivers [of "\<lambda>_. Some ''m''" "\<lambda>_. True" "Ev_done 0" demo_server demo_server "[(1, ''m'')]" "''m''"]
  by (simp add: server_broadcast_def)

end
