(* ===== verification/Cli.thy ===== *)
theory Cli
  imports Generator Web "HOL-Library.Sublist"
begin

text \<open>
  \<open>cmd/fluxtap/main.go\<close>: the command line. The flags of each command with their defaults, the
  \<open>flag\<close> package that reads them, \<open>splitPathArgs\<close>, the configuration each command gives the
  engine, the dashboard it starts, and the lines it prints (not those with a floating-point rate).
  \<open>env\<close> is \<open>os.Getenv\<close>. A command that exits with an error gives its message.
\<close>

section \<open>Package flag\<close>

text \<open>A flag is its name and its value, which starts as the default and fixes the type.\<close>

datatype flag_value = V_bool bool | V_string string | V_int int

type_synonym flags = "(string \<times> flag_value) list"

definition parse_bool :: "string \<Rightarrow> bool option" where
  "parse_bool s =
     (if s \<in> {''1'', ''t'', ''T'', ''TRUE'', ''true'', ''True''} then Some True
      else if s \<in> {''0'', ''f'', ''F'', ''FALSE'', ''false'', ''False''} then Some False else None)"

text \<open>\<open>strconv.ParseInt(s, 0, 64)\<close>: \<open>ok\<close> says whether an underscore may stand here, \<open>open\<close> whether
  one was the last character.\<close>

fun underscores_ok :: "bool \<Rightarrow> bool \<Rightarrow> bool \<Rightarrow> string \<Rightarrow> bool" where
  "underscores_ok hexa ok opened [] = (\<not> opened)"
| "underscores_ok hexa ok opened (c # s) =
     (if (case hex_val c of None \<Rightarrow> False | Some d \<Rightarrow> d < 10 \<or> hexa) then underscores_ok hexa True False s
      else if c = CHR ''_'' then ok \<and> underscores_ok hexa False True s
      else \<not> opened \<and> underscores_ok hexa False False s)"

fun digits_in :: "nat \<Rightarrow> string \<Rightarrow> nat \<Rightarrow> nat option" where
  "digits_in base [] v = Some v"
| "digits_in base (c # s) v =
     (if c = CHR ''_'' then digits_in base s v
      else case hex_val c of
        None \<Rightarrow> None
      | Some d \<Rightarrow> if d < base then digits_in base s (v * base + d) else None)"

definition number_base :: "string \<Rightarrow> nat \<times> string" where
  "number_base t =
     (let k = (if 2 \<le> length t then lower_char (t ! 1) else CHR '' '') in
      if \<not> has_prefix t ''0'' then (10, t)
      else if 3 \<le> length t \<and> k = CHR ''b'' then (2, drop 2 t)
      else if 3 \<le> length t \<and> k = CHR ''o'' then (8, drop 2 t)
      else if 3 \<le> length t \<and> k = CHR ''x'' then (16, drop 2 t)
      else (8, drop 1 t))"

definition parse_int :: "string \<Rightarrow> int option" where
  "parse_int s =
     (let neg = has_prefix s ''-''; t = (if neg \<or> has_prefix s ''+'' then drop 1 s else s);
          k = (if 2 \<le> length t then lower_char (t ! 1) else CHR '' '');
          prefixed = (has_prefix t ''0'' \<and> k \<in> {CHR ''b'', CHR ''o'', CHR ''x''});
          (base, u) = number_base t in
      if t = [] then None
      else case digits_in base u 0 of
        None \<Rightarrow> None
      | Some n \<Rightarrow>
          if CHR ''_'' \<in> set u
            \<and> \<not> underscores_ok (prefixed \<and> k = CHR ''x'') prefixed False (if prefixed then drop 2 t else t)
          then None
          else if neg then (if n \<le> 2 ^ 63 then Some (- int n) else None)
          else if n < 2 ^ 63 then Some (int n) else None)"

fun set_flag :: "flag_value \<Rightarrow> string \<Rightarrow> flag_value option" where
  "set_flag (V_bool b) s = map_option V_bool (parse_bool s)"
| "set_flag (V_string t) s = Some (V_string s)"
| "set_flag (V_int i) s = map_option V_int (parse_int s)"

text \<open>The name in an argument that is a flag, and the value behind its equals sign.\<close>

definition flag_parts :: "string \<Rightarrow> string \<times> string option" where
  "flag_parts a =
     (let name = (if has_prefix a ''--'' then drop 2 a else drop 1 a) in
      case find_sub ''='' name of
        None \<Rightarrow> (name, None)
      | Some i \<Rightarrow> (take i name, Some (drop (i + 1) name)))"

text \<open>\<open>FlagSet.Parse\<close>: the flags set, and the arguments left. The texts of the errors are short.\<close>

fun parse_flags :: "flags \<Rightarrow> string list \<Rightarrow> string + flags \<times> string list" where
  "parse_flags fs [] = Inr (fs, [])"
| "parse_flags fs (a # args) =
     (if length a < 2 \<or> \<not> has_prefix a ''-'' then Inr (fs, a # args)
      else if a = ''--'' then Inr (fs, args)
      else
        let (name, val) = flag_parts a in
        if name = [] \<or> has_prefix name ''-'' then Inl ''bad flag syntax''
        else case map_of fs name of
          None \<Rightarrow> Inl (if name = ''help'' \<or> name = ''h'' then ''help requested'' else ''flag not defined'')
        | Some v \<Rightarrow>
            (case (val, v, args) of
               (Some s, _, _) \<Rightarrow>
                 (case set_flag v s of
                    None \<Rightarrow> Inl ''invalid value''
                  | Some v \<Rightarrow> parse_flags (AList.update name v fs) args)
             | (None, V_bool _, _) \<Rightarrow> parse_flags (AList.update name (V_bool True) fs) args
             | (None, _, []) \<Rightarrow> Inl ''flag needs an argument''
             | (None, _, s # rest) \<Rightarrow>
                 (case set_flag v s of
                    None \<Rightarrow> Inl ''invalid value''
                  | Some v \<Rightarrow> parse_flags (AList.update name v fs) rest)))"

definition flag_s :: "flags \<Rightarrow> string \<Rightarrow> string" where
  "flag_s fs name = (case map_of fs name of Some (V_string s) \<Rightarrow> s | _ \<Rightarrow> [])"

definition flag_b :: "flags \<Rightarrow> string \<Rightarrow> bool" where
  "flag_b fs name = (map_of fs name = Some (V_bool True))"

definition flag_i :: "flags \<Rightarrow> string \<Rightarrow> int" where
  "flag_i fs name = (case map_of fs name of Some (V_int i) \<Rightarrow> i | _ \<Rightarrow> 0)"

section \<open>Arguments\<close>

definition value_flags :: "string list" where
  "value_flags = [''filter'', ''limit'', ''json'', ''csv'', ''addr'', ''count'', ''i'', ''bpf'', ''tg-token'',
     ''tg-chat'', ''webhook-url'', ''token'']"

fun split_path_args :: "string list \<Rightarrow> string \<Rightarrow> string list \<Rightarrow> string \<times> string list" where
  "split_path_args [] path flags = (path, flags)"
| "split_path_args (a # args) path flags =
     (if a = ''--'' then (path, flags @ a # args)
      else if has_prefix a ''-'' then
        let flags = flags @ [a]; name = dropWhile (\<lambda>c. c = CHR ''-'') a in
        if find_sub ''='' name \<noteq> None then split_path_args args path flags
        else if name \<in> set value_flags then
          (case args of
             [] \<Rightarrow> (path, flags)
           | v # rest \<Rightarrow>
               if \<not> has_prefix v ''-'' then split_path_args rest path (flags @ [v])
               else split_path_args args path flags)
        else split_path_args args path flags
      else if path = [] then split_path_args args a flags
      else split_path_args args path (flags @ [a]))"

definition arg0 :: "string list \<Rightarrow> string" where
  "arg0 rest = (case rest of [] \<Rightarrow> [] | a # _ \<Rightarrow> a)"

definition normalize_addr :: "string \<Rightarrow> string" where
  "normalize_addr a = (if has_prefix a '':'' then ''127.0.0.1'' @ a else a)"

section \<open>Commands\<close>

definition no_config :: config where
  "no_config = \<lparr>cf_path = [], cf_iface = [], cf_bpf = [], cf_filter = [], cf_max_packets = 0,
     cf_include_hex = False, cf_speed = 0, cf_promisc = False, cf_stdin = False, cf_kernel = False,
     cf_tg_token = [], cf_tg_chat = [], cf_tg_dry = False, cf_webhook_url = [], cf_webhook_dry = False,
     cf_write_path = []\<rparr>"

text \<open>What a dashboard is started with: the engine's configuration, the address, the token and whether
  the token is switched off.\<close>

type_synonym dash = "config \<times> string \<times> string \<times> bool"

definition live_flags :: "(string \<Rightarrow> string) \<Rightarrow> flags" where
  "live_flags env =
     [(''i'', V_string ''eth0''), (''addr'', V_string '':8090''), (''bpf'', V_string []),
      (''filter'', V_string []), (''promisc'', V_bool False), (''stdin'', V_bool False),
      (''kernel'', V_bool True), (''tcpdump'', V_bool False),
      (''tg-token'', V_string (env ''FLUXTAP_TG_TOKEN'')), (''tg-chat'', V_string (env ''FLUXTAP_TG_CHAT'')),
      (''tg-dry'', V_bool False), (''webhook-url'', V_string (env ''FLUXTAP_WEBHOOK_URL'')),
      (''webhook-dry'', V_bool False), (''write'', V_string []), (''token'', V_string (env ''FLUXTAP_TOKEN'')),
      (''no-auth'', V_bool False)]"

definition live_config :: "flags \<Rightarrow> config" where
  "live_config fs =
     (let use_kernel = (flag_b fs ''kernel'' \<and> \<not> flag_b fs ''tcpdump'' \<and> \<not> flag_b fs ''stdin'') in
      if flag_b fs ''stdin'' then
        no_config\<lparr>cf_filter := flag_s fs ''filter'', cf_include_hex := True, cf_stdin := True,
          cf_tg_token := flag_s fs ''tg-token'', cf_tg_chat := flag_s fs ''tg-chat'', cf_tg_dry := flag_b fs ''tg-dry'',
          cf_webhook_url := flag_s fs ''webhook-url'', cf_webhook_dry := flag_b fs ''webhook-dry'',
          cf_write_path := flag_s fs ''write''\<rparr>
      else
        no_config\<lparr>cf_iface := flag_s fs ''i'', cf_bpf := flag_s fs ''bpf'', cf_filter := flag_s fs ''filter'',
          cf_include_hex := True, cf_promisc := flag_b fs ''promisc'', cf_stdin := flag_b fs ''stdin'',
          cf_kernel := use_kernel,
          cf_tg_token := flag_s fs ''tg-token'', cf_tg_chat := flag_s fs ''tg-chat'', cf_tg_dry := flag_b fs ''tg-dry'',
          cf_webhook_url := flag_s fs ''webhook-url'', cf_webhook_dry := flag_b fs ''webhook-dry'',
          cf_write_path := flag_s fs ''write''\<rparr>)"

definition cmd_live :: "(string \<Rightarrow> string) \<Rightarrow> string list \<Rightarrow> string + dash" where
  "cmd_live env args =
     (case parse_flags (live_flags env) args of
        Inl x \<Rightarrow> Inl x
      | Inr (fs, _) \<Rightarrow> Inr (live_config fs, flag_s fs ''addr'', flag_s fs ''token'', flag_b fs ''no-auth''))"

text \<open>Whether the warning that a BPF filter is ignored is printed.\<close>

definition bpf_ignored :: "flags \<Rightarrow> bool" where
  "bpf_ignored fs =
     (flag_b fs ''kernel'' \<and> \<not> flag_b fs ''tcpdump'' \<and> \<not> flag_b fs ''stdin'' \<and> flag_s fs ''bpf'' \<noteq> [])"

definition serve_flags :: "(string \<Rightarrow> string) \<Rightarrow> flags" where
  "serve_flags env =
     [(''addr'', V_string '':8090''), (''filter'', V_string []), (''replay'', V_bool False),
      (''tg-token'', V_string (env ''FLUXTAP_TG_TOKEN'')), (''tg-chat'', V_string (env ''FLUXTAP_TG_CHAT'')),
      (''tg-dry'', V_bool False), (''webhook-url'', V_string (env ''FLUXTAP_WEBHOOK_URL'')),
      (''webhook-dry'', V_bool False), (''token'', V_string (env ''FLUXTAP_TOKEN'')),
      (''no-auth'', V_bool False)]"

definition cmd_serve :: "(string \<Rightarrow> string) \<Rightarrow> string list \<Rightarrow> string + dash" where
  "cmd_serve env args =
     (let (path, rest) = split_path_args args [] [] in
      case parse_flags (serve_flags env) rest of
        Inl x \<Rightarrow> Inl x
      | Inr (fs, left) \<Rightarrow>
          let path = (if path = [] then arg0 left else path) in
          if path = [] then Inl ''serve requires a pcap file (or use: fluxtap live -i eth0)''
          else
            let speed = (if flag_b fs ''replay'' then 2000000 else 0) in
            Inr (no_config\<lparr>cf_path := path, cf_filter := flag_s fs ''filter'', cf_include_hex := True,
                cf_speed := speed, cf_tg_token := flag_s fs ''tg-token'', cf_tg_chat := flag_s fs ''tg-chat'',
                cf_tg_dry := flag_b fs ''tg-dry'', cf_webhook_url := flag_s fs ''webhook-url'',
                cf_webhook_dry := flag_b fs ''webhook-dry''\<rparr>,
              flag_s fs ''addr'', flag_s fs ''token'', flag_b fs ''no-auth''))"

text \<open>\<open>runDashboard\<close> before its goroutines.\<close>

definition run_dashboard ::
  "net \<Rightarrow> bytes option \<Rightarrow> int \<Rightarrow> gotime \<Rightarrow> dash \<Rightarrow> server \<times> engine" where
  "run_dashboard n rnd nano now = (\<lambda>(cfg, addr, token, no_auth).
     new_server rnd nano \<lparr>op_addr = normalize_addr addr, op_token = token, op_no_auth = no_auth\<rparr>
       (new_engine n now cfg))"

definition parse_defaults :: flags where
  "parse_defaults =
     [(''filter'', V_string []), (''limit'', V_int 0), (''json'', V_string []), (''csv'', V_string []),
      (''q'', V_bool False)]"

definition cmd_parse :: "string list \<Rightarrow> string + config \<times> flags" where
  "cmd_parse args =
     (let (path, rest) = split_path_args args [] [] in
      case parse_flags parse_defaults rest of
        Inl x \<Rightarrow> Inl x
      | Inr (fs, left) \<Rightarrow>
          let path = (if path = [] then arg0 left else path) in
          if path = [] then Inl ''parse requires a pcap file''
          else Inr (no_config\<lparr>cf_path := path, cf_filter := flag_s fs ''filter'',
                 cf_max_packets := flag_i fs ''limit'', cf_include_hex := True\<rparr>, fs))"

definition cmd_bench :: "string list \<Rightarrow> string + config" where
  "cmd_bench args =
     (let (path, rest) = split_path_args args [] [] in
      case parse_flags [] rest of
        Inl x \<Rightarrow> Inl x
      | Inr (fs, left) \<Rightarrow>
          let path = (if path = [] then arg0 left else path) in
          if path = [] then Inl ''bench requires a pcap file''
          else Inr (no_config\<lparr>cf_path := path, cf_include_hex := False\<rparr>))"

text \<open>\<open>gen\<close>: the path and the contents of the file.\<close>

definition cmd_gen :: "gotime \<Rightarrow> string list \<Rightarrow> string + string \<times> bytes" where
  "cmd_gen now args =
     (let (path, rest) = split_path_args args [] [] in
      case parse_flags [(''count'', V_int 120)] rest of
        Inl x \<Rightarrow> Inl x
      | Inr (fs, left) \<Rightarrow>
          let out = (if path = [] then arg0 left else path);
              out = (if out = [] then ''demo.pcap'' else out) in
          Inr (out, demo_pcap now (flag_i fs ''count'')))"

datatype command =
    Parse "string list"
  | Serve "string list"
  | Live_capture "string list"
  | Ifaces
  | Gen "string list"
  | Bench "string list"
  | Help
  | Usage
  | Unknown string

text \<open>\<open>main\<close>, given \<open>os.Args[1:]\<close>.\<close>

definition main_command :: "string list \<Rightarrow> command" where
  "main_command args =
     (case args of
        [] \<Rightarrow> Usage
      | a # rest \<Rightarrow>
          if a \<in> {''parse'', ''p''} then Parse rest
          else if a \<in> {''serve'', ''ui'', ''dashboard''} then Serve rest
          else if a \<in> {''live'', ''capture'', ''tap''} then Live_capture rest
          else if a \<in> {''ifaces'', ''interfaces''} then Ifaces
          else if a \<in> {''gen'', ''generate''} then Gen rest
          else if a = ''bench'' then Bench rest
          else if a \<in> {''help'', ''-h'', ''--help''} then Help
          else if has_suffix a ''.pcap'' \<or> has_suffix a ''.pcapng'' then Parse args
          else Unknown a)"

section \<open>What is printed\<close>

text \<open>\<open>%5d\<close> and \<open>%-16s\<close>, which counts characters.\<close>

definition pad_left :: "nat \<Rightarrow> string \<Rightarrow> string" where
  "pad_left n s = replicate (n - length (runes s)) CHR '' '' @ s"

definition pad_right :: "nat \<Rightarrow> string \<Rightarrow> string" where
  "pad_right n s = s @ replicate (n - length (runes s)) CHR '' ''"

text \<open>\<open>trunc\<close>; it is only called with a positive length.\<close>

definition cli_trunc :: "string \<Rightarrow> nat \<Rightarrow> string" where
  "cli_trunc s n = (if length s \<le> n then s else take (n - 1) s @ ellipsis)"

definition frame_brief :: "frame \<Rightarrow> string" where
  "frame_brief f =
     (let sev = (if f_severity f = ''warn'' then ''!''
                 else if f_severity f = ''alert'' then [CHR 0xE2, CHR 0x80, CHR 0xBC] else '' '') in
      sev @ '' '' @ pad_left 5 (dec (unat (f_no f))) @ ''  '' @ pad_right 16 (cli_trunc (f_src f) 16)
      @ '' '' @ arrow @ '' '' @ pad_right 16 (cli_trunc (f_dst f) 16) @ ''  ''
      @ pad_right 7 (f_protocol f) @ ''  '' @ cli_trunc (f_info f) 70 @ newline)"

definition packet_lines :: "frame list \<Rightarrow> string list" where
  "packet_lines frames =
     map frame_brief (if 40 < length frames then take 40 frames else frames)
     @ (if 40 < length frames
        then [''  '' @ ellipsis @ '' '' @ dec (length frames - 40)
                @ '' more packets (use serve UI or --json)'' @ newline]
        else [])"

definition radar_lines :: "finding list \<Rightarrow> string list" where
  "radar_lines fs =
     (if fs \<noteq> [] then
        (newline @ [CHR 0xF0, CHR 0x9F, CHR 0x94, CHR 0x90] @ '' Security radar:'' @ newline)
        # map (\<lambda>f. ''  ['' @ fi_severity f @ ''] '' @ fi_rule f @ '' '' @ em_dash @ '' '' @ fi_message f @ newline)
            (take 8 fs)
      else [])"

text \<open>The lines \<open>live\<close> announces itself with, given the flags, and the interface list.\<close>

definition antenna :: string where
  "antenna = [CHR 0xF0, CHR 0x9F, CHR 0x93, CHR 0xA1]"

definition dry_mode :: "bool \<Rightarrow> string" where
  "dry_mode dry = (if dry then '' (dry-run)'' else [])"

definition announce_live :: "flags \<Rightarrow> string list" where
  "announce_live fs =
     (if flag_b fs ''stdin''
      then [antenna @ '' live capture from stdin PCAP pipe '' @ ellipsis @ newline]
      else if flag_b fs ''kernel'' \<and> \<not> flag_b fs ''tcpdump''
      then [antenna @ '' KERNEL tap (AF_PACKET) on '' @ flag_s fs ''i'' @ '' '' @ ellipsis @ newline]
      else [antenna @ '' tcpdump capture on '' @ flag_s fs ''i'' @ '' '' @ ellipsis @ newline]
        @ (if flag_s fs ''bpf'' \<noteq> [] then [''   bpf: '' @ flag_s fs ''bpf'' @ newline] else []))
     @ (if flag_s fs ''tg-token'' \<noteq> [] \<and> flag_s fs ''tg-chat'' \<noteq> []
        then [[CHR 0xF0, CHR 0x9F, CHR 0x93, CHR 0xAC] @ '' Telegram alerts: enabled''
                @ dry_mode (flag_b fs ''tg-dry'') @ newline] else [])
     @ (if flag_s fs ''webhook-url'' \<noteq> []
        then [[CHR 0xF0, CHR 0x9F, CHR 0xAA, CHR 0x9D] @ '' Webhook alerts: enabled''
                @ dry_mode (flag_b fs ''webhook-dry'') @ newline] else [])"

definition iface_lines :: "string list \<Rightarrow> string list" where
  "iface_lines names = (''Capture interfaces:'' @ newline) # map (\<lambda>n. ''  '' @ n @ newline) names"

section \<open>Where the path may stand\<close>

text \<open>A flag with its value, as an argument list may have it.\<close>

definition flag_group :: "flags \<Rightarrow> string list \<Rightarrow> bool" where
  "flag_group fs g =
     (\<exists>(name, v) \<in> set fs. \<exists>dashes \<in> {''-'', ''--''}.
        (\<exists>s. g = [dashes @ name @ ''='' @ s]) \<or>
        (case v of V_bool _ \<Rightarrow> g = [dashes @ name]
         | _ \<Rightarrow> \<exists>s. g = [dashes @ name, s] \<and> \<not> has_prefix s ''-''))"

definition flags_ok :: "flags \<Rightarrow> bool" where
  "flags_ok fs =
     list_all (\<lambda>(name, v). name \<noteq> [] \<and> hd name \<noteq> CHR ''-'' \<and> CHR ''='' \<notin> set name \<and>
       (name \<in> set value_flags) = (case v of V_bool _ \<Rightarrow> False | _ \<Rightarrow> True)) fs"

lemma commands_ok:
  "flags_ok parse_defaults" "flags_ok (serve_flags env)" "flags_ok [(''count'', V_int 120)]" "flags_ok []"
  by (simp_all add: flags_ok_def parse_defaults_def serve_flags_def value_flags_def)

lemma find_equals: "find_sub ''='' s \<noteq> None \<longleftrightarrow> CHR ''='' \<in> set s"
  by (induction s) (auto simp: has_prefix_def)

lemma drop_dashes:
  assumes "name \<noteq> []" "hd name \<noteq> CHR ''-''" "dashes \<in> {''-'', ''--''}"
  shows "dropWhile (\<lambda>c. c = CHR ''-'') (dashes @ name @ t) = name @ t" "dashes @ name @ t \<noteq> ''--''"
    "has_prefix (dashes @ name @ t) ''-''"
  using assms by (cases name; auto simp: has_prefix_def)+

lemma split_group:
  assumes "flags_ok fs" "flag_group fs g"
  shows "split_path_args (g @ args) path flags = split_path_args args path (flags @ g)"
proof -
  obtain name v dashes where n: "(name, v) \<in> set fs" "dashes \<in> {''-'', ''--''}"
    "(\<exists>s. g = [dashes @ name @ ''='' @ s]) \<or>
      (case v of V_bool _ \<Rightarrow> g = [dashes @ name] | _ \<Rightarrow> \<exists>s. g = [dashes @ name, s] \<and> \<not> has_prefix s ''-'')"
    using assms(2) unfolding flag_group_def by blast
  have ok: "name \<noteq> []" "hd name \<noteq> CHR ''-''" "CHR ''='' \<notin> set name"
    "(name \<in> set value_flags) = (case v of V_bool _ \<Rightarrow> False | _ \<Rightarrow> True)"
    using assms(1) n(1) by (auto simp: flags_ok_def list_all_iff)
  note d = drop_dashes [OF ok(1,2) n(2)]
  note d0 = d [of "[]", simplified]
  from n(3) consider s where "g = [dashes @ name @ ''='' @ s]" | "g = [dashes @ name]" "name \<notin> set value_flags"
    | s where "g = [dashes @ name, s]" "\<not> has_prefix s ''-''" "name \<in> set value_flags"
    using ok(4) by (cases v) auto
  then show ?thesis
  proof cases
    case (1 s)
    then show ?thesis using d [of "''='' @ s"] find_equals [of "name @ ''='' @ s"] by (simp add: Let_def)
  next
    case 2
    then show ?thesis using d0 find_equals [of name] ok(3) by (simp add: Let_def)
  next
    case (3 s)
    then show ?thesis using d0 find_equals [of name] ok(3) by (simp add: Let_def)
  qed
qed

lemma split_groups:
  "flags_ok fs \<Longrightarrow> list_all (flag_group fs) gs \<Longrightarrow>
   split_path_args (concat gs @ args) path flags = split_path_args args path (flags @ concat gs)"
  by (induction gs arbitrary: flags) (simp_all add: split_group)

text \<open>For every command that takes a file, its flags may stand before or behind the path, in any
  of their forms: the path is found, and the flags are left as they were written.\<close>

theorem path_anywhere:
  assumes "fs \<in> {parse_defaults, serve_flags env, [(''count'', V_int 120)], []}"
    and "list_all (flag_group fs) pre" "list_all (flag_group fs) post" "path \<noteq> []" "\<not> has_prefix path ''-''"
  shows "split_path_args (concat pre @ path # concat post) [] [] = (path, concat pre @ concat post)"
proof -
  have ok: "flags_ok fs" using assms(1) commands_ok by auto
  have "path \<noteq> ''--''" using assms(5) by (auto simp: has_prefix_def)
  then show ?thesis
    using split_groups [OF ok assms(2), of "path # concat post" "[]" "[]"]
      split_groups [OF ok assms(3), of "[]" path "concat pre"] assms(4,5)
    by simp
qed

lemma path_anywhere_witness:
  "split_path_args [''--filter'', ''dns'', ''-q'', ''a.pcap'', ''-limit=5''] [] [] =
     (''a.pcap'', [''--filter'', ''dns'', ''-q'', ''-limit=5''])"
proof -
  have "list_all (flag_group parse_defaults) [[''--filter'', ''dns''], [''-q'']]"
    "list_all (flag_group parse_defaults) [[''-limit=5'']]"
    by (auto simp: flag_group_def parse_defaults_def has_prefix_def)
  from path_anywhere [OF _ this, of "\<lambda>_. []" "''a.pcap''"] show ?thesis by (simp add: has_prefix_def)
qed

lemma split_rest:
  "path \<noteq> [] \<Longrightarrow> fst (split_path_args args path flags) = path \<and> prefix flags (snd (split_path_args args path flags))"
proof (induction args arbitrary: flags rule: measure_induct_rule [of length])
  case (less args)
  show ?case
  proof (cases args)
    case (Cons a rest)
    have k: "fst (split_path_args as path (flags @ [a] @ xs)) = path \<and>
        prefix flags (snd (split_path_args as path (flags @ [a] @ xs)))"
      if "length as < length args" for as xs
      using less.IH [OF that less.prems] append_prefixD by blast
    have r: "length rest < length args" by (simp add: Cons)
    show ?thesis
    proof (cases rest)
      case Nil
      then show ?thesis
        using k [OF r, of "[]"] less.prems by (simp add: Cons Let_def)
    next
      case (Cons v more)
      have m: "length more < length args" using r by (simp add: Cons)
      show ?thesis
        using k [OF r, of "[]"] k [OF m, of "[v]"] less.prems
        by (simp only: \<open>args = a # rest\<close> split_path_args.simps(2) Let_def) (simp add: Cons)
    qed
  qed simp
qed

text \<open>A second file name switches off every flag behind it: whatever stands there is ignored, a
  display filter or a packet limit too, and the first file is parsed whole.\<close>

theorem second_path_ignores_flags:
  assumes "p \<noteq> []" "\<not> has_prefix p ''-''" "q \<noteq> []" "\<not> has_prefix q ''-''"
  shows "cmd_parse (p # q # args) =
    Inr (no_config\<lparr>cf_path := p, cf_include_hex := True\<rparr>, parse_defaults)"
proof -
  have "p \<noteq> ''--''" "q \<noteq> ''--''" using assms(2,4) by (auto simp: has_prefix_def)
  then obtain rest where "split_path_args (p # q # args) [] [] = (p, q # rest)"
    using split_rest [OF assms(1), of args "[q]"] assms
    by (cases "split_path_args args p [q]") (auto simp: prefix_def)
  moreover have "flag_s parse_defaults ''filter'' = []" "flag_i parse_defaults ''limit'' = 0"
    by (simp_all add: parse_defaults_def flag_s_def flag_i_def)
  ultimately show ?thesis
    using assms by (simp add: cmd_parse_def no_config_def)
qed

lemma second_path_witness:
  "cmd_parse [''a.pcap'', ''b.pcap'', ''--filter'', ''dns''] =
    Inr (no_config\<lparr>cf_path := ''a.pcap'', cf_include_hex := True\<rparr>, parse_defaults)"
  by (rule second_path_ignores_flags) (simp_all add: has_prefix_def)

section \<open>The dashboard is local and locked by default\<close>

definition bare :: "string \<Rightarrow> string" where
  "bare a = dropWhile (\<lambda>c. c = CHR ''-'') a"

lemma flag_parts_bare:
  assumes "flag_parts a = (name, val)" "has_prefix a ''-''" "name \<noteq> []" "\<not> has_prefix name ''-''"
  shows "has_prefix (bare a) name"
proof -
  define full where "full = (if has_prefix a ''--'' then drop 2 a else drop 1 a)"
  have "name = full \<or> (\<exists>i. name = take i full)"
    using assms(1) by (auto simp: flag_parts_def full_def Let_def split: option.splits)
  then have n: "has_prefix full name" by (auto simp: has_prefix_def min_def)
  then obtain t where t: "full = name @ t" by (auto simp: has_prefix_iff)
  have "hd name \<noteq> CHR ''-''" using assms(3,4) by (cases name) (auto simp: has_prefix_def)
  moreover have "a = ''--'' @ full \<or> a = ''-'' @ full"
    using assms(2) by (auto simp: full_def has_prefix_iff)
  ultimately have "bare a = full"
    using assms(3) t by (cases name) (auto simp: bare_def)
  with n show ?thesis by simp
qed

lemma parse_flags_step:
  assumes "parse_flags fs (a # args) = Inr (fs', left)"
    and "\<not> (length a < 2 \<or> \<not> has_prefix a ''-'' \<or> a = ''--'')" "flag_parts a = (name, val)"
  shows "name \<noteq> [] \<and> \<not> has_prefix name ''-'' \<and>
    (\<exists>x as. parse_flags (AList.update name x fs) as = Inr (fs', left) \<and> suffix as args)"
proof -
  have n: "name \<noteq> []" "\<not> has_prefix name ''-''" using assms by (auto simp: Let_def)
  obtain v where v: "map_of fs name = Some v"
    using assms n by (auto simp: Let_def split: option.splits)
  have "\<exists>x as. parse_flags (AList.update name x fs) as = Inr (fs', left) \<and> suffix as args"
  proof (cases "val = None \<and> (\<forall>b. v \<noteq> V_bool b)")
    case True
    then obtain t rest where args: "args = t # rest"
      using assms n v by (cases args; cases v) (auto simp: Let_def)
    have "suffix rest args" by (simp add: args suffix_ConsI)
    moreover obtain x where "parse_flags (AList.update name x fs) rest = Inr (fs', left)"
      using assms n v True by (cases v) (auto simp: Let_def args split: option.splits)
    ultimately show ?thesis by blast
  next
    case False
    then obtain x where "parse_flags (AList.update name x fs) args = Inr (fs', left)"
      using assms n v by (cases val; cases v) (auto simp: Let_def split: option.splits)
    then show ?thesis by blast
  qed
  with n show ?thesis by simp
qed

lemma parse_flags_keeps:
  "parse_flags fs args = Inr (fs', left) \<Longrightarrow> \<forall>a \<in> set args. \<not> has_prefix (bare a) name \<Longrightarrow>
   map_of fs' name = map_of fs name"
proof (induction args arbitrary: fs rule: measure_induct_rule [of length])
  case (less args)
  show ?case
  proof (cases args)
    case (Cons a rest)
    show ?thesis
    proof (cases "length a < 2 \<or> \<not> has_prefix a ''-'' \<or> a = ''--''")
      case True
      with less.prems show ?thesis by (auto simp: Cons split: if_splits)
    next
      case False
      obtain nm val where p: "flag_parts a = (nm, val)" by fastforce
      from parse_flags_step [OF less.prems(1) [unfolded Cons] False p] obtain x as where
        n: "nm \<noteq> []" "\<not> has_prefix nm ''-''"
        and r: "parse_flags (AList.update nm x fs) as = Inr (fs', left)" "suffix as rest" by blast
      have "nm \<noteq> name" using flag_parts_bare [OF p _ n] False less.prems(2) by (auto simp: Cons)
      moreover have "length as < length args" "set as \<subseteq> set args"
        using suffix_length_le [OF r(2)] set_mono_suffix [OF r(2)] by (auto simp: Cons)
      with less.IH [OF _ r(1)] less.prems(2) have "map_of fs' name = map_of (AList.update nm x fs) name"
        by blast
      ultimately show ?thesis by (simp add: update_conv')
    qed
  qed (use less.prems in simp)
qed

lemma split_subset:
  "set (snd (split_path_args args path flags)) \<subseteq> set args \<union> set flags"
proof (induction args arbitrary: path flags rule: measure_induct_rule [of length])
  case (less args)
  show ?case
  proof (cases args)
    case (Cons a rest)
    have k: "set (snd (split_path_args as q (flags @ xs))) \<subseteq> set args \<union> set flags"
      if "length as < length args" "set as \<subseteq> set args" "set xs \<subseteq> set args" for as xs q
      using less.IH [OF that(1), of q "flags @ xs"] that(2,3) by auto
    have r: "length rest < length args" "set rest \<subseteq> set args" by (auto simp: Cons)
    show ?thesis
    proof (cases rest)
      case Nil
      then show ?thesis
        using k [OF r, of "[a]"] k [OF r, of "[]"] by (auto simp: Cons Let_def)
    next
      case (Cons v more)
      have m: "length more < length args" "set more \<subseteq> set args" "{a, v} \<subseteq> set args"
        using r by (auto simp: Cons \<open>args = a # rest\<close>)
      show ?thesis
        using k [OF r, of "[a]"] k [OF r, of "[]"] k [OF m(1,2), of "[a, v]"] m(3)
        by (simp only: \<open>args = a # rest\<close> split_path_args.simps(2) Let_def)
          (auto simp: Cons simp del: split_path_args.simps)
    qed
  qed simp
qed

text \<open>C37: a dashboard that is started without a word about its address or its token listens on the
  loopback interface only and asks for a token.\<close>

theorem local_by_default:
  assumes "cmd_live env args = Inr d \<or> cmd_serve env args = Inr d" "rnd \<noteq> Some []"
    and "\<forall>a \<in> set args. \<not> has_prefix (bare a) ''addr'' \<and> \<not> has_prefix (bare a) ''no-auth''"
  shows "sv_addr (fst (run_dashboard n rnd nano now d)) = ''127.0.0.1:8090'' \<and>
    auth_enabled (fst (run_dashboard n rnd nano now d)) \<and> e_hub (snd (run_dashboard n rnd nano now d))"
proof -
  have f: "flag_s fs' ''addr'' = flag_s fs ''addr'' \<and> flag_b fs' ''no-auth'' = flag_b fs ''no-auth''"
    if "parse_flags fs as = Inr (fs', left)" "set as \<subseteq> set args" for fs fs' as left
  proof -
    have "\<forall>a \<in> set as. \<not> has_prefix (bare a) ''addr''" "\<forall>a \<in> set as. \<not> has_prefix (bare a) ''no-auth''"
      using that(2) assms(3) by blast+
    from this [THEN parse_flags_keeps [OF that(1)]] show ?thesis by (simp add: flag_s_def flag_b_def)
  qed
  have "fst (snd d) = '':8090'' \<and> \<not> snd (snd (snd d))"
    using assms(1)
  proof
    assume "cmd_live env args = Inr d"
    then obtain fs left where fs: "parse_flags (live_flags env) args = Inr (fs, left)"
      "d = (live_config fs, flag_s fs ''addr'', flag_s fs ''token'', flag_b fs ''no-auth'')"
      by (auto simp: cmd_live_def split: sum.splits)
    with f [OF fs(1)] show ?thesis by (simp add: live_flags_def flag_s_def flag_b_def)
  next
    assume s: "cmd_serve env args = Inr d"
    obtain path rest where sp: "split_path_args args [] [] = (path, rest)" by fastforce
    from s obtain fs left where fs: "parse_flags (serve_flags env) rest = Inr (fs, left)"
      "fst (snd d) = flag_s fs ''addr''" "snd (snd (snd d)) = flag_b fs ''no-auth''"
      by (auto simp: cmd_serve_def sp Let_def split: sum.splits if_splits)
    have "set rest \<subseteq> set args" using split_subset [of args "[]" "[]"] by (simp add: sp)
    from f [OF fs(1) this] fs(2,3) show ?thesis by (simp add: serve_flags_def flag_s_def flag_b_def)
  qed
  then obtain cfg tok where d: "d = (cfg, '':8090'', tok, False)" by (cases d) auto
  show ?thesis
    using auth_by_default [of "\<lparr>op_addr = ''127.0.0.1:8090'', op_token = tok, op_no_auth = False\<rparr>" rnd] assms(2)
    by (simp add: d run_dashboard_def normalize_addr_def has_prefix_def)
      (simp add: new_server_def Let_def)
qed

lemma local_by_default_witness:
  "\<exists>d. cmd_serve (\<lambda>_. []) [''a.pcap'', ''--replay''] = Inr d \<and>
     auth_enabled (fst (run_dashboard demo_net None 0 0 d))"
proof -
  let ?a = "[''a.pcap'', ''--replay'']"
  obtain d where d: "cmd_serve (\<lambda>_. []) ?a = Inr d"
    by (simp add: cmd_serve_def has_prefix_def value_flags_def serve_flags_def flag_parts_def Let_def)
  have "\<forall>a \<in> set ?a. \<not> has_prefix (bare a) ''addr'' \<and> \<not> has_prefix (bare a) ''no-auth''"
    by (simp add: bare_def has_prefix_def)
  from local_by_default [OF disjI2 [OF d] _ this, of None demo_net 0 0] d show ?thesis by blast
qed

end
