(* ===== verification/Service.thy ===== *)
theory Service
  imports Cli
begin

text \<open>
  The running program: the capture loop, the other goroutines, and the dashboard's clients, with
  their HTTP requests, WebSocket messages and closed connections, in any order. A run is labelled
  with its events. The lemmas: requests keep the invariant of the engine, whoever sends them; a
  run is the same without the requests that lack the token. A handler is one step: what it reads
  it reads under the locks of the component it asks, and it changes nothing but the flags of
  \<open>Pause\<close>, \<open>Resume\<close> and \<open>Stop\<close> and what is sent.
\<close>

section \<open>Steps\<close>

datatype happening =
    Loop
  | Act act
  | Request outside request
  | Message nat outside string
  | Closed nat
  | Sent "nat \<Rightarrow> bool" emit

record 'r service =
  sc_server :: server
  sc_sys :: "'r sys"

inductive service_step ::
  "world \<Rightarrow> ('r \<Rightarrow> packet rd_result \<times> 'r) \<Rightarrow> happening \<Rightarrow> 'r service \<Rightarrow> 'r service \<Rightarrow> bool"
  for w :: world and next_pkt :: "'r \<Rightarrow> packet rd_result \<times> 'r"
where
  loop: "loop_step w next_pkt (sc_sys s) y \<Longrightarrow> service_step w next_pkt Loop s (s\<lparr>sc_sys := y\<rparr>)"
| act: "env_step a (sc_sys s) y \<Longrightarrow> service_step w next_pkt (Act a) s (s\<lparr>sc_sys := y\<rparr>)"
| request: "y_loc (sc_sys s) \<noteq> Dead \<Longrightarrow>
    serve_http ou r (sc_server s, y_eng (sc_sys s)) = (rp, sv, e) \<Longrightarrow>
    service_step w next_pkt (Request ou r) s (s\<lparr>sc_server := sv, sc_sys := (sc_sys s)\<lparr>y_eng := e\<rparr>\<rparr>)"
| message: "y_loc (sc_sys s) \<noteq> Dead \<Longrightarrow> c \<in> set (sv_subs (sc_server s)) \<Longrightarrow>
    service_step w next_pkt (Message c ou d) s
      (s\<lparr>sc_sys := (sc_sys s)\<lparr>y_eng := ws_message ou d (y_eng (sc_sys s))\<rparr>\<rparr>)"
| closed: "service_step w next_pkt (Closed c) s (s\<lparr>sc_server := ws_end c (sc_server s)\<rparr>)"
| sent: "ev \<in> set (e_out (y_eng (sc_sys s))) \<Longrightarrow>
    service_step w next_pkt (Sent up ev) s
      (s\<lparr>sc_server := fst (server_broadcast (\<lambda>_. Some []) up ev (sc_server s))\<rparr>)"

inductive service_run ::
  "world \<Rightarrow> ('r \<Rightarrow> packet rd_result \<times> 'r) \<Rightarrow> happening list \<Rightarrow> 'r service \<Rightarrow> 'r service \<Rightarrow> bool"
  for w :: world and next_pkt :: "'r \<Rightarrow> packet rd_result \<times> 'r"
where
  none: "service_run w next_pkt [] s s"
| more: "service_step w next_pkt ev s s1 \<Longrightarrow> service_run w next_pkt evs s1 s2 \<Longrightarrow>
    service_run w next_pkt (ev # evs) s s2"

inductive_cases service_stepE: "service_step w next_pkt ev s s'"
inductive_cases service_noneE: "service_run w next_pkt [] s s'"
inductive_cases service_moreE: "service_run w next_pkt (ev # evs) s s'"

section \<open>Requests keep the invariant\<close>

lemma out_ok: "sent_rows xs = [] \<Longrightarrow> engine_ok n (e\<lparr>e_out := e_out e @ xs\<rparr>) = engine_ok n e"
  by (simp add: engine_ok_def tables_ok_def frames_ok_def rows_ok_def)

lemma control_ok: "engine_ok n e \<Longrightarrow> engine_ok n (engine_pause e)" "engine_ok n e \<Longrightarrow> engine_ok n (engine_resume e)"
  "engine_ok n e \<Longrightarrow> engine_ok n (engine_stop e)"
  using act_ok [of n e Pause] act_ok [of n e Resume] act_ok [of n e Stop] by simp_all

text \<open>What a client may change of the engine.\<close>

definition client_safe :: "engine \<Rightarrow> engine \<Rightarrow> bool" where
  "client_safe e e' = ((\<forall>n. engine_ok n e \<longrightarrow> engine_ok n e') \<and> e_cfg e' = e_cfg e \<and> e_hub e' = e_hub e)"

lemma client_safe_refl [simp]: "client_safe e e"
  by (simp add: client_safe_def)

lemma client_safe_control:
  "client_safe e (engine_pause e)" "client_safe e (engine_resume e)" "client_safe e (engine_stop e)"
  using act_cfg [of Pause e] act_cfg [of Resume e] act_cfg [of Stop e]
  by (simp_all add: client_safe_def control_ok)

lemma client_safe_out: "sent_rows xs = [] \<Longrightarrow> client_safe e (e\<lparr>e_out := e_out e @ xs\<rparr>)"
  by (simp add: client_safe_def out_ok)

lemma control_safe: "client_safe e (snd (handle_control ou sv r e))"
  by (simp add: handle_control_def Let_def client_safe_control)

lemma telegram_test_safe: "client_safe e (snd (handle_telegram_test ou sv r e))"
  by (simp add: handle_telegram_test_def split_beta Let_def client_safe_out split: option.split)

lemma webhook_test_safe: "client_safe e (snd (handle_webhook_test ou sv r e))"
  by (simp add: handle_webhook_test_def split_beta Let_def client_safe_out split: option.split)

lemma handlers_safe: "(p, h) \<in> set api_handlers \<Longrightarrow> client_safe e (snd (h ou sv r e))"
  using control_safe telegram_test_safe webhook_test_safe
  by (auto simp: api_handlers_def handle_stats_def handle_flows_def handle_security_def handle_status_def
      handle_ifaces_def handle_sessions_def handle_session_def handle_story_def handle_packets_def
      handle_packet_def handle_export_json_def Let_def split: option.splits)

lemma serve_safe:
  assumes "serve_http ou r (sv, e) = (rp, sv', e')"
  shows "client_safe e e' \<and> sv_token sv' = sv_token sv \<and> sv_no_auth sv' = sv_no_auth sv"
proof -
  have a: "client_safe e (snd (with_auth h ou sv r e))" if "(p, h) \<in> set api_handlers" for p h
    using handlers_safe [OF that] by (auto simp: with_auth_def split: option.split bool.split)
  have "client_safe e (snd (snd (serve_http ou r (sv, e))))"
    using a [OF map_of_SomeD]
    by (auto simp: serve_http_def Let_def case_prod_beta' split: option.split)
  moreover have "sv_token (fst (snd (serve_http ou r (sv, e)))) = sv_token sv"
    "sv_no_auth (fst (snd (serve_http ou r (sv, e)))) = sv_no_auth sv"
    by (auto simp: serve_http_def handle_ws_def Let_def case_prod_beta' split: option.split bool.split)
  ultimately show ?thesis by (simp add: assms)
qed

lemma message_safe: "client_safe e (ws_message ou d e)"
  by (auto simp: ws_message_def client_safe_control split: option.split)

lemma sys_ok_client:
  assumes "sys_ok s" "client_safe (y_eng s) e"
  shows "sys_ok (s\<lparr>y_eng := e\<rparr>)"
  using assms by (auto simp: sys_ok_def client_safe_def Let_def)

text \<open>The invariant of a run: that of the capture, the configuration, and the credentials.\<close>

lemma service_step_ok:
  assumes "service_step w next_pkt ev s s'" "sys_ok (sc_sys s)"
  shows "sys_ok (sc_sys s') \<and> e_cfg (y_eng (sc_sys s')) = e_cfg (y_eng (sc_sys s)) \<and>
    e_hub (y_eng (sc_sys s')) = e_hub (y_eng (sc_sys s)) \<and>
    sv_token (sc_server s') = sv_token (sc_server s) \<and> sv_no_auth (sc_server s') = sv_no_auth (sc_server s)"
  using assms(1)
proof cases
  case (loop y)
  with loop_step_ok [OF loop(3) assms(2)] loop_step_cfg [OF loop(3) assms(2)] show ?thesis by simp
next
  case (act a y)
  have "e_cfg (y_eng y) = e_cfg (y_eng (sc_sys s)) \<and> e_hub (y_eng y) = e_hub (y_eng (sc_sys s))"
    using act(3) by (elim env_stepE) (simp add: act_cfg)
  with act env_step_ok [OF act(3) assms(2)] show ?thesis by simp
next
  case (request ou r rp sv e)
  from serve_safe [OF request(4)] sys_ok_client [OF assms(2)] request(2) show ?thesis
    by (simp add: client_safe_def)
next
  case (message c ou d)
  from message_safe [of "y_eng (sc_sys s)" ou d] sys_ok_client [OF assms(2)] message(2) show ?thesis
    by (simp add: client_safe_def)
next
  case (closed c)
  then show ?thesis using assms(2) by (simp add: ws_end_def)
next
  case (sent e up)
  then show ?thesis using assms(2) by (simp add: server_broadcast_def Let_def)
qed

lemma service_run_ok:
  assumes "service_run w next_pkt evs s s'" "sys_ok (sc_sys s)"
  shows "sys_ok (sc_sys s') \<and> e_cfg (y_eng (sc_sys s')) = e_cfg (y_eng (sc_sys s)) \<and>
    e_hub (y_eng (sc_sys s')) = e_hub (y_eng (sc_sys s)) \<and>
    sv_token (sc_server s') = sv_token (sc_server s) \<and> sv_no_auth (sc_server s') = sv_no_auth (sc_server s)"
  using assms by (induction rule: service_run.induct) (auto dest: service_step_ok)

section \<open>Properties\<close>

definition service_start :: "server \<times> engine \<Rightarrow> 'r \<Rightarrow> 'r service" where
  "service_start = (\<lambda>(sv, e) src. \<lparr>sc_server = sv, sc_sys = start_sys src e\<rparr>)"

lemma dashboard_start:
  fixes n :: net and rnd :: "bytes option" and nano :: int and now :: gotime and d :: dash and src :: 'r
  defines "s \<equiv> service_start (run_dashboard n rnd nano now d) src"
  shows "sys_ok (sc_sys s)" "sv_subs (sc_server s) = []" "y_eng (sc_sys s) = set_hub (new_engine n now (fst d))"
    "y_loc (sc_sys s) = Top"
proof -
  have e: "snd (run_dashboard n rnd nano now d) = set_hub (new_engine n now (fst d))"
    by (simp add: run_dashboard_def new_server_def Let_def split_beta)
  show "sys_ok (sc_sys s)" using new_engine_ok(2) [of n now "fst d"]
    by (simp add: s_def service_start_def split_beta e start_ok)
  show "sv_subs (sc_server s) = []"
    by (simp add: s_def service_start_def run_dashboard_def new_server_def Let_def split_beta)
  show "y_eng (sc_sys s) = set_hub (new_engine n now (fst d))" "y_loc (sc_sys s) = Top"
    by (simp_all add: s_def service_start_def start_sys_def split_beta e)
qed

text \<open>For the witnesses: a dashboard with a token that somebody guesses, then the capture goes on.\<close>

abbreviation demo_dash :: dash where
  "demo_dash \<equiv> (demo_config, '':8090'', ''s3cret'', False)"

abbreviation demo_guess :: happening where
  "demo_guess \<equiv> Request demo_outside (demo_request ''POST'' ''/api/control'' ''guess'')"

lemma demo_token:
  "auth_enabled (fst (run_dashboard demo_net None 0 0 demo_dash))"
  "sv_token (fst (run_dashboard demo_net None 0 0 demo_dash)) = ''s3cret''"
proof -
  have t: "trim_space ''s3cret'' = ''s3cret''" by code_simp
  show "auth_enabled (fst (run_dashboard demo_net None 0 0 demo_dash))"
    "sv_token (fst (run_dashboard demo_net None 0 0 demo_dash)) = ''s3cret''"
    by (simp_all add: run_dashboard_def new_server_def auth_enabled_def t Let_def)
qed

lemma demo_service:
  "\<exists>s. service_run demo_world (one_packet [2, 0, 0, 0]) [demo_guess, Loop]
     (service_start (run_dashboard demo_net None 0 0 demo_dash) True) s"
proof -
  let ?s = "service_start (run_dashboard demo_net None 0 0 demo_dash) True"
  let ?e = "y_eng (sc_sys ?s)"
  note st = dashboard_start [where n = demo_net and rnd = None and nano = 0 and now = 0 and d = demo_dash
      and src = True]
  have sv: "sc_server ?s = fst (run_dashboard demo_net None 0 0 demo_dash)"
    by (simp add: service_start_def split_beta)
  have "presented_token (tab_lower (w_tables (ou_world demo_outside)))
      (demo_request ''POST'' ''/api/control'' ''guess'') \<noteq> Some (sv_token (sc_server ?s))"
    by (simp add: sv demo_token presented_token_def demo_request_def)
  from serve_unauthorized [OF _ this, of ?e] obtain rp where
    rp: "serve_http demo_outside (demo_request ''POST'' ''/api/control'' ''guess'') (sc_server ?s, ?e) =
      (rp, sc_server ?s, ?e)"
    by (auto simp: sv demo_token)
  have "service_step demo_world (one_packet [2, 0, 0, 0]) demo_guess ?s ?s"
    using service_step.request [OF _ rp] st(4) by simp
  moreover have "loop_step demo_world (one_packet [2, 0, 0, 0]) (sc_sys ?s) ((sc_sys ?s)\<lparr>y_loc := Waiting\<rparr>)"
    using st(3,4) by (intro top_go) (simp_all add: set_hub_def new_engine_def)
  ultimately show ?thesis
    using service_run.more [OF _ service_run.more [OF service_step.loop service_run.none]] by blast
qed

text \<open>C1: However long a dashboard runs, whatever packets come and whatever its clients send, with any
  token, in any order with the other goroutines, the engine holds at most 50000 frames, 10000
  conversations, 3000 sessions, 500 findings, 36 rows for the dashboard and 2000 keys of the
  webhook, and takes no more packets than its limit.\<close>

theorem service_bounded:
  assumes "service_run w next_pkt evs (service_start (run_dashboard n rnd nano now d) src) s"
  defines "e \<equiv> y_eng (sc_sys s)"
  shows "length (e_frames e) \<le> 50000 \<and> length (t_flows (e_flows e)) \<le> 10000 \<and>
    length (p_by_key (e_sessions e)) \<le> 3000 \<and> length (analyzer_findings (e_security e)) \<le> 500 \<and>
    length (e_pending e) \<le> 36 \<and> length (wh_seen (e_webhook e)) \<le> 2000 \<and>
    (0 < cf_max_packets (fst d) \<longrightarrow> y_matched (sc_sys s) \<le> cf_max_packets (fst d))"
proof -
  note st = dashboard_start [where n = n and rnd = rnd and nano = nano and now = now and d = d and src = src]
  have "sys_ok (sc_sys s)" "e_cfg e = fst d"
    using service_run_ok [OF assms(1) st(1)] by (simp_all add: e_def st(3) set_hub_def new_engine_def)
  then show ?thesis
    by (auto simp: sys_ok_def Let_def engine_ok_def tables_ok_def frames_ok_def rows_ok_def e_def
        conv.inv_def sess.inv_def fifo_inv_def max_pending_def analyzer_findings_def)
qed

lemma service_bounded_witness:
  "\<exists>s :: bool service. service_run demo_world (one_packet [2, 0, 0, 0]) [demo_guess, Loop]
     (service_start (run_dashboard demo_net None 0 0 demo_dash) True) s \<and> y_matched (sc_sys s) \<le> 1"
proof -
  from demo_service obtain s where s: "service_run demo_world (one_packet [2, 0, 0, 0]) [demo_guess, Loop]
     (service_start (run_dashboard demo_net None 0 0 demo_dash) True) s" by (elim exE)
  from service_bounded [OF s] s show ?thesis by (intro exI [of _ s] conjI) (simp_all add: demo_config_def)
qed

text \<open>Events that a stranger or the program itself may cause: requests without the token, and no
  goroutine that pauses, resumes or stops.\<close>

fun undisturbing :: "string \<Rightarrow> happening \<Rightarrow> bool" where
  "undisturbing tok (Request ou r) = (presented_token (tab_lower (w_tables (ou_world ou))) r \<noteq> Some tok)"
| "undisturbing tok (Act a) = (a \<notin> {Pause, Resume, Stop})"
| "undisturbing tok _ = True"

lemma act_control: "a \<notin> {Pause, Resume, Stop} \<Longrightarrow> control (act_of a e) = control e"
  by (cases a) (simp_all add: control_def flush_ws_def tell_telegram_def tell_webhook_def Let_def)

lemma undisturbed_step:
  assumes "service_step w next_pkt ev s s'" "undisturbing (sv_token (sc_server s)) ev"
    and "sys_ok (sc_sys s)" "auth_enabled (sc_server s)" "sv_subs (sc_server s) = []"
  shows "control (y_eng (sc_sys s')) = control (y_eng (sc_sys s)) \<and> sc_server s' = sc_server s"
  using assms(1)
proof cases
  case (loop y)
  with loop_step_ok [OF loop(3) assms(3)] show ?thesis by simp
next
  case (act a y)
  with assms(2) show ?thesis by (auto elim!: env_stepE simp: act_control)
next
  case (request ou r rp sv e)
  from serve_unauthorized [OF assms(4), of ou r "y_eng (sc_sys s)"] assms(2) request show ?thesis by auto
next
  case (closed c)
  then show ?thesis using assms(5) by (simp add: ws_end_def)
next
  case (sent e up)
  then show ?thesis using assms(5) by (simp add: server_broadcast_def Let_def)
qed (use assms(5) in simp)

lemma undisturbed_run:
  assumes "service_run w next_pkt evs s s'" "\<forall>ev \<in> set evs. undisturbing (sv_token (sc_server s)) ev"
    and "sys_ok (sc_sys s)" "auth_enabled (sc_server s)" "sv_subs (sc_server s) = []"
  shows "control (y_eng (sc_sys s')) = control (y_eng (sc_sys s)) \<and> sc_server s' = sc_server s"
  using assms
proof (induction rule: service_run.induct)
  case (more ev s s1 evs s2)
  from undisturbed_step [OF more.hyps(1)] service_step_ok [OF more.hyps(1)] more.prems more.IH
  show ?case by simp
qed simp

text \<open>C7: As long as nobody who has the token acts, nothing that clients send in any order with the
  capture pauses or stops it, no connection is opened, and the credentials stay what they were.\<close>

theorem service_undisturbed:
  assumes "service_run w next_pkt evs (service_start (run_dashboard n rnd nano now d) src) s"
    and "auth_enabled (fst (run_dashboard n rnd nano now d))"
    and "\<forall>ev \<in> set evs. undisturbing (sv_token (fst (run_dashboard n rnd nano now d))) ev"
  shows "\<not> e_stop (y_eng (sc_sys s)) \<and> \<not> e_paused (y_eng (sc_sys s)) \<and>
    sc_server s = fst (run_dashboard n rnd nano now d) \<and> sv_subs (sc_server s) = []"
proof -
  let ?s = "service_start (run_dashboard n rnd nano now d) src"
  note st = dashboard_start [where n = n and rnd = rnd and nano = nano and now = now and d = d and src = src]
  have sv: "sc_server ?s = fst (run_dashboard n rnd nano now d)" by (simp add: service_start_def split_beta)
  have "control (y_eng (sc_sys s)) = control (y_eng (sc_sys ?s)) \<and> sc_server s = sc_server ?s"
    using assms(2,3) st(1,2) by (intro undisturbed_run [OF assms(1)]) (simp_all add: sv)
  moreover have "\<not> e_stop (y_eng (sc_sys ?s)) \<and> \<not> e_paused (y_eng (sc_sys ?s))"
    by (simp add: st(3) set_hub_def new_engine_def)
  ultimately show ?thesis using st(2) by (simp add: control_parts sv)
qed

lemma service_undisturbed_witness:
  "\<exists>s :: bool service. service_run demo_world (one_packet [2, 0, 0, 0]) [demo_guess, Loop]
     (service_start (run_dashboard demo_net None 0 0 demo_dash) True) s \<and> \<not> e_stop (y_eng (sc_sys s))"
proof -
  from demo_service obtain s where s: "service_run demo_world (one_packet [2, 0, 0, 0]) [demo_guess, Loop]
     (service_start (run_dashboard demo_net None 0 0 demo_dash) True) s" by (elim exE)
  have "\<forall>ev \<in> set [demo_guess, Loop].
      undisturbing (sv_token (fst (run_dashboard demo_net None 0 0 demo_dash))) ev"
    by (simp add: demo_token presented_token_def demo_request_def)
  from service_undisturbed [OF s demo_token(1) this] s show ?thesis by (intro exI [of _ s] conjI) simp_all
qed

end
