(* ===== verification/Csv.thy ===== *)
theory Csv
  imports Engine
begin

text \<open>
  The CSV export of \<open>internal/engine/engine.go\<close> against a reader of RFC 4180, the specification of
  what the file says: a record is fields between commas up to a line feed, a field is text without
  commas, quotes and line ends, or quoted text in which a quote is doubled. The lemmas: what is
  written for a field, a record, a file is read back, whatever bytes the packets put there.
\<close>

section \<open>The reader\<close>

abbreviation quote :: char where "quote \<equiv> CHR 0x22"

definition csv_plain_char :: "char \<Rightarrow> bool" where
  "csv_plain_char c = (c \<notin> {CHR '','', CHR 0x22, CHR 0x0D, CHR 0x0A})"

fun read_quoted :: "string \<Rightarrow> string \<Rightarrow> (string \<times> string) option" where
  "read_quoted acc [] = None"
| "read_quoted acc (c # s) =
     (if c \<noteq> quote then read_quoted (acc @ [c]) s
      else case s of
        [] \<Rightarrow> Some (acc, [])
      | d # s' \<Rightarrow> if d = quote then read_quoted (acc @ [d]) s' else Some (acc, s))"

definition read_field :: "string \<Rightarrow> (string \<times> string) option" where
  "read_field s =
     (case s of
        [] \<Rightarrow> Some ([], [])
      | c # s' \<Rightarrow>
          if c = quote then read_quoted [] s'
          else Some (takeWhile csv_plain_char s, dropWhile csv_plain_char s))"

text \<open>A record needs at least one byte per field: the number of bytes bounds the fields.\<close>

fun read_record :: "nat \<Rightarrow> string \<Rightarrow> (string list \<times> string) option" where
  "read_record 0 s = None"
| "read_record (Suc k) s =
     (case read_field s of
        Some (f, c # s) \<Rightarrow>
          if c = CHR '','' then
            (case read_record k s of Some (fs, s) \<Rightarrow> Some (f # fs, s) | None \<Rightarrow> None)
          else if c = CHR 0x0A then Some ([f], s) else None
      | _ \<Rightarrow> None)"

fun read_records :: "nat \<Rightarrow> string \<Rightarrow> string list list option" where
  "read_records k [] = Some []"
| "read_records 0 s = None"
| "read_records (Suc k) s =
     (case read_record (length s) s of
        Some (r, s) \<Rightarrow> (case read_records k s of Some rs \<Rightarrow> Some (r # rs) | None \<Rightarrow> None)
      | None \<Rightarrow> None)"

definition read_csv :: "string \<Rightarrow> string list list option" where
  "read_csv s = read_records (length s) s"

section \<open>What is written is read\<close>

lemma read_quoted_doubled:
  assumes "s = [] \<or> hd s \<noteq> quote"
  shows "read_quoted acc (concat (map (\<lambda>c. if c = quote then [c, c] else [c]) f) @ quote # s) = Some (acc @ f, s)"
  using assms by (induction f arbitrary: acc) (auto split: list.split)

lemma read_field_written:
  assumes "s \<noteq> []" "hd s \<in> {CHR '','', CHR 0x0A}"
  shows "read_field (csv_field f @ s) = Some (f, s)"
proof (cases "csv_needs_quotes f")
  case True
  have "hd s \<noteq> quote" using assms(2) by auto
  with True read_quoted_doubled [of s "[]" f] show ?thesis by (simp add: csv_field_def read_field_def)
next
  case False
  then have p: "\<forall>c \<in> set f. csv_plain_char c"
    by (auto simp: csv_needs_quotes_def csv_plain_char_def list_ex_iff split: if_splits)
  obtain c s' where s: "s = c # s'" "\<not> csv_plain_char c" "c \<noteq> quote"
    using assms by (cases s) (auto simp: csv_plain_char_def)
  have "f = [] \<or> hd f \<noteq> quote" using p by (cases f) (auto simp: csv_plain_char_def)
  with p s False show ?thesis
    by (cases f) (simp_all add: csv_field_def read_field_def csv_plain_char_def)
qed

lemma read_record_written:
  assumes "fs \<noteq> []" "length fs \<le> k"
  shows "read_record k (csv_record fs @ s) = Some (fs, s)"
  using assms
proof (induction fs arbitrary: k)
  case (Cons f fs)
  then obtain k' where k: "k = Suc k'" by (cases k) simp_all
  show ?case
  proof (cases "fs = []")
    case True
    then show ?thesis
      using read_field_written [of "CHR 0x0A # s" f] by (simp add: k csv_record_def newline_def)
  next
    case False
    then have j: "csv_record (f # fs) @ s = csv_field f @ CHR '','' # csv_record fs @ s"
      by (cases fs) (simp_all add: csv_record_def)
    with False Cons read_field_written [of "CHR '','' # csv_record fs @ s" f] show ?thesis
      by (simp add: k)
  qed
qed simp

lemma csv_record_length: "fs \<noteq> [] \<Longrightarrow> length fs \<le> length (csv_record fs)"
proof (induction fs)
  case (Cons f fs)
  then show ?case by (cases fs) (auto simp: csv_record_def newline_def)
qed simp

lemma read_records_written:
  assumes "\<forall>r \<in> set rs. r \<noteq> []" "length rs \<le> k"
  shows "read_records k (concat (map csv_record rs)) = Some rs"
  using assms
proof (induction rs arbitrary: k)
  case (Cons r rs)
  then obtain k' where k: "k = Suc k'" by (cases k) simp_all
  let ?s = "csv_record r @ concat (map csv_record rs)"
  have l: "length r \<le> length ?s" "?s \<noteq> []" using Cons.prems csv_record_length [of r] by (auto simp: csv_record_def newline_def)
  have "read_record (length ?s) ?s = Some (r, concat (map csv_record rs))"
    using Cons.prems l(1) by (intro read_record_written) auto
  with Cons l(2) show ?case by (cases ?s) (simp_all add: k)
qed simp

lemma read_csv_written:
  assumes "\<forall>r \<in> set rs. r \<noteq> []"
  shows "read_csv (concat (map csv_record rs)) = Some rs"
proof -
  have "length rs \<le> length (concat (map csv_record rs))"
    by (induction rs) (simp_all add: csv_record_def newline_def)
  with assms show ?thesis by (simp add: read_csv_def read_records_written)
qed

section \<open>Properties\<close>

text \<open>A spreadsheet reads exactly the rows of the frames from an export: one record for each, with
  eight fields, whatever quotes, commas and line ends a packet puts into its summary.\<close>

theorem csv_roundtrip:
  "read_csv (export_csv n e) =
     Some ([''no'', ''time'', ''src'', ''dst'', ''protocol'', ''length'', ''info'', ''flow'']
       # map (csv_row n) (e_frames e))"
  unfolding export_csv_def by (rule read_csv_written) (auto simp: csv_row_def)

end
