(* ===== verification/Report.thy ===== *)
theory Report
  imports Cli Csv
begin

text \<open>
  The commands of \<open>cmd/fluxtap/main.go\<close> from their arguments to what they print and write: \<open>parse\<close> with
  its exports, \<open>bench\<close>, what the dashboard's engine goroutine does when \<open>Run\<close> returns, \<open>humanBytes\<close>, and
  \<open>Summary\<close> of the engine. Given from outside: the files, the texts of errors, the banner, and the
  numbers made with a clock reading (rates and durations). A file that could be
  created is written. The lemmas: \<open>humanBytes\<close> rounds to the
  nearest number of its form; \<open>parse --csv\<close> writes one row for each packet of the file.
\<close>

section \<open>Numbers\<close>

text \<open>\<open>a / b\<close> to the nearest integer, half to even.\<close>

definition round_even :: "nat \<Rightarrow> nat \<Rightarrow> nat" where
  "round_even a b =
     (let q = a div b; r = a mod b in
      if 2 * r < b then q else if b < 2 * r then q + 1 else if even q then q else q + 1)"

text \<open>\<open>float64(n)\<close>: the bits that do not fit into the 53 of its significand are rounded away.\<close>

fun excess_bits :: "nat \<Rightarrow> nat" where
  "excess_bits n = (if n < 2 ^ 53 then 0 else Suc (excess_bits (n div 2)))"

declare excess_bits.simps [simp del]

definition to_float64 :: "nat \<Rightarrow> nat" where
  "to_float64 n = (let k = excess_bits n in round_even n (2 ^ k) * 2 ^ k)"

text \<open>\<open>%.df\<close> of \<open>n / 2^k\<close>; the division by a power of two is exact.\<close>

definition fixed_point :: "nat \<Rightarrow> nat \<Rightarrow> nat \<Rightarrow> string" where
  "fixed_point d n k =
     (let v = round_even (n * 10 ^ d) (2 ^ k); frac = dec (v mod 10 ^ d) in
      dec (v div 10 ^ d) @ ''.'' @ replicate (d - length frac) CHR ''0'' @ frac)"

definition human_bytes :: "u64 \<Rightarrow> string" where
  "human_bytes n =
     (let x = to_float64 (unat n) in
      if 2 ^ 30 \<le> n then fixed_point 2 x 30 @ '' GB''
      else if 2 ^ 20 \<le> n then fixed_point 2 x 20 @ '' MB''
      else if 2 ^ 10 \<le> n then fixed_point 1 x 10 @ '' KB''
      else dec (unat n) @ '' B'')"

section \<open>Lines\<close>

definition engine_summary :: "world \<Rightarrow> string \<Rightarrow> engine \<Rightarrow> string" where
  "engine_summary w pps e =
     (let s = stats_snapshot (w_talkers w) (e_stats e);
          mode = (if e_source e = [] then ''file'' else e_source e) in
      ''['' @ mode @ ''] packets='' @ dec (unat (sn_packets s)) @ '' bytes='' @ dec (unat (sn_bytes s))
      @ '' pps='' @ pps @ '' flows='' @ dec_int (tracker_count (e_flows e))
      @ '' sessions='' @ dec_int (player_count (e_sessions e))
      @ '' findings='' @ dec (length (analyzer_findings (e_security e))))"

definition result_line :: "world \<Rightarrow> string \<Rightarrow> string \<Rightarrow> engine \<Rightarrow> string" where
  "result_line w pps elapsed e =
     (let s = stats_snapshot (w_talkers w) (e_stats e); dot = '' '' @ mid_dot @ '' '' in
      [CHR 0xE2, CHR 0x9A, CHR 0xA1] @ '' '' @ dec (unat (sn_packets s)) @ '' packets'' @ dot
      @ human_bytes (sn_bytes s) @ dot @ pps @ '' pps'' @ dot @ dec_int (tracker_count (e_flows e))
      @ '' flows'' @ dot @ dec (length (analyzer_findings (e_security e))) @ '' findings'' @ dot @ elapsed @ newline)"

section \<open>Commands\<close>

text \<open>How a command ends: by itself, with what it prints and the files it writes, or by \<open>os.Exit\<close> with a
  status and a last line on the error stream, or by a panic. Package \<open>flag\<close> exits with 2 on an error,
  with 0 when help was asked for (the texts it prints are shortened).\<close>

datatype written = Json export | Csv_text string

datatype outcome =
    Done "string list" "(string \<times> written) list"
  | Exits_with nat "string list" "(string \<times> written) list" string
  | Panics

record surroundings =
  su_world :: world
  su_net :: net
  su_now :: gotime
  su_open :: "string \<Rightarrow> string + bytes"
  su_create :: "string \<Rightarrow> string option"
  su_error :: "rd_error \<Rightarrow> string"
  su_banner :: string
  su_pps :: string
  su_elapsed :: string

definition fatal :: "string list \<Rightarrow> (string \<times> written) list \<Rightarrow> string \<Rightarrow> outcome" where
  "fatal out files err = Exits_with 1 out files (''error: '' @ err @ newline)"

definition usage_exit :: "string \<Rightarrow> outcome" where
  "usage_exit err =
     Exits_with (if err = ''parse requires a pcap file'' then 1 else if err = ''help requested'' then 0 else 2)
       [] [] (err @ newline)"

definition parse_lines :: "surroundings \<Rightarrow> flags \<Rightarrow> engine \<Rightarrow> string list" where
  "parse_lines env fs e =
     (if \<not> flag_b fs ''q'' then
        [su_banner env] @ packet_lines (e_frames e) @ [newline]
        @ [result_line (su_world env) (su_pps env) (su_elapsed env) e]
        @ radar_lines (analyzer_findings (e_security e))
      else [engine_summary (su_world env) (su_pps env) e @ newline])"

definition parse_exports :: "surroundings \<Rightarrow> flags \<Rightarrow> engine \<Rightarrow> string list \<Rightarrow> outcome" where
  "parse_exports env fs e out =
     (let json = flag_s fs ''json''; csv = flag_s fs ''csv'';
          write_csv = (\<lambda>out files.
            if csv \<noteq> [] then
              (case su_create env csv of
                 Some err \<Rightarrow> fatal out files err
               | None \<Rightarrow> Done (out @ [''wrote '' @ csv @ newline])
                   (files @ [(csv, Csv_text (export_csv (su_net env) e))]))
            else Done out files)
      in if json \<noteq> [] then
           (case su_create env json of
              Some err \<Rightarrow> fatal out [] err
            | None \<Rightarrow> write_csv (out @ [''wrote '' @ json @ newline]) [(json, Json (export_json (su_world env) e))])
         else write_csv out [])"

definition parse_command :: "surroundings \<Rightarrow> string list \<Rightarrow> outcome option" where
  "parse_command env args =
     (case cmd_parse args of
        Inl err \<Rightarrow> Some (usage_exit err)
      | Inr (cfg, fs) \<Rightarrow>
          (case su_open env (cf_path cfg) of
             Inl err \<Rightarrow> Some (fatal [] [] err)
           | Inr input \<Rightarrow>
               map_option (\<lambda>r. case r of
                   Finished e \<Rightarrow> parse_exports env fs e (parse_lines env fs e)
                 | Failed x e \<Rightarrow> fatal [] [] (su_error env x)
                 | Crashed \<Rightarrow> Panics)
                 (run_file (su_world env) input (new_engine (su_net env) (su_now env) cfg))))"

text \<open>The rounds of \<open>bench\<close>: how long each took; the best one and its packets.\<close>

fun bench_rounds :: "(gotime \<times> u64) list \<Rightarrow> gotime \<times> u64 \<Rightarrow> gotime \<times> u64" where
  "bench_rounds [] (best, pkts) = (best, pkts)"
| "bench_rounds ((d, n) # rs) (best, pkts) = bench_rounds rs (if best = 0 \<or> d < best then d else best, n)"

text \<open>The goroutine of \<open>runDashboard\<close> that runs the engine, when \<open>Run\<close> has returned: what it prints on
  the output and the error stream, and whether the process goes on.\<close>

datatype dashboard_end = Serving "string list" | Exits "string list"

definition after_run :: "surroundings \<Rightarrow> run_result \<Rightarrow> dashboard_end option" where
  "after_run env r =
     (case r of
        Failed x e \<Rightarrow> Some (Exits [''engine: '' @ su_error env x @ newline])
      | Finished e \<Rightarrow> Some (Serving
          [[CHR 0xE2, CHR 0x9C, CHR 0x85] @ '' '' @ engine_summary (su_world env) (su_pps env) e @ newline])
      | Crashed \<Rightarrow> None)"

section \<open>Rounding\<close>

lemma round_even_near:
  assumes "0 < b"
  shows "2 * a \<le> 2 * (round_even a b * b) + b" "2 * (round_even a b * b) \<le> 2 * a + b"
proof -
  have a: "a = a div b * b + a mod b" by (simp add: div_mult_mod_eq)
  have r: "a mod b < b" using assms by simp
  define q r where "q = a div b * b" and "r = a mod b"
  have "round_even a b * b = q \<and> 2 * r \<le> b \<or> round_even a b * b = q + b \<and> b \<le> 2 * r"
    by (auto simp: round_even_def Let_def q_def r_def algebra_simps)
  then show "2 * a \<le> 2 * (round_even a b * b) + b" "2 * (round_even a b * b) \<le> 2 * a + b"
    using a r unfolding q_def [symmetric] r_def [symmetric] by linarith+
qed

lemma to_float64_exact: "n < 2 ^ 53 \<Longrightarrow> to_float64 n = n"
  by (simp add: to_float64_def excess_bits.simps round_even_def)

text \<open>The number \<open>humanBytes\<close> prints is within half of its last digit of the number of bytes; just below
  a unit it prints 1024 of the smaller one.\<close>

lemma human_bytes_rounds:
  assumes "x = round_even (n * 10 ^ d) (2 ^ k)"
  shows "2 * (n * 10 ^ d) \<le> 2 * (x * 2 ^ k) + 2 ^ k" "2 * (x * 2 ^ k) \<le> 2 * (n * 10 ^ d) + 2 ^ k"
  using round_even_near [of "2 ^ k" "n * 10 ^ d"] by (simp_all add: assms)

lemma human_bytes_edge: "human_bytes 1048575 = ''1024.0 KB''"
  by (simp add: human_bytes_def to_float64_exact fixed_point_def round_even_def Let_def) code_simp

text \<open>\<open>bench\<close> reports the shortest of its rounds.\<close>

lemma bench_best_from:
  "0 < best \<Longrightarrow> \<forall>(d, n) \<in> set rs. 0 < d \<Longrightarrow> fst (bench_rounds rs (best, k)) = fold (\<lambda>(d, n). min d) rs best"
proof (induction rs arbitrary: best k)
  case (Cons r rs)
  obtain d n where r: "r = (d, n)" by (cases r)
  have "(if best = 0 \<or> d < best then d else best) = min d best" using Cons.prems by auto
  moreover have "0 < min d best" using Cons.prems by (simp add: r)
  ultimately show ?case using Cons.IH [of "min d best" n] Cons.prems by (simp add: r)
qed simp

lemma bench_best:
  "\<forall>(d, n) \<in> set ((d0, n0) # rs). 0 < d \<Longrightarrow>
   fst (bench_rounds ((d0, n0) # rs) (0, 0)) = fold (\<lambda>(d, n). min d) rs d0"
  using bench_best_from [of d0 rs n0] by simp

section \<open>Properties\<close>

text \<open>C10: \<open>fluxtap parse FILE --csv OUT\<close>, without a display filter, a packet limit or \<open>--json\<close>: if the
  reader reads FILE to its end without an error, and FILE has at most 50000 packets, none of which
  has a byte 3 in front of a byte 2, then the command ends and writes OUT and no other file, and a
  spreadsheet reads from OUT the heading of eight columns and exactly one row for each packet of
  FILE, in order: that of the packet's dissection.\<close>

theorem parse_to_csv:
  assumes "cmd_parse args = Inr (cfg, fs)" "flag_s fs ''csv'' \<noteq> []" "flag_s fs ''json'' = []"
    and "cf_filter cfg = []" "cf_max_packets cfg \<le> 0"
    and "su_open env (cf_path cfg) = Inr input" "su_create env (flag_s fs ''csv'') = None"
    and "new_reader input = Ret rd" "all_packets (w_clock (su_world env)) rd [] = Some (ps, None)"
    and "length ps \<le> 50000" "list_all (\<lambda>p. \<not> has_ws2 (p_data p)) ps"
  shows "\<exists>out text frames. parse_command env args = Some (Done out [(flag_s fs ''csv'', Csv_text text)]) \<and>
    read_csv text = Some ([''no'', ''time'', ''src'', ''dst'', ''protocol'', ''length'', ''info'', ''flow'']
      # map (csv_row (su_net env)) frames) \<and>
    list_all2 (\<lambda>(k, p) fr. frame_of (su_world env) (new_dissector\<lparr>d_include_hex := cf_include_hex cfg\<rparr>) k p = Some fr)
      (enumerate 0 ps) frames"
proof (rule run_file_frames [OF assms(8,9,4,5,10,11), where n = "su_net env" and now = "su_now env"])
  fix e
  assume e: "run_file (su_world env) input (new_engine (su_net env) (su_now env) cfg) = Some (Finished e)"
    "list_all2 (\<lambda>(k, p) fr. frame_of (su_world env) (new_dissector\<lparr>d_include_hex := cf_include_hex cfg\<rparr>) k p = Some fr)
      (enumerate 0 ps) (e_frames e)"
  let ?t = "export_csv (su_net env) e"
  have "\<exists>out. parse_command env args = Some (Done out [(flag_s fs ''csv'', Csv_text ?t)])"
    using assms(1-3,6,7) e(1) by (simp add: parse_command_def parse_exports_def Let_def)
  then show ?thesis
    using csv_roundtrip [of "su_net env" e] e(2) by (elim exE) (intro exI conjI)
qed

text \<open>For the witness: a file of one packet.\<close>

definition demo_surroundings :: surroundings where
  "demo_surroundings =
     \<lparr>su_world = demo_world, su_net = demo_net, su_now = 0,
      su_open = (\<lambda>path. if path = ''a.pcap'' then Inr (file_header 1 @ records [(7000, [1, 2, 4])])
        else Inl ''no such file''),
      su_create = (\<lambda>_. None), su_error = (\<lambda>_. ''EOF''), su_banner = [], su_pps = ''1'', su_elapsed = ''1ms''\<rparr>"

lemma parse_to_csv_witness:
  "\<exists>out text row. parse_command demo_surroundings [''a.pcap'', ''--csv'', ''b.csv''] =
     Some (Done out [(''b.csv'', Csv_text text)]) \<and>
     read_csv text = Some [[''no'', ''time'', ''src'', ''dst'', ''protocol'', ''length'', ''info'', ''flow''], row]"
proof -
  obtain cfg fs where c: "cmd_parse [''a.pcap'', ''--csv'', ''b.csv''] = Inr (cfg, fs)" "flag_s fs ''csv'' = ''b.csv''"
    "flag_s fs ''json'' = []" "cf_filter cfg = []" "cf_max_packets cfg = 0" "cf_path cfg = ''a.pcap''"
    by (simp add: cmd_parse_def has_prefix_def value_flags_def parse_defaults_def flag_parts_def flag_s_def
        flag_i_def no_config_def Let_def)
  let ?ps = "[(7000, [1, 2, 4])]"
  let ?rd = "(fresh_reader (records ?ps))\<lparr>r_order := LE, r_snap_len := 65535, r_link_type := 1\<rparr>"
  have a: "all_packets (w_clock demo_world) ?rd [] = Some (numbered 1 0 ?ps, None)"
    using all_packets_written [of ?rd ?ps 0 "w_clock demo_world" "[]"]
    by (simp add: fresh_reader_def writable_def max_block_def)
  have n: "numbered 1 0 ?ps = [written_packet 1 1 (7000, [1, 2, 4])]" by (simp add: numbered_def)
  have h: "\<not> has_ws2 (p_data (written_packet 1 1 (7000, [1, 2, 4])))"
    by (auto simp: has_ws2_def written_packet_def nth_Cons split: nat.splits)
  have "su_world demo_surroundings = demo_world" "su_create demo_surroundings ''b.csv'' = None"
    "su_open demo_surroundings ''a.pcap'' = Inr (file_header 1 @ records ?ps)"
    by (simp_all add: demo_surroundings_def)
  note env = this
  have "\<exists>out text frames. parse_command demo_surroundings [''a.pcap'', ''--csv'', ''b.csv''] =
      Some (Done out [(''b.csv'', Csv_text text)]) \<and>
      read_csv text = Some ([''no'', ''time'', ''src'', ''dst'', ''protocol'', ''length'', ''info'', ''flow'']
        # map (csv_row (su_net demo_surroundings)) frames) \<and>
      list_all2 (\<lambda>(k, p) fr. frame_of demo_world (new_dissector\<lparr>d_include_hex := cf_include_hex cfg\<rparr>) k p = Some fr)
        (enumerate 0 (numbered 1 0 ?ps)) frames"
    using parse_to_csv [OF c(1), of demo_surroundings "file_header 1 @ records ?ps" ?rd "numbered 1 0 ?ps"]
      file_header_read [of 1 "records ?ps"] a h unfolding c(2) env c(6) by (simp add: c(3-5) n)
  then obtain out body frames where r:
    "parse_command demo_surroundings [''a.pcap'', ''--csv'', ''b.csv''] = Some (Done out [(''b.csv'', Csv_text body)])"
    "read_csv body = Some ([''no'', ''time'', ''src'', ''dst'', ''protocol'', ''length'', ''info'', ''flow'']
        # map (csv_row (su_net demo_surroundings)) frames)"
    "length (enumerate 0 (numbered 1 0 ?ps)) = length frames"
    by (elim exE conjE) (rule that, assumption+, erule list_all2_lengthD)
  from r(3) obtain fr where f: "frames = [fr]" by (cases frames) (simp_all add: n)
  show ?thesis
    by (intro exI [of _ out] exI [of _ body] exI [of _ "csv_row (su_net demo_surroundings) fr"] conjI)
      (use r(1,2) in \<open>simp_all add: f\<close>)
qed

end
