(* ===== verification/Deliver.thy ===== *)
theory Deliver
  imports Notify
begin

text \<open>
  \<open>webhook.go\<close>: the HTTP client a webhook is posted with. \<open>pinnedClient\<close> configures it; how
  \<open>net/http\<close> follows redirects is that package's documented behaviour: 301, 302 and 303 go on with a
  GET without a body, 307 and 308 repeat the request, any other status and a redirect without a
  \<open>Location\<close> end the chain, and so does an error of \<open>CheckRedirect\<close>. Given from outside are the answers
  of the servers. The lemmas: whatever they answer, no connection leaves the address that was
  checked, there are at most three, and each redirect was checked before it was followed.
\<close>

section \<open>The client\<close>

text \<open>What the code fixes of \<open>http.Client\<close>, \<open>http.Transport\<close> and \<open>tls.Config\<close>.\<close>

record client =
  cl_timeout :: gotime
  cl_check_redirect :: "nat \<Rightarrow> string \<Rightarrow> string option"
  cl_dial :: "string \<Rightarrow> string"
  cl_server_name :: string

text \<open>The client of the \<open>Webhook\<close>: its time-out and \<open>CheckRedirect\<close>.\<close>

definition base_client :: "net \<Rightarrow> gotime \<times> (nat \<Rightarrow> string \<Rightarrow> string option)" where
  "base_client n = (8000000000, check_redirect n)"

definition pinned_client ::
  "(gotime \<times> (nat \<Rightarrow> string \<Rightarrow> string option)) option \<Rightarrow> string \<Rightarrow> string \<Rightarrow> client" where
  "pinned_client base dial_addr server_name =
     (let timeout = 8000000000; check = (\<lambda>_ _. None);
          (timeout, check) =
            (case base of
               Some (t, c) \<Rightarrow> (if 0 < t then t else timeout, c)
             | None \<Rightarrow> (timeout, check))
      in \<lparr>cl_timeout = timeout, cl_check_redirect = check, cl_dial = (\<lambda>_. dial_addr),
          cl_server_name = server_name\<rparr>)"

text \<open>One request: where the transport connects, the name it asks the certificate for, the URL, and
  the body if it is a POST.\<close>

record hop =
  hp_dial :: string
  hp_server_name :: string
  hp_url :: string
  hp_body :: "payload option"

text \<open>The answer of a server: a status and the URL of its \<open>Location\<close>.\<close>

datatype response = No_response | Response nat "string option"

definition redirect_status :: "nat \<Rightarrow> bool" where
  "redirect_status code = (code \<in> set [301, 302, 303, 307, 308])"

definition body_after :: "nat \<Rightarrow> payload option \<Rightarrow> payload option" where
  "body_after code body = (if code \<in> set [307, 308] then body else None)"

text \<open>\<open>client.Do\<close>: \<open>addr\<close> is the address the transport wants for a URL, that of its host or of a
  proxy; \<open>via\<close> counts the requests made before.\<close>

fun client_do ::
  "client \<Rightarrow> (string \<Rightarrow> string) \<Rightarrow> nat \<Rightarrow> string \<Rightarrow> payload option \<Rightarrow> response list \<Rightarrow> hop list \<times> answer" where
  "client_do c addr via url body rs =
     (let h = \<lparr>hp_dial = cl_dial c (addr url), hp_server_name = cl_server_name c, hp_url = url, hp_body = body\<rparr> in
      case rs of
        Response code loc # rs \<Rightarrow>
          (if redirect_status code then
             (case loc of
                None \<Rightarrow> ([h], Answered code)
              | Some target \<Rightarrow>
                  (case cl_check_redirect c (via + 1) target of
                     Some e \<Rightarrow> ([h], Unreachable)
                   | None \<Rightarrow>
                       (let (hs, a) = client_do c addr (via + 1) target (body_after code body) rs in (h # hs, a))))
           else ([h], Answered code))
      | _ \<Rightarrow> ([h], Unreachable))"

declare client_do.simps [simp del]

text \<open>\<open>post\<close> with its client; \<open>bad\<close> is the error of \<open>http.NewRequest\<close>.\<close>

definition webhook_deliver ::
  "net \<Rightarrow> (string \<Rightarrow> string) \<Rightarrow> string option \<Rightarrow> response list \<Rightarrow> payload \<Rightarrow> webhook \<Rightarrow> string option \<times> hop list" where
  "webhook_deliver n addr bad rs payload w =
     (if wh_dry w then (validate_webhook_url_shape n (wh_url w), [])
      else case pin_webhook_dial n (wh_url w) of
        Inl e \<Rightarrow> (Some e, [])
      | Inr dial \<Rightarrow>
          (case bad of
             Some e \<Rightarrow> (Some (''webhook request: '' @ e), [])
           | None \<Rightarrow>
               (let server_name = u_hostname (the (n_url n (wh_url w)));
                    client = pinned_client (Some (base_client n)) dial server_name;
                    (hops, ans) = client_do client addr 0 (wh_url w) (Some payload) rs
                in (case ans of
                      Answered code \<Rightarrow> if 300 \<le> code then Some (''webhook HTTP '' @ dec code) else None
                    | _ \<Rightarrow> Some ''webhook transport error'', hops))))"

section \<open>Where the requests go\<close>

text \<open>A redirect is followed, or the chain ends.\<close>

definition first_hop :: "client \<Rightarrow> (string \<Rightarrow> string) \<Rightarrow> string \<Rightarrow> payload option \<Rightarrow> hop" where
  "first_hop c addr url body =
     \<lparr>hp_dial = cl_dial c (addr url), hp_server_name = cl_server_name c, hp_url = url, hp_body = body\<rparr>"

lemma client_do_cases:
  obtains (follow) code target rs' where "rs = Response code (Some target) # rs'"
      "cl_check_redirect c (via + 1) target = None"
      "client_do c addr via url body rs =
        (let (hs, a) = client_do c addr (via + 1) target (body_after code body) rs' in (first_hop c addr url body # hs, a))"
  | (over) code loc rs' where "rs = Response code loc # rs'"
      "client_do c addr via url body rs = ([first_hop c addr url body], Answered code)"
  | (fails) "client_do c addr via url body rs = ([first_hop c addr url body], Unreachable)"
proof (cases rs)
  case Nil
  then show ?thesis by (intro fails) (simp add: client_do.simps first_hop_def)
next
  case (Cons r rs')
  show ?thesis
  proof (cases r)
    case No_response
    then show ?thesis by (intro fails) (simp add: client_do.simps first_hop_def Cons)
  next
    case (Response code loc)
    show ?thesis
    proof (cases "redirect_status code \<and> loc \<noteq> None")
      case True
      then obtain target where "loc = Some target" by auto
      with True Response Cons show ?thesis
        by (cases "cl_check_redirect c (via + 1) target")
          (simp_all add: follow fails client_do.simps [of _ _ _ _ _ "_ # _"] first_hop_def)
    next
      case False
      with Response Cons show ?thesis
        by (intro over [of code loc rs']) (auto simp: client_do.simps first_hop_def Let_def)
    qed
  qed
qed

lemma client_do_hops:
  assumes "client_do c addr via url body rs = (hops, ans)"
  shows "hops \<noteq> [] \<and> hp_url (hd hops) = url \<and>
    (\<forall>h \<in> set hops. (\<exists>u. hp_dial h = cl_dial c u) \<and> hp_server_name h = cl_server_name c \<and>
      (hp_body h = None \<or> hp_body h = body)) \<and>
    (\<forall>h \<in> set (tl hops). \<exists>v. cl_check_redirect c v (hp_url h) = None)"
  using assms
proof (induction rs arbitrary: via url body hops ans rule: measure_induct_rule [of length])
  case (less rs)
  show ?case
  proof (cases rule: client_do_cases [of rs c via addr url body])
    case (follow code target rs')
    obtain hs where hs: "client_do c addr (via + 1) target (body_after code body) rs' = (hs, ans)"
      "hops = first_hop c addr url body # hs"
      using less.prems follow(3) by (auto split: prod.splits)
    have "length rs' < length rs" by (simp add: follow(1))
    note i = less.IH [OF this hs(1)]
    have "set hs = insert (hd hs) (set (tl hs))" using i by (cases hs) simp_all
    with i follow(2) show ?thesis by (auto simp: hs(2) first_hop_def body_after_def split: if_splits)
  qed (use less.prems in \<open>auto simp: first_hop_def\<close>)
qed

lemma client_do_count:
  assumes "\<And>v u. k \<le> v \<Longrightarrow> cl_check_redirect c v u \<noteq> None" "via < k"
  shows "via + length (fst (client_do c addr via url body rs)) \<le> k"
  using assms(2)
proof (induction rs arbitrary: via url body rule: measure_induct_rule [of length])
  case (less rs)
  show ?case
  proof (cases rule: client_do_cases [of rs c via addr url body])
    case (follow code target rs')
    have "via + 1 < k" using assms(1) [of "via + 1" target] follow(2) by (meson not_le)
    with less.IH [of rs' "via + 1" target "body_after code body"] show ?thesis
      by (simp add: follow(1) follow(3) [unfolded follow(1)] split_beta Let_def)
  qed (use less.prems in simp_all)
qed

lemma client_do_status:
  "client_do c addr via url body rs = (hops, Answered code) \<Longrightarrow> \<exists>loc. Response code loc \<in> set rs"
proof (induction rs arbitrary: via url body hops rule: measure_induct_rule [of length])
  case (less rs)
  show ?case
  proof (cases rule: client_do_cases [of rs c via addr url body])
    case (follow c' target rs')
    obtain hs where hs: "client_do c addr (via + 1) target (body_after c' body) rs' = (hs, Answered code)"
      using less.prems follow(3) by (auto split: prod.splits)
    have "length rs' < length rs" by (simp add: follow(1))
    from less.IH [OF this hs] show ?thesis by (auto simp: follow(1))
  qed (use less.prems in auto)
qed

section \<open>Properties\<close>

text \<open>C12: whatever URLs, name servers, redirects and proxies say, a webhook makes at most three requests,
  all of them over one address, the one that was found and checked before the first of them: the
  port of its URL, at the address the URL names or at one its host was found to have, none of which
  is blocked (or at loopback, for a local host over plain HTTP); the certificate is asked for the
  name of that host; the first request goes to the URL, each later one to a URL that was checked as
  well; and it counts as sent only if a server answered with a status below 300, or in a dry run.\<close>

theorem webhook_pinned:
  assumes "webhook_deliver n addr bad rs p w = (err, hops)"
  shows "length hops \<le> 3 \<and>
    (hops \<noteq> [] \<longrightarrow>
      (\<exists>dial. pin_webhook_dial n (wh_url w) = Inr dial \<and> dial_allowed n (wh_url w) dial \<and>
        (\<forall>h \<in> set hops. hp_dial h = dial \<and> hp_server_name h = u_hostname (the (n_url n (wh_url w)))))) \<and>
    (\<forall>h \<in> set hops. hp_body h \<in> {None, Some p}) \<and>
    (\<forall>h \<in> set (tl hops). validate_webhook_url n (hp_url h) = None) \<and>
    (hops \<noteq> [] \<longrightarrow> hp_url (hd hops) = wh_url w) \<and>
    (err = None \<longrightarrow> (if wh_dry w then hops = [] else \<exists>code loc. Response code loc \<in> set rs \<and> code < 300))"
proof (cases "hops = []")
  case False
  with assms obtain dial where d: "pin_webhook_dial n (wh_url w) = Inr dial" and "bad = None" "\<not> wh_dry w"
    by (auto simp: webhook_deliver_def split: if_splits sum.splits option.splits)
  define name where "name = u_hostname (the (n_url n (wh_url w)))"
  define c where "c = pinned_client (Some (base_client n)) dial name"
  have c: "cl_dial c u = dial" "cl_check_redirect c = check_redirect n" "cl_server_name c = name" for u
    by (simp_all add: c_def pinned_client_def base_client_def)
  obtain ans where a: "client_do c addr 0 (wh_url w) (Some p) rs = (hops, ans)"
    and e: "err = (case ans of Answered code \<Rightarrow> if 300 \<le> code then Some (''webhook HTTP '' @ dec code) else None
      | _ \<Rightarrow> Some ''webhook transport error'')"
    using assms \<open>bad = None\<close> \<open>\<not> wh_dry w\<close>
    by (auto simp: webhook_deliver_def d c_def name_def Let_def split: prod.splits)
  have "length hops \<le> 3"
    using client_do_count [of 3 c 0 addr "wh_url w" "Some p" rs] by (simp add: a c check_redirect_def)
  moreover have "\<exists>code loc. Response code loc \<in> set rs \<and> code < 300" if "err = None"
    using that client_do_status [of c addr 0 "wh_url w" "Some p" rs hops] a
    by (auto simp: e split: answer.splits if_splits)
  moreover have "\<forall>h \<in> set hops. hp_dial h = dial \<and> hp_server_name h = name"
    using client_do_hops [OF a] by (auto simp: c)
  moreover have "\<forall>h \<in> set (tl hops). validate_webhook_url n (hp_url h) = None"
    using client_do_hops [OF a] by (fastforce simp: c check_redirect_def split: if_splits)
  ultimately show ?thesis
    using client_do_hops [OF a] pin_allowed [OF d] \<open>\<not> wh_dry w\<close> False
    by (auto simp: d name_def)
next
  case True
  with assms have "err = None \<Longrightarrow> wh_dry w"
    using client_do_hops
    by (fastforce simp: webhook_deliver_def Let_def split: if_splits sum.splits option.splits prod.splits)
  with True show ?thesis by auto
qed

text \<open>A redirect to another host does not reach it: the connection goes to the address of the first
  host, and the certificate is asked for the name of the first host. An address of a proxy is
  dialled no more than any other.\<close>

lemma redirect_stays:
  assumes "webhook_deliver n addr bad rs p w = (err, hops)" "h \<in> set hops"
  shows "pin_webhook_dial n (wh_url w) = Inr (hp_dial h) \<and>
    hp_server_name h = u_hostname (the (n_url n (wh_url w)))"
proof -
  have "hops \<noteq> []" using assms(2) by auto
  with assms(1) obtain dial where d: "pin_webhook_dial n (wh_url w) = Inr dial" and "bad = None" "\<not> wh_dry w"
    by (auto simp: webhook_deliver_def split: if_splits sum.splits option.splits)
  then obtain ans where "client_do (pinned_client (Some (base_client n)) dial
      (u_hostname (the (n_url n (wh_url w))))) addr 0 (wh_url w) (Some p) rs = (hops, ans)"
    using assms(1) by (auto simp: webhook_deliver_def Let_def split: prod.splits)
  from client_do_hops [OF this] assms(2) d show ?thesis
    by (auto simp: pinned_client_def base_client_def)
qed

text \<open>The model with an answer given from outside is the first request and the last answer.\<close>

lemma deliver_post:
  assumes "webhook_deliver n addr None rs p w = (err, h # hops)"
  shows "\<exists>ans. webhook_post n ans p w = (err, Some (hp_dial h, p))"
proof -
  from assms obtain dial where d: "pin_webhook_dial n (wh_url w) = Inr dial" and "\<not> wh_dry w"
    by (auto simp: webhook_deliver_def split: if_splits sum.splits option.splits)
  then obtain ans where a: "err = (case ans of Answered code \<Rightarrow> if 300 \<le> code
        then Some (''webhook HTTP '' @ dec code) else None | _ \<Rightarrow> Some ''webhook transport error'')"
    using assms by (auto simp: webhook_deliver_def d Let_def split: prod.splits)
  define ans' where "ans' = (case ans of Answered c \<Rightarrow> Answered c | _ \<Rightarrow> Unreachable)"
  have "webhook_post n ans' p w = (err, Some (dial, p))"
    using \<open>\<not> wh_dry w\<close> by (simp add: webhook_post_def d a ans'_def split: answer.split)
  with redirect_stays [OF assms, of h] d show ?thesis by (intro exI [of _ ans']) simp
qed

lemma webhook_pinned_witness:
  "\<exists>err h. webhook_deliver demo_net id None [Response 200 None] (Text_payload ''x'') demo_webhook = (err, [h]) \<and>
     hp_dial h = ''8.8.8.8:443'' \<and> dial_allowed demo_net (wh_url demo_webhook) (hp_dial h)"
proof -
  obtain err h where w: "webhook_deliver demo_net id None [Response 200 None] (Text_payload ''x'') demo_webhook =
      (err, [h])"
    by (simp add: webhook_deliver_def demo_webhook_def demo_dial client_do.simps redirect_status_def Let_def)
  have "pin_webhook_dial demo_net (wh_url demo_webhook) = Inr ''8.8.8.8:443''"
    using demo_dial by (simp add: demo_webhook_def)
  with webhook_pinned [OF w] w show ?thesis by auto
qed

end
