(* ===== verification/Probe.thy ===== *)
theory Probe
  imports Live
begin

text \<open>
  \<open>scripts/probe_afpacket.go\<close>, the probe of the kernel's packet socket: the loop of \<open>recvfrom\<close>, the
  geometry of the ring it asks for, and the loop over the ring. From outside come the answers of
  the socket, the page size, and what the kernel writes into the ring between two looks at it; the
  loops run on the turns that happen before the deadline. The lemmas: the ring is made of whole
  pages and whole frames; the loop never leaves it and takes its blocks in turn.
\<close>

section \<open>Reading with recvfrom\<close>

datatype probe_recv = Would_block | Recv_failed string | Got bytes

text \<open>\<open>buf\<close> is not cleared between two packets, so a short one shows bytes of the one before.\<close>

fun probe_reads :: "probe_recv list \<Rightarrow> bytes \<Rightarrow> int \<Rightarrow> string list \<Rightarrow> int \<times> string list" where
  "probe_reads [] buf nrecv out = (nrecv, out)"
| "probe_reads (r # rs) buf nrecv out =
     (case r of
        Would_block \<Rightarrow> probe_reads rs buf nrecv out
      | Recv_failed e \<Rightarrow> (nrecv, out @ [''recv err '' @ e @ newline])
      | Got d \<Rightarrow>
          let d = take (length buf) d; buf = d @ drop (length d) buf; nrecv = nrecv + 1;
              out = (if nrecv \<le> 3
                     then out @ [''pkt '' @ dec_int nrecv @ '' len='' @ dec (length d) @ '' ethertype=''
                       @ hexw 4 (unat (get16 BE buf 12)) @ newline]
                     else out)
          in probe_reads rs buf nrecv out)"

lemma probe_reads_counts:
  "fst (probe_reads rs buf n out) =
     n + int (length (filter (\<lambda>r. \<exists>d. r = Got d) (takeWhile (\<lambda>r. \<nexists>e. r = Recv_failed e) rs)))"
  by (induction rs buf n out rule: probe_reads.induct) (auto simp: Let_def split: probe_recv.split)

section \<open>The ring\<close>

definition ring_frame :: u32 where "ring_frame = 2048"
definition ring_blocks :: u32 where "ring_blocks = 16"

definition ring_block :: "u32 \<Rightarrow> u32" where
  "ring_block page =
     (let block = ring_frame * 64 in
      if block mod page \<noteq> 0 then ((block div page) + 1) * page else block)"

definition ring_frames :: "u32 \<Rightarrow> u32" where
  "ring_frames page = (ring_block page div ring_frame) * ring_blocks"

definition tp_status_user :: u32 where "tp_status_user = 1"

definition overwrite :: "bytes \<Rightarrow> nat \<Rightarrow> bytes \<Rightarrow> bytes" where
  "overwrite bs i new = take i bs @ new @ drop (i + length new) bs"

text \<open>One look at the ring: the block, if it is the program's, is counted, given back to the kernel,
  and the next one is looked at. \<open>None\<close> is a panic.\<close>

definition ring_look :: "u32 \<Rightarrow> u32 \<Rightarrow> int \<Rightarrow> bytes \<Rightarrow> (u32 \<times> int \<times> bytes \<times> string list) option" where
  "ring_look block i got ring = do {
     b \<leftarrow> slice ring (unat (i * block)) (unat ((i + 1) * block));
     w \<leftarrow> slice b 8 12;
     let st = get32 LE w 0;
     if st AND tp_status_user = 0 then Some (i, got, ring, [])
     else do {
       w \<leftarrow> slice b 12 16;
       let np = get32 LE w 0;
       w \<leftarrow> slice b 16 20;
       let line = ''block '' @ dec (unat i) @ '' status '' @ dec (unat st) @ '' num_packets '' @ dec (unat np)
         @ '' first_off '' @ dec (unat (get32 LE w 0)) @ newline;
       Some ((i + 1) mod ring_blocks, got + int (unat np), overwrite ring (unat (i * block) + 8) (put_le32 0), [line])
     }
   }"

text \<open>The loop; each turn begins with what the kernel makes of the ring.\<close>

fun ring_loop ::
  "u32 \<Rightarrow> (bytes \<Rightarrow> bytes) list \<Rightarrow> u32 \<times> int \<times> bytes \<times> string list \<Rightarrow> (u32 \<times> int \<times> bytes \<times> string list) option" where
  "ring_loop block [] s = Some s"
| "ring_loop block (k # ks) (i, got, ring, out) = do {
     (i, got, ring, line) \<leftarrow> ring_look block i got (k ring);
     ring_loop block ks (i, got, ring, out @ line)
   }"

section \<open>Properties\<close>

lemma ring_block_unat:
  assumes "0 < unat page" "unat page \<le> 2 ^ 20"
  shows "unat (ring_block page) =
    (if 131072 mod unat page \<noteq> 0 then (131072 div unat page + 1) * unat page else 131072)"
proof -
  let ?p = "unat page"
  have r: "ring_frame * 64 = 131072" by (simp add: ring_frame_def)
  have m: "(131072 :: u32) mod page \<noteq> 0 \<longleftrightarrow> 131072 mod ?p \<noteq> 0"
    by (simp add: unat_eq_0 [symmetric] unat_mod)
  define q where "q = 131072 div ?p"
  have "q * ?p \<le> 131072" unfolding q_def by (rule div_times_less_eq_dividend)
  then have "(131072 div ?p + 1) * ?p < 2 ^ 32" using assms(2) unfolding q_def [symmetric] by simp
  moreover have "131072 div ?p + 1 < 2 ^ 32"
    by (rule le_less_trans [OF add_le_mono1 [OF div_le_dividend]]) simp
  ultimately have "unat ((131072 div page + 1) * page) = (131072 div ?p + 1) * ?p"
    by (simp add: unat_word_ariths unat_div)
  then show ?thesis by (simp add: ring_block_def r m Let_def)
qed

lemma ring_size:
  assumes "0 < unat page" "unat page \<le> 2 ^ 20"
  shows "unat page dvd unat (ring_block page)" "131072 \<le> unat (ring_block page)"
    "unat (ring_block page) \<le> 131072 + unat page"
proof -
  let ?p = "unat page"
  define q r where "q = 131072 div ?p" and "r = 131072 mod ?p"
  have d: "q * ?p + r = 131072" by (simp only: q_def r_def div_mult_mod_eq)
  have l: "r < ?p" using assms(1) by (simp add: r_def)
  show "unat page dvd unat (ring_block page)"
    unfolding ring_block_unat [OF assms] by (auto simp: dvd_eq_mod_eq_0)
  show "131072 \<le> unat (ring_block page)" "unat (ring_block page) \<le> 131072 + unat page"
    unfolding ring_block_unat [OF assms] q_def [symmetric] r_def [symmetric] using d l
    by (simp_all add: add_mult_distrib split: if_split)
qed

text \<open>For every page size up to a megabyte that is made of frames, the ring asked for is made of
  whole pages, its 16 blocks of at least 64 frames each are exactly its frames, and its size does
  not overflow.\<close>

theorem ring_geometry:
  assumes "0 < unat page" "unat page \<le> 2 ^ 20" "2048 dvd unat page"
  shows "unat page dvd unat (ring_block page) \<and> 64 * 2048 \<le> unat (ring_block page) \<and>
    unat (ring_block page * ring_blocks) = 16 * unat (ring_block page) \<and>
    unat (ring_frames page) * 2048 = unat (ring_block page * ring_blocks)"
proof -
  let ?b = "unat (ring_block page)"
  have b: "?b \<le> 131072 + 2 ^ 20" using ring_size(3) [OF assms(1,2)] assms(2) by simp
  have s: "unat (ring_block page * ring_blocks) = 16 * ?b"
    using b by (simp add: ring_blocks_def unat_word_ariths)
  have "2048 dvd ?b" using dvd_trans [OF assms(3) ring_size(1) [OF assms(1,2)]] .
  then obtain k where k: "?b = 2048 * k" by (elim dvdE)
  have "unat (ring_frames page) = 16 * k"
    using b k by (simp add: ring_frames_def ring_frame_def ring_blocks_def unat_word_ariths unat_div)
  then show ?thesis using ring_size(1,2) [OF assms(1,2)] s k by simp
qed

lemma ring_geometry_witness: "unat (ring_frames 4096) = 1024"
proof -
  have "unat (ring_block 4096) = 131072" by (subst ring_block_unat) simp_all
  with ring_geometry [of 4096] show ?thesis by simp
qed

lemma ring_look_safe:
  assumes "length ring = 16 * unat block" "20 \<le> unat block" "16 * unat block < 2 ^ 32" "i < ring_blocks"
  shows "\<exists>i' got' ring' line. ring_look block i got ring = Some (i', got', ring', line) \<and>
    length ring' = length ring \<and> i' < ring_blocks \<and>
    (line = [] \<and> i' = i \<or> length line = 1 \<and> unat i' = (unat i + 1) mod 16)"
proof -
  have i: "unat i < 16" using assms(4) by (simp add: ring_blocks_def word_less_nat_alt)
  have le: "(unat i + 1) * unat block \<le> 16 * unat block" using i by (intro mult_le_mono1) simp
  have i1: "unat (i + 1) = unat i + 1" using i by (simp add: unat_word_ariths)
  have "unat i * unat block < 2 ^ 32" "unat (i + 1) * unat block < 2 ^ 32"
    using le assms(3) unfolding i1 by (simp_all only: add_mult_distrib)
  then have a: "unat (i * block) = unat i * unat block" "unat ((i + 1) * block) = (unat i + 1) * unat block"
    by (simp_all add: unat_mult_lem [THEN iffD1] i1 del: add_mult_distrib)
  define o1 where "o1 = unat i * unat block"
  have e: "(unat i + 1) * unat block = o1 + unat block" by (simp add: o1_def)
  have l: "o1 + unat block \<le> length ring" using le unfolding e assms(1) .
  obtain b where b: "slice ring (unat (i * block)) (unat ((i + 1) * block)) = Some b" "length b = unat block"
  proof -
    from l have "slice ring (unat (i * block)) (unat ((i + 1) * block)) = Some (take (unat block) (drop o1 ring))"
      unfolding a e unfolding o1_def [symmetric] by (simp add: slice_Some)
    with l that show ?thesis by simp
  qed
  have s: "slice b 8 12 = Some (take 4 (drop 8 b))" "slice b 12 16 = Some (take 4 (drop 12 b))"
    "slice b 16 20 = Some (take 4 (drop 16 b))"
    using b(2) assms(2) by (simp_all add: slice_Some)
  have n: "unat ((i + 1) mod ring_blocks) = (unat i + 1) mod 16" "(i + 1) mod ring_blocks < ring_blocks"
    using i by (simp_all add: ring_blocks_def unat_mod unat_word_ariths word_less_nat_alt)
  have "length (overwrite ring (unat (i * block) + 8) (put_le32 0)) = length ring"
    using l assms(2) unfolding a o1_def [symmetric] by (simp add: overwrite_def)
  with assms(4) n show ?thesis by (simp add: ring_look_def b s Let_def)
qed

text \<open>Whatever the kernel writes into the ring, the loop never goes outside it, and takes its blocks
  one after the other, round and round: one line for each.\<close>

theorem ring_in_turn:
  assumes "20 \<le> unat block" "16 * unat block < 2 ^ 32" "length ring = 16 * unat block"
    and "\<forall>k \<in> set ks. \<forall>r. length (k r) = length r"
  shows "\<exists>i got ring' out. ring_loop block ks (0, 0, ring, []) = Some (i, got, ring', out) \<and>
    length ring' = length ring \<and> unat i = length out mod 16"
proof -
  have "\<exists>i' got' ring' out'. ring_loop block ks (i, got, ring, out) = Some (i', got', ring', out') \<and>
      length ring' = length ring \<and> unat i' = length out' mod 16"
    if "length ring = 16 * unat block" "unat i = length out mod 16" for i got ring out
    using that assms(4)
  proof (induction ks arbitrary: i got ring out)
    case (Cons k ks)
    have l: "length (k ring) = 16 * unat block" "i < ring_blocks"
      using Cons.prems by (simp_all add: ring_blocks_def word_less_nat_alt)
    from ring_look_safe [OF l(1) assms(1,2) l(2), of got] obtain i1 got1 ring1 line where
      s: "ring_look block i got (k ring) = Some (i1, got1, ring1, line)" "length ring1 = length (k ring)"
      "line = [] \<and> i1 = i \<or> length line = 1 \<and> unat i1 = (unat i + 1) mod 16"
      by (elim exE conjE) (rule that)
    have "unat i1 = length (out @ line) mod 16"
      using s(3) Cons.prems(2) by (auto simp: mod_Suc_eq)
    from Cons.IH [OF _ this, of ring1 got1] s(2) l(1) Cons.prems show ?case by (simp add: s(1))
  qed simp
  from this [of ring 0 "[]" 0] assms(3) show ?thesis by simp
qed

lemma ring_in_turn_witness:
  "\<exists>i got ring' out. ring_loop 32 [\<lambda>r. r[8 := 1], id] (0, 0, replicate 512 0, []) = Some (i, got, ring', out) \<and>
     length ring' = 512"
proof -
  have "\<forall>k \<in> set [\<lambda>r :: bytes. r[8 := 1], id]. \<forall>r. length (k r) = length r" by simp
  moreover have "20 \<le> unat (32 :: u32)" "16 * unat (32 :: u32) < 2 ^ 32"
    "length (replicate 512 (0 :: byte)) = 16 * unat (32 :: u32)" by simp_all
  ultimately have "\<exists>i got ring' out. ring_loop 32 [\<lambda>r. r[8 := 1], id] (0, 0, replicate 512 0, []) =
      Some (i, got, ring', out) \<and> length ring' = length (replicate 512 (0 :: byte)) \<and> unat i = length out mod 16"
    by (intro ring_in_turn)
  then show ?thesis by (simp only: length_replicate) (elim exE conjE, intro exI conjI, assumption+)
qed

end
