(* ===== verification/HttpText.thy ===== *)
theory HttpText
  imports Http
begin

text \<open>
  HTTP/1 messages as text against \<open>dissectHTTP\<close>: the specification writes a start line, header lines
  and a body; the lemmas show that the dissector finds the end of the head, the lines, and what
  each header line sets, for any number of headers and any body.
\<close>

section \<open>Messages\<close>

definition header_line :: "string \<times> string \<Rightarrow> string" where
  "header_line = (\<lambda>(k, v). k @ '': '' @ v)"

definition http_message :: "string \<Rightarrow> (string \<times> string) list \<Rightarrow> bytes \<Rightarrow> bytes" where
  "http_message start hs body =
     bytes_of (start @ crlf @ concat (map (\<lambda>h. header_line h @ crlf) hs) @ crlf) @ body"

text \<open>A header as it is sent: no line ends, no colon in the name, no white space around.\<close>

definition header_ok :: "string \<times> string \<Rightarrow> bool" where
  "header_ok = (\<lambda>(k, v). CHR 0x0D \<notin> set k \<and> CHR 0x0D \<notin> set v \<and> CHR '':'' \<notin> set k \<and>
     trim_space k = k \<and> trim_space v = v)"

text \<open>The value of the last header of a name; names differ only up to case.\<close>

definition last_header :: "(nat \<Rightarrow> nat) \<Rightarrow> (string \<times> string) list \<Rightarrow> string \<Rightarrow> string option" where
  "last_header ul hs = map_of (rev (map (\<lambda>(k, v). (to_lower ul k, v)) hs))"

lemma last_header_snoc [simp]:
  "last_header ul [] name = None"
  "last_header ul (hs @ [(k, v)]) name = (if name = to_lower ul k then Some v else last_header ul hs name)"
  by (simp_all add: last_header_def)

section \<open>Lines\<close>

lemma head_end:
  assumes "lines \<noteq> []" "\<forall>l \<in> set lines. l \<noteq> [] \<and> CHR 0x0D \<notin> set l"
  shows "find_sub (crlf @ crlf) (join crlf lines @ crlf @ crlf @ body) = Some (length (join crlf lines))"
  using assms
proof (induction lines)
  case (Cons l ls)
  let ?p = "CHR 0x0D # [CHR 0x0A, CHR 0x0D, CHR 0x0A]"
  have p: "crlf @ crlf = ?p" by (simp add: crlf_def)
  have l: "CHR 0x0D \<notin> set l" using Cons.prems by simp
  show ?case
  proof (cases "ls = []")
    case True
    then show ?thesis using find_sub_front [OF l, of "[CHR 0x0A, CHR 0x0D, CHR 0x0A]" body]
      by (simp add: crlf_def)
  next
    case False
    let ?s = "join crlf ls @ crlf @ crlf @ body"
    obtain x xs where ls: "ls = x # xs" using False by (cases ls) simp_all
    then have "?s \<noteq> [] \<and> hd ?s \<noteq> CHR 0x0D"
      using Cons.prems by (cases x) (auto simp: join_Cons)
    then obtain d t where d: "?s = d # t" "d \<noteq> CHR 0x0D" by (cases ?s) simp_all
    have "find_sub ?p (crlf @ ?s) = map_option ((+) 2) (find_sub ?p ?s)"
      unfolding d(1) using d(2) by (simp add: crlf_def has_prefix_simps option.map_comp comp_def)
    moreover have "find_sub ?p ?s = Some (length (join crlf ls))"
      using Cons False by (simp add: p)
    moreover have "join crlf (l # ls) @ crlf @ crlf @ body = l @ crlf @ ?s"
      using False by (simp add: join_Cons)
    ultimately show ?thesis
      using find_sub_skip [OF l, of "[CHR 0x0A, CHR 0x0D, CHR 0x0A]" "crlf @ ?s"] False
      by (simp add: p join_Cons crlf_def)
  qed
qed simp

lemma splitn_join:
  assumes "lines \<noteq> []" "\<forall>l \<in> set lines. CHR 0x0D \<notin> set l" "length lines \<le> n"
  shows "splitn n crlf (join crlf lines) = lines"
  using assms
proof (induction lines arbitrary: n)
  case (Cons l ls)
  then obtain k where k: "n = Suc k" by (cases n) simp_all
  have l: "CHR 0x0D \<notin> set l" using Cons.prems by simp
  show ?case
  proof (cases "ls = []")
    case True
    have "find_sub crlf l = None"
      using find_sub_skip [OF l, of "[CHR 0x0A]" "[]"] by (simp add: crlf_def)
    then show ?thesis by (simp add: k True)
  next
    case False
    then have "k \<noteq> 0" using Cons.prems(3) k by (cases ls) simp_all
    moreover have "find_sub crlf (join crlf (l # ls)) = Some (length l)"
      using find_sub_front [OF l, of "[CHR 0x0A]" "join crlf ls"] False by (simp add: join_Cons crlf_def)
    moreover have "drop (length l + length crlf) (join crlf (l # ls)) = join crlf ls"
      using False by (simp add: join_Cons)
    moreover have "take (length l) (join crlf (l # ls)) = l" using False by (simp add: join_Cons)
    ultimately show ?thesis using Cons False by (simp add: k)
  qed
qed simp

lemma split_join:
  assumes "lines \<noteq> []" "\<forall>l \<in> set lines. CHR 0x0D \<notin> set l"
  shows "split crlf (join crlf lines) = lines"
proof -
  have "length lines \<le> Suc (length (join crlf lines))"
    by (induction lines) (simp_all add: join_Cons crlf_def)
  with assms show ?thesis unfolding split_def by (intro splitn_join)
qed

lemma concat_lines: "start @ crlf @ concat (map (\<lambda>h. header_line h @ crlf) hs) = join crlf (start # map header_line hs) @ crlf"
  by (induction hs arbitrary: start) (simp_all add: join_Cons)

section \<open>Header lines\<close>

lemma trim_space_Cons: "trim_space (CHR '' '' # v) = trim_space v"
proof -
  have "drop_any space_encodings (CHR '' '' # v) = v"
    by (simp add: space_encodings_def has_prefix_simps)
  then have "trim_by space_encodings (CHR '' '' # v) = trim_by space_encodings v"
    by (subst trim_by.simps) (simp add: Let_def)
  then show ?thesis by (simp add: trim_space_def)
qed

lemma header_line_read:
  assumes "header_ok (k, v)"
  shows "http_header ul (header_line (k, v)) (fs, host, ctype, f) =
    (let lk = to_lower ul k; fs = fset (''hdr_'' @ lk) v fs in
     if lk = ''host'' then (fs, v, ctype, meta_set ''http_host'' v f)
     else if lk = ''content-type'' then (fs, host, v, f)
     else if lk = ''user-agent'' then (fs, host, ctype, meta_set ''http_ua'' v f)
     else (fs, host, ctype, f))"
proof -
  have "CHR '':'' \<notin> set k" using assms by (simp add: header_ok_def)
  from find_sub_front [OF this, of "[]" "CHR '' '' # v"]
  have "splitn 2 '':'' (header_line (k, v)) = [k, CHR '' '' # v]"
    by (simp add: header_line_def numeral_2_eq_2)
  then show ?thesis
    using assms by (simp add: http_header_def header_line_def header_ok_def trim_space_Cons Let_def)
qed

lemma headers_read:
  assumes "\<forall>h \<in> set hs. header_ok h"
  shows "\<exists>fs' host' ctype' f'. http_headers ul (map header_line hs) (fs, host, ctype, f) = (fs', host', ctype', f') \<and>
    (\<forall>name. map_of fs' (''hdr_'' @ name) =
       (case last_header ul hs name of Some v \<Rightarrow> Some v | None \<Rightarrow> map_of fs (''hdr_'' @ name))) \<and>
    (\<forall>key. \<not> has_prefix key ''hdr_'' \<longrightarrow> map_of fs' key = map_of fs key) \<and>
    f_meta f' ''http_host'' =
      (case last_header ul hs ''host'' of Some v \<Rightarrow> Some v | None \<Rightarrow> f_meta f ''http_host'') \<and>
    f_layers f' = f_layers f"
  using assms
proof (induction hs rule: rev_induct)
  case Nil
  show ?case by (simp add: http_headers_def)
next
  case (snoc h hs)
  obtain k v where h: "h = (k, v)" by (cases h)
  from snoc obtain fs' host' ctype' f' where
    i: "http_headers ul (map header_line hs) (fs, host, ctype, f) = (fs', host', ctype', f')"
      "\<forall>name. map_of fs' (''hdr_'' @ name) =
        (case last_header ul hs name of Some v \<Rightarrow> Some v | None \<Rightarrow> map_of fs (''hdr_'' @ name))"
      "\<forall>key. \<not> has_prefix key ''hdr_'' \<longrightarrow> map_of fs' key = map_of fs key"
      "f_meta f' ''http_host'' = (case last_header ul hs ''host'' of Some v \<Rightarrow> Some v | None \<Rightarrow> f_meta f ''http_host'')"
      "f_layers f' = f_layers f"
    by auto
  have ok: "header_ok (k, v)" using snoc.prems h by simp
  have s: "http_headers ul (map header_line (hs @ [(k, v)])) (fs, host, ctype, f) =
      http_header ul (header_line (k, v)) (fs', host', ctype', f')"
    using i(1) by (simp add: http_headers_def)
  show ?case
    unfolding h s header_line_read [OF ok] Let_def using i(2-5)
    by (cases "to_lower ul k = ''host''"; cases "to_lower ul k = ''content-type''";
        cases "to_lower ul k = ''user-agent''") (auto simp: has_prefix_simps)
qed

section \<open>Heads\<close>

lemma message_split:
  assumes "start \<noteq> []" "CHR 0x0D \<notin> set start" "\<forall>h \<in> set hs. header_ok h"
  defines "ls \<equiv> start # map header_line hs"
  shows "http_split (http_message start hs body) = (join crlf ls, length body)" "split crlf (join crlf ls) = ls"
proof -
  let ?msg = "http_message start hs body"
  have cr: "\<forall>l \<in> set ls. l \<noteq> [] \<and> CHR 0x0D \<notin> set l"
    using assms(1-3) by (auto simp: header_line_def header_ok_def ls_def)
  have t: "str ?msg = join crlf ls @ crlf @ crlf @ str body"
    using concat_lines [of start hs] by (simp add: http_message_def ls_def str_def [symmetric])
  have e: "find_sub (crlf @ crlf) (str ?msg) = Some (length (join crlf ls))"
    unfolding t by (rule head_end [OF _ cr]) (simp add: ls_def)
  have "length ?msg = length (str ?msg)" by (simp add: str_def)
  also have "\<dots> = length (join crlf ls) + 4 + length body" unfolding t by (simp add: crlf_def str_def)
  finally have len: "length ?msg - (length (join crlf ls) + 4) = length body" by simp
  have "take (length (join crlf ls)) (str ?msg) = join crlf ls" unfolding t by simp
  then show "http_split ?msg = (join crlf ls, length body)"
    unfolding http_split_def Let_def e option.case len by simp
  show "split crlf (join crlf ls) = ls" using cr by (intro split_join) (auto simp: ls_def)
qed

lemma request_start:
  assumes "CHR '' '' \<notin> set m" "CHR '' '' \<notin> set p" "\<not> has_prefix m ''HTTP/''"
  obtains fs where "http_start (m @ '' '' @ p @ '' '' @ v) = (True, m, p, [], fs)" "map_of fs ''version'' = Some v"
    "\<forall>name. map_of fs (''hdr_'' @ name) = None" "map_of fs ''body_len'' = None"
proof -
  let ?start = "m @ '' '' @ p @ '' '' @ v"
  have "splitn 3 '' '' ?start = [m, p, v]"
    using find_sub_front [OF assms(1), of "[]" "p @ '' '' @ v"] find_sub_front [OF assms(2), of "[]" v]
    by (simp add: numeral_3_eq_3)
  moreover have "\<not> has_prefix ?start ''HTTP/''"
  proof
    assume "has_prefix ?start ''HTTP/''"
    with assms(1,3) show False
      by (cases m; cases "tl m"; cases "tl (tl m)"; cases "tl (tl (tl m))"; cases "tl (tl (tl (tl m)))")
        (auto simp: has_prefix_simps)
  qed
  ultimately show ?thesis
    by (intro that [of "[(''start_line'', ?start), (''method'', m), (''path'', p), (''version'', v)]"])
      (simp_all add: http_start_def Let_def)
qed

section \<open>Properties\<close>

text \<open>C17: a request is dissected to what it was written from, whatever its headers, its body and the
  frame before: its method, its path, the value of its last Host header, every header under its
  name in lower case, the number of bytes of its body, in one layer over the whole payload.\<close>

theorem http_request_read:
  fixes body :: bytes
  assumes "CHR '' '' \<notin> set m" "CHR '' '' \<notin> set p" "CHR 0x0D \<notin> set (m @ p @ v)" "\<not> has_prefix m ''HTTP/''"
    and "\<forall>h \<in> set hs. header_ok h"
  defines "msg \<equiv> http_message (m @ '' '' @ p @ '' '' @ v) hs body"
  shows "\<exists>f' l. dissect_http ul f msg off = Some (f', off + length msg) \<and> f_protocol f' = ''HTTP'' \<and>
    f_meta f' ''http_method'' = Some m \<and> f_meta f' ''http_path'' = Some p \<and>
    f_meta f' ''http_host'' = (case last_header ul hs ''host'' of Some h \<Rightarrow> Some h | None \<Rightarrow> f_meta f ''http_host'') \<and>
    f_layers f' = f_layers f @ [l] \<and> l_offset l = off \<and> l_length l = length msg \<and>
    (\<forall>name. map_of (l_fields l) (''hdr_'' @ name) = last_header ul hs name) \<and>
    map_of (l_fields l) ''version'' = Some v \<and>
    map_of (l_fields l) ''body_len'' = (if body = [] then None else Some (dec (length body)))"
proof -
  define start where "start = m @ '' '' @ p @ '' '' @ v"
  have s: "start \<noteq> []" "CHR 0x0D \<notin> set start" using assms(3) by (auto simp: start_def)
  note sp = message_split(1) [OF s assms(5), of body, folded msg_def [folded start_def]]
    message_split(2) [OF s assms(5)]
  obtain fs where st: "http_start start = (True, m, p, [], fs)" "map_of fs ''version'' = Some v"
    "\<forall>name. map_of fs (''hdr_'' @ name) = None" "map_of fs ''body_len'' = None"
    using request_start [OF assms(1,2,4), of v] unfolding start_def .
  from headers_read [OF assms(5), of ul fs "[]" "[]" f] obtain fs' host' ctype' f' where
    h: "http_headers ul (map header_line hs) (fs, [], [], f) = (fs', host', ctype', f')"
      "\<forall>name. map_of fs' (''hdr_'' @ name) = (case last_header ul hs name of Some v \<Rightarrow> Some v | None \<Rightarrow> map_of fs (''hdr_'' @ name))"
      "\<forall>key. \<not> has_prefix key ''hdr_'' \<longrightarrow> map_of fs' key = map_of fs key"
      "f_meta f' ''http_host'' = (case last_header ul hs ''host'' of Some v \<Rightarrow> Some v | None \<Rightarrow> f_meta f ''http_host'')"
      "f_layers f' = f_layers f"
    by (elim exE conjE) (rule that)
  have v: "map_of fs' ''version'' = Some v" "map_of fs' ''body_len'' = None"
    using h(3) st(2,4) by (simp_all add: has_prefix_simps)
  have "\<forall>name. map_of fs' (''hdr_'' @ name) = last_header ul hs name"
    using h(2) st(3) by (auto split: option.split)
  then show ?thesis
    unfolding dissect_http_def sp(1)
    by (simp add: sp(2) http_layer_def st(1) h(1) add_layer_def Let_def h(4,5) v)
qed

lemma http_request_read_witness:
  "\<exists>f' n. dissect_http id (blank_frame 1 0 0 0 []) (http_message (''GET'' @ '' '' @ ''/'' @ '' '' @ ''HTTP/1.1'')
      [(''Host'', ''a.test''), (''HOST'', ''b.test'')] [1, 2]) 54 = Some (f', n) \<and> f_meta f' ''http_host'' = Some ''b.test''"
proof -
  let ?hs = "[(''Host'', ''a.test''), (''HOST'', ''b.test'')]" and ?f = "blank_frame 1 0 0 0 []"
  let ?msg = "http_message (''GET'' @ '' '' @ ''/'' @ '' '' @ ''HTTP/1.1'') ?hs [1, 2]"
  have "trim_space ''Host'' = ''Host''" "trim_space ''HOST'' = ''HOST''" "trim_space ''a.test'' = ''a.test''"
    "trim_space ''b.test'' = ''b.test''" by code_simp+
  then have ok: "\<forall>h \<in> set ?hs. header_ok h" by (simp add: header_ok_def)
  have h: "last_header id ?hs ''host'' = Some ''b.test''"
    by (simp add: last_header_def to_lower_ascii lower_char_def in_range_def) code_simp
  have a: "CHR '' '' \<notin> set ''GET''" "CHR '' '' \<notin> set ''/''" "CHR 0x0D \<notin> set (''GET'' @ ''/'' @ ''HTTP/1.1'')"
    "\<not> has_prefix ''GET'' ''HTTP/''" by (simp_all add: has_prefix_simps)
  obtain f' where "dissect_http id ?f ?msg 54 = Some (f', 54 + length ?msg)"
    "f_meta f' ''http_host'' = (case last_header id ?hs ''host'' of Some h \<Rightarrow> Some h | None \<Rightarrow> f_meta ?f ''http_host'')"
    using http_request_read [OF a ok, of id ?f "[1, 2]" 54] by (elim exE conjE) (rule that)
  then show ?thesis unfolding h option.case by (intro exI conjI)
qed

end
