(* ===== verification/Spec2Isabelle.thy ===== *)
theory Spec2Isabelle
  imports Service Report Deliver Probe HttpText
begin

text \<open>
  FluxTap is a live network protocol dissector written in Go. A packet source (a PCAP or PCAPNG
  file, tcpdump, or an AF_PACKET socket) gives packets; \<open>internal/decode\<close> dissects each into a
  frame with its protocol layers; the engine hands the frame to the security analyzer, the
  display filter, the statistics, the flow tracker and the session player, stores it and queues
  it for the web dashboard; findings go to Telegram and a webhook. This library models the Go code
  file by file and proves what makes each part, and their composition, correct.

  \<^bold>\<open>Foundations.\<close>
  \<^item> \<open>Prelude\<close>, \<open>GoStrings\<close>, \<open>GoMd5\<close>: what the model needs of Go and its library: checked indexing
    and slicing (\<open>None\<close> is Go's panic), big-endian integers, strings as lists of bytes
    (characters), \<open>strings\<close>, \<open>strconv\<close>, UTF-8, \<open>net.IP.String\<close>, \<open>crypto/md5\<close>.
  \<^item> \<open>NetAddr\<close>: \<open>net.ParseIP\<close> and the address classes of package \<open>net\<close>.

  \<^bold>\<open>Dissection, \<open>internal/decode\<close>.\<close> A dissector takes the frame and returns the changed frame and
  the offset, or \<open>None\<close> for a panic.
  \<^item> \<open>Frame\<close>, \<open>Dns\<close>, \<open>Http\<close>, \<open>Tls\<close>, \<open>TcpUdp\<close>, \<open>Ip\<close>, \<open>Dissect\<close>: one theory per Go file, \<open>Dissect\<close> with
    \<open>eth.go\<close> and \<open>Dissector.Dissect\<close>. Shown: layers are named, ordered, disjoint and inside the
    packet; the only packets that can panic have a byte 3 in front of a byte 2.
  \<^item> \<open>Identity\<close>: what dissection does not change (number, timestamp, lengths, bytes).
  \<^item> \<open>HttpText\<close>: HTTP requests as text, which dissect to what they were written from.
  \<^item> \<open>Demo\<close>: the packet builders of \<open>fluxtap gen\<close>, which dissect to what they were built from.

  \<^bold>\<open>Captures, \<open>internal/pcap\<close>.\<close>
  \<^item> \<open>Pcap\<close>: \<open>reader.go\<close> and \<open>writer.go\<close>: the round trip, bounds on what any file gives, and the
    files that are misread.
  \<^item> \<open>Live\<close>: \<open>live.go\<close> and \<open>afpacket.go\<close>: how tcpdump is started and how that fails, the states of a
    live source, the kernel tap. \<open>Probe\<close>: \<open>scripts/probe_afpacket.go\<close>: the ring is whole pages and whole
    frames, and its blocks are taken in turn.

  \<^bold>\<open>Tables.\<close>
  \<^item> \<open>Fifo\<close>: the bounded table as the locale \<open>bounded_fifo\<close>; \<open>Flow\<close> (\<open>internal/flow\<close>) and \<open>Session\<close>
    (\<open>internal/session\<close>) interpret it and so refine a first-in first-out queue.
  \<^item> \<open>Stats\<close>, \<open>Security\<close>, \<open>Story\<close>: \<open>internal/stats\<close>, \<open>internal/security\<close>, \<open>internal/story\<close>: the
    counters are counts of the frames observed, the findings are the newest ones, the story has a
    chapter for each; \<open>sort.Slice\<close> is the locale \<open>slice_sort\<close> of \<open>Story\<close>.
  \<^item> \<open>DisplayFilter\<close>: \<open>internal/filter\<close>: the evaluator against the tree of connectives.

  \<^bold>\<open>Notifiers, \<open>internal/notify\<close>.\<close>
  \<^item> \<open>Redact\<close>: the regular expressions of \<open>redact.go\<close>; the locale \<open>secret\<close>, with an interpretation for
    each, shows that no match is left, and so no credential as the section \<open>Credentials\<close> describes
    them apart from the expressions; what is too short for them stays.
  \<^item> \<open>Notify\<close>: Telegram, the webhook and the guard of its addresses; the locales \<open>throttle\<close> and
    \<open>exact_throttle\<close> show how often is sent. \<open>Deliver\<close>: the HTTP client of the webhook and the redirects
    it follows: no request leaves the address that was checked.

  \<^bold>\<open>The engine and its surface.\<close>
  \<^item> \<open>Engine\<close>: the state and operations of \<open>internal/engine/engine.go\<close>. \<open>Pipeline\<close>: the invariant
    that \<open>ingest\<close> keeps. \<open>System\<close>: the loop of \<open>Run\<close> and the other goroutines as a step relation
    (a step of the loop, pause, resume, stop, the flush of the dashboard queue, a notifier), with
    reachability, safety and termination; a packet source is the locale \<open>packet_source\<close>, whose
    interpretations are the capture file and tcpdump.
  \<^item> \<open>Batch\<close>: \<open>Run\<close> on a whole file is a fold of \<open>ingest\<close> over its packets.
  \<^item> \<open>Generator\<close>: the file of \<open>fluxtap gen\<close>, parsed from end to end.
  \<^item> \<open>Web\<close>: \<open>internal/web/server.go\<close>: routes, handlers, authentication, WebSocket connections.
  \<^item> \<open>Cli\<close>: the command line of \<open>cmd/fluxtap/main.go\<close>. \<open>Csv\<close>: the CSV export against a reader of RFC 4180.
    \<open>Report\<close>: \<open>parse\<close> from its arguments to its output and files, with \<open>humanBytes\<close> to the digit.
  \<^item> \<open>Service\<close>: the running program as a labelled step relation: the loop, the other goroutines, HTTP
    requests, WebSocket messages and closed connections in any order; its bounds hold whoever sends
    what, and without the token nobody disturbs the capture.

  \<^bold>\<open>Parameters.\<close> Package state that is not code under \<open>src\<close> comes in as arguments: \<open>ul\<close> is
  Unicode's lower-case table and \<open>tables\<close> the rest that the filter asks of Unicode and
  \<open>strconv.ParseFloat\<close> (only ASCII is fixed by the model); \<open>clock\<close>, \<open>now\<close> and the record \<open>world\<close> are
  readings of the clock and the orders in which Go walks its maps and sorts; \<open>net\<close> is
  \<open>url.Parse\<close>, name lookup, the environment and the forms of a time; \<open>answer\<close> is what the HTTP client
  says; \<open>outside\<close> is what the web handlers get (the embedded page, the JSON read from a body, the
  result of a WebSocket handshake).

  \<^bold>\<open>Bounds and fuel.\<close> A loop over bytes is recursion with the bytes left as its measure. The loops
  that Go bounds by a count (64 name labels, 12 TLS records, 16 HTTP/2 frames) count down from that
  count. The loop of \<open>Run\<close> may wait for ever on a paused engine, so it is a
  \<open>partial_function (option)\<close>; that it returns on a file is shown (\<open>run_ends\<close>, \<open>parse_file\<close>). The
  loop of the kernel tap runs on a list of answers of the socket, and has not returned when they
  are used up.

  \<^bold>\<open>Not modelled.\<close> Input and output themselves (files, sockets, subprocesses, HTTP, TLS and WebSocket
  transport, the terminal), JSON encoding, mutexes (a step of a goroutine is atomic where the code
  holds its lock), the digits of rates and durations (they come in as texts), the texts of the help and the banner,
  the HTML page with its script, and the shell script under \<open>scripts\<close>.
\<close>

end
